(* ===== verification/Prelude.thy ===== *)
theory Prelude
  imports Main "HOL-Library.Word"
begin

unbundle bit_operations_syntax

text \<open>
  Shared vocabulary of the development: the machine integers of the driver as words, the
  NTSTATUS values the sources name, the memory image of little-endian integers, and the
  generic list and word lemmas that the component theories use.

  NTSTATUS is symbolic. The sources compare a status with a named constant, with zero, or
  through the macros \<open>NT_SUCCESS\<close> and \<open>NT_ERROR\<close>; the USBIP codes come from a message
  compiler, so their numbers are not fixed here. Any other code that Windows returns is
  \<open>NT_OTHER_ERROR\<close>, \<open>NT_OTHER_WARNING\<close> or \<open>NT_OTHER_INFO\<close>, by its severity.
\<close>

type_synonym u8 = "8 word"
type_synonym u16 = "16 word"
type_synonym u32 = "32 word"
type_synonym u64 = "64 word"
type_synonym bytes = "u8 list"

named_theorems swap_simps "equations of the byte-order conversions"
named_theorems status_simps "severity of NTSTATUS values"

section \<open>NTSTATUS\<close>

datatype ntstatus =
    STATUS_SUCCESS
  | STATUS_PENDING
  | STATUS_RECEIVE_PARTIAL
  | STATUS_BUFFER_OVERFLOW
  | STATUS_NO_MORE_ENTRIES
  | STATUS_PARTIAL_COPY
  | STATUS_UNSUCCESSFUL
  | STATUS_CANCELLED
  | STATUS_INVALID_PARAMETER
  | STATUS_INVALID_HANDLE
  | STATUS_INVALID_BUFFER_SIZE
  | STATUS_INVALID_DEVICE_REQUEST
  | STATUS_INVALID_DEVICE_STATE
  | STATUS_INVALID_CONFIG_VALUE
  | STATUS_BUFFER_TOO_SMALL
  | STATUS_INSUFFICIENT_RESOURCES
  | STATUS_NOT_SUPPORTED
  | STATUS_DEVICE_NOT_CONNECTED
  | STATUS_CONNECTION_DISCONNECTED
  | STATUS_FILE_FORCED_CLOSED
  | STATUS_END_OF_FILE
  | STATUS_ALREADY_INITIALIZED
  | STATUS_WDF_BUSY
  | USBIP_ERROR_GENERAL
  | USBIP_ERROR_VERSION
  | USBIP_ERROR_PROTOCOL
  | USBIP_ERROR_PORTFULL
  | USBIP_ERROR_ABI
  | USBIP_ERROR_ST_NA
  | USBIP_ERROR_ST_DEV_BUSY
  | USBIP_ERROR_ST_DEV_ERR
  | USBIP_ERROR_ST_NODEV
  | USBIP_ERROR_ST_ERROR
  | USBIP_ERROR_SERIAL_NUMBER
  | USBIP_ERROR_DEVICE_FILTERED
  | NT_OTHER_ERROR nat
  | NT_OTHER_WARNING nat
  | NT_OTHER_INFO nat

text \<open>\<open>NT_SUCCESS\<close> holds of success and informational codes, \<open>NT_ERROR\<close> of error codes;
  a warning such as \<open>STATUS_BUFFER_OVERFLOW\<close> satisfies neither.\<close>

definition NT_SUCCESS :: "ntstatus \<Rightarrow> bool" where
  "NT_SUCCESS st =
     (case st of
        STATUS_SUCCESS \<Rightarrow> True
      | STATUS_PENDING \<Rightarrow> True
      | STATUS_RECEIVE_PARTIAL \<Rightarrow> True
      | NT_OTHER_INFO _ \<Rightarrow> True
      | _ \<Rightarrow> False)"

definition NT_WARNING :: "ntstatus \<Rightarrow> bool" where
  "NT_WARNING st =
     (case st of
        STATUS_BUFFER_OVERFLOW \<Rightarrow> True
      | STATUS_NO_MORE_ENTRIES \<Rightarrow> True
      | STATUS_PARTIAL_COPY \<Rightarrow> True
      | NT_OTHER_WARNING _ \<Rightarrow> True
      | _ \<Rightarrow> False)"

definition NT_ERROR :: "ntstatus \<Rightarrow> bool" where
  "NT_ERROR st \<longleftrightarrow> \<not> NT_SUCCESS st \<and> \<not> NT_WARNING st"

lemma NT_SUCCESS_simps [simp, status_simps]:
  "NT_SUCCESS STATUS_SUCCESS" "NT_SUCCESS STATUS_PENDING"
  "\<not> NT_SUCCESS STATUS_CANCELLED" "\<not> NT_SUCCESS STATUS_INVALID_PARAMETER"
  "\<not> NT_SUCCESS STATUS_INVALID_BUFFER_SIZE" "\<not> NT_SUCCESS USBIP_ERROR_DEVICE_FILTERED"
  "\<not> NT_SUCCESS STATUS_BUFFER_TOO_SMALL" "\<not> NT_SUCCESS STATUS_INSUFFICIENT_RESOURCES"
  by (simp_all add: NT_SUCCESS_def)

lemma NT_ERROR_not_success: "NT_ERROR st \<Longrightarrow> \<not> NT_SUCCESS st"
  by (simp add: NT_ERROR_def)

lemma NT_ERROR_nonzero: "NT_ERROR st \<Longrightarrow> st \<noteq> STATUS_SUCCESS"
  by (auto simp: NT_ERROR_def)

section \<open>Little-endian memory images\<close>

text \<open>The bytes of an integer in the order in which x64 and ARM64 store them.\<close>

definition le16 :: "u16 \<Rightarrow> bytes" where
  "le16 w = [ucast w, ucast (drop_bit 8 w)]"

definition le32 :: "u32 \<Rightarrow> bytes" where
  "le32 w = [ucast w, ucast (drop_bit 8 w), ucast (drop_bit 16 w), ucast (drop_bit 24 w)]"

fun of_le16 :: "bytes \<Rightarrow> u16" where
  "of_le16 [a, b] = ucast a OR push_bit 8 (ucast b)"
| "of_le16 _ = 0"

fun of_le32 :: "bytes \<Rightarrow> u32" where
  "of_le32 [a, b, c, d] =
     ucast a OR push_bit 8 (ucast b) OR push_bit 16 (ucast c) OR push_bit 24 (ucast d)"
| "of_le32 _ = 0"

text \<open>\<open>_byteswap_ushort\<close> and \<open>_byteswap_ulong\<close> (\<open>RtlUlongByteSwap\<close>).\<close>

definition bswap16 :: "u16 \<Rightarrow> u16" where
  "bswap16 w = of_le16 (rev (le16 w))"

definition bswap32 :: "u32 \<Rightarrow> u32" where
  "bswap32 w = of_le32 (rev (le32 w))"

lemma length_le [simp]: "length (le16 v) = 2" "length (le32 w) = 4"
  by (simp_all add: le16_def le32_def)

lemma bit_u8_beyond [simp]: "8 \<le> n \<Longrightarrow> \<not> bit (b :: u8) n"
  using bit_imp_le_length [of b n] by auto

lemma of_le16_le16 [simp]: "of_le16 (le16 w) = w"
  by (rule bit_word_eqI) (auto simp: le16_def bit_simps)

lemma of_le32_le32 [simp]: "of_le32 (le32 w) = w"
proof (rule bit_word_eqI)
  fix n :: nat
  assume "n < LENGTH(32)"
  then consider "n < 8" | "8 \<le> n" "n < 16" | "16 \<le> n" "n < 24" | "24 \<le> n" "n < 32"
    by fastforce
  then show "bit (of_le32 (le32 w)) n = bit w n"
    by cases (auto simp: le32_def bit_simps)
qed

lemma le16_of_le16: "length bs = 2 \<Longrightarrow> le16 (of_le16 bs) = bs"
  by (cases bs rule: of_le16.cases)
    (auto simp: le16_def bit_simps intro!: bit_word_eqI)

lemma le32_of_le32: "length bs = 4 \<Longrightarrow> le32 (of_le32 bs) = bs"
  by (cases bs rule: of_le32.cases)
    (auto simp: le32_def bit_simps intro!: bit_word_eqI)

lemma bswap16_bswap16 [simp, swap_simps]: "bswap16 (bswap16 w) = w"
  by (simp add: bswap16_def le16_of_le16)

lemma bswap32_bswap32 [simp, swap_simps]: "bswap32 (bswap32 w) = w"
  by (simp add: bswap32_def le32_of_le32)

lemma le32_bswap32 [swap_simps]: "le32 (bswap32 w) = rev (le32 w)"
  by (simp add: bswap32_def le32_of_le32)

lemma le16_bswap16 [swap_simps]: "le16 (bswap16 w) = rev (le16 w)"
  by (simp add: bswap16_def le16_of_le16)

lemma le32_inj: "le32 v = le32 w \<longleftrightarrow> v = w"
  by (metis of_le32_le32)

section \<open>Lists read by offset\<close>

text \<open>\<open>slice off n bs\<close> is the memory \<open>bs[off .. off + n - 1]\<close>, shorter at the end of \<open>bs\<close>.\<close>

definition slice :: "nat \<Rightarrow> nat \<Rightarrow> 'a list \<Rightarrow> 'a list" where
  "slice off n xs = take n (drop off xs)"

lemma length_slice [simp]: "length (slice off n xs) = min n (length xs - off)"
  by (simp add: slice_def)

lemma slice_nth: "off + n \<le> length xs \<Longrightarrow> i < n \<Longrightarrow> slice off n xs ! i = xs ! (off + i)"
  by (simp add: slice_def)

lemma slice_append_left: "off + n \<le> length xs \<Longrightarrow> slice off n (xs @ ys) = slice off n xs"
  by (simp add: slice_def)

lemma slice_append_right: "length xs \<le> off \<Longrightarrow> slice off n (xs @ ys) = slice (off - length xs) n ys"
  by (simp add: slice_def)

lemma slice_Cons [simp]: "0 < off \<Longrightarrow> slice off n (x # xs) = slice (off - 1) n xs"
  by (simp add: slice_def drop_Cons')

lemma slice_full [simp]: "length xs \<le> n \<Longrightarrow> slice 0 n xs = xs"
  by (simp add: slice_def)

text \<open>\<open>RtlCopyMemory\<close> of \<open>src\<close> to offset \<open>off\<close> of \<open>dst\<close>.\<close>

definition overwrite :: "'a list \<Rightarrow> nat \<Rightarrow> 'a list \<Rightarrow> 'a list" where
  "overwrite dst off src = take off dst @ src @ drop (off + length src) dst"

lemma length_overwrite [simp]:
  "off + length src \<le> length dst \<Longrightarrow> length (overwrite dst off src) = length dst"
  by (simp add: overwrite_def)

lemma nth_overwrite:
  assumes "off + length src \<le> length dst" "i < length dst"
  shows "overwrite dst off src ! i =
    (if off \<le> i \<and> i < off + length src then src ! (i - off) else dst ! i)"
  using assms by (auto simp: overwrite_def nth_append)

section \<open>Words as numbers\<close>

lemma unat_u8_lt [simp]: "unat (b :: u8) < 256"
  using unsigned_less [of b] by simp

lemma unat_u16_lt [simp]: "unat (b :: u16) < 65536"
  using unsigned_less [of b] by simp

lemma unat_u32_lt [simp]: "unat (b :: u32) < 4294967296"
  using unsigned_less [of b] by simp

section \<open>Traces of step relations\<close>

text \<open>\<open>trace step s es s'\<close>: from \<open>s\<close> the steps labelled \<open>es\<close> lead to \<open>s'\<close>.\<close>

inductive trace :: "('s \<Rightarrow> 'e \<Rightarrow> 's \<Rightarrow> bool) \<Rightarrow> 's \<Rightarrow> 'e list \<Rightarrow> 's \<Rightarrow> bool"
  for step where
  trace_Nil: "trace step s [] s"
| trace_snoc: "trace step s es s1 \<Longrightarrow> step s1 e s2 \<Longrightarrow> trace step s (es @ [e]) s2"

lemma trace_invariant:
  assumes "trace step s es s'" "I s" "\<And>s e s'. I s \<Longrightarrow> step s e s' \<Longrightarrow> I s'"
  shows "I s'"
  using assms by (induction rule: trace.induct) blast+

lemma trace_simulation:
  assumes "trace step s es s'" "R s a"
    and "\<And>s a e s'. R s a \<Longrightarrow> step s e s' \<Longrightarrow> \<exists>a'. step' a e a' \<and> R s' a'"
  shows "\<exists>a'. trace step' a es a' \<and> R s' a'"
  using assms(1,2)
proof (induction rule: trace.induct)
  case (trace_Nil s)
  then show ?case by (blast intro: trace.trace_Nil)
next
  case (trace_snoc s es s1 e s2)
  then obtain a1 where "trace step' a es a1" "R s1 a1" by blast
  with assms(3) trace_snoc.hyps(2) show ?case by (blast intro: trace.trace_snoc)
qed

lemma trace_Cons: "trace step s1 es s2 \<Longrightarrow> step s e s1 \<Longrightarrow> trace step s (e # es) s2"
proof (induction rule: trace.induct)
  case (trace_Nil s1)
  then show ?case using trace.trace_snoc [OF trace.trace_Nil] by fastforce
next
  case (trace_snoc s1 es s2 e' s3)
  then show ?case using trace.trace_snoc by (metis append_Cons)
qed

end
