(* ===== verification/Protocol.thy ===== *)
theory Protocol
  imports Prelude
begin

text \<open>
  The USB/IP wire protocol: the URB phase header of \<open>include/usbip/proto.h\<close> with the byte-order
  and size functions of \<open>drivers/libdrv/pdu.cpp\<close>, and the operation phase structures of
  \<open>include/usbip/proto_op.h\<close> with \<open>userspace/libusbip/src/proto_op.cpp\<close> and \<open>op_common.h\<close>.

  The union of \<open>header\<close> is kept as the memory it is: five 32-bit cells and the eight setup
  bytes. The members \<open>cmd_submit\<close>, \<open>ret_submit\<close>, \<open>cmd_unlink\<close> and \<open>ret_unlink\<close> are
  abbreviations for the cells they overlay, so a field written through one member is read
  through another exactly as in C++.
\<close>

section \<open>The URB phase header\<close>

datatype request_type = CMD_SUBMIT | CMD_UNLINK | RET_SUBMIT | RET_UNLINK

fun request_type_code :: "request_type \<Rightarrow> u32" where
  "request_type_code CMD_SUBMIT = 1"
| "request_type_code CMD_UNLINK = 2"
| "request_type_code RET_SUBMIT = 3"
| "request_type_code RET_UNLINK = 4"

definition to_request_type :: "u32 \<Rightarrow> request_type option" where
  "to_request_type c =
     (if c = 1 then Some CMD_SUBMIT else if c = 2 then Some CMD_UNLINK
      else if c = 3 then Some RET_SUBMIT else if c = 4 then Some RET_UNLINK else None)"

abbreviation (input) direction_out :: u32 where "direction_out \<equiv> 0"
abbreviation (input) direction_in :: u32 where "direction_in \<equiv> 1"

definition max_iso_packets :: int where "max_iso_packets = 1024"

definition number_of_packets_non_isoch :: int where "number_of_packets_non_isoch = - 1"

definition is_valid_number_of_packets :: "int \<Rightarrow> bool" where
  "is_valid_number_of_packets n \<longleftrightarrow> 0 \<le> n \<and> n \<le> max_iso_packets"

record header =
  command :: u32
  seqnum :: u32
  devid :: u32
  direction :: u32
  ep :: u32
  un0 :: u32
  un1 :: u32
  un2 :: u32
  un3 :: u32
  un4 :: u32
  setup_pkt :: bytes

text \<open>\<open>header_cmd_submit\<close>, \<open>header_ret_submit\<close>, \<open>header_cmd_unlink\<close> and \<open>header_ret_unlink\<close>.\<close>

abbreviation transfer_flags :: "header \<Rightarrow> u32" where "transfer_flags \<equiv> un0"
abbreviation transfer_buffer_length :: "header \<Rightarrow> int" where
  "transfer_buffer_length h \<equiv> sint (un1 h)"
abbreviation cmd_number_of_packets :: "header \<Rightarrow> int" where
  "cmd_number_of_packets h \<equiv> sint (un3 h)"
abbreviation ret_status :: "header \<Rightarrow> int" where "ret_status h \<equiv> sint (un0 h)"
abbreviation actual_length :: "header \<Rightarrow> int" where "actual_length h \<equiv> sint (un1 h)"
abbreviation ret_start_frame :: "header \<Rightarrow> u32" where "ret_start_frame \<equiv> un2"
abbreviation ret_number_of_packets :: "header \<Rightarrow> int" where
  "ret_number_of_packets h \<equiv> sint (un3 h)"
abbreviation error_count :: "header \<Rightarrow> int" where "error_count h \<equiv> sint (un4 h)"
abbreviation unlink_seqnum :: "header \<Rightarrow> u32" where "unlink_seqnum \<equiv> un0"

definition sizeof_header :: nat where "sizeof_header = 48"

definition header_bytes :: "header \<Rightarrow> bytes" where
  "header_bytes h =
     le32 (command h) @ le32 (seqnum h) @ le32 (devid h) @ le32 (direction h) @ le32 (ep h) @
     le32 (un0 h) @ le32 (un1 h) @ le32 (un2 h) @ le32 (un3 h) @ le32 (un4 h) @ setup_pkt h"

definition header_of_bytes :: "bytes \<Rightarrow> header" where
  "header_of_bytes bs =
     \<lparr>command = of_le32 (slice 0 4 bs), seqnum = of_le32 (slice 4 4 bs),
      devid = of_le32 (slice 8 4 bs), direction = of_le32 (slice 12 4 bs),
      ep = of_le32 (slice 16 4 bs), un0 = of_le32 (slice 20 4 bs),
      un1 = of_le32 (slice 24 4 bs), un2 = of_le32 (slice 28 4 bs),
      un3 = of_le32 (slice 32 4 bs), un4 = of_le32 (slice 36 4 bs),
      setup_pkt = slice 40 8 bs\<rparr>"

definition zero_header :: header where
  "zero_header = \<lparr>command = 0, seqnum = 0, devid = 0, direction = 0, ep = 0,
     un0 = 0, un1 = 0, un2 = 0, un3 = 0, un4 = 0, setup_pkt = replicate 8 0\<rparr>"

record iso_packet_descriptor =
  iso_offset :: u32
  iso_length :: u32
  iso_actual_length :: u32
  iso_status :: u32

definition sizeof_iso_packet_descriptor :: nat where "sizeof_iso_packet_descriptor = 16"

section \<open>Byte order\<close>

datatype swap_dir = host2net | net2host

definition bswap_basic :: "header \<Rightarrow> header" where
  "bswap_basic h = h\<lparr>command := bswap32 (command h), seqnum := bswap32 (seqnum h),
     devid := bswap32 (devid h), direction := bswap32 (direction h), ep := bswap32 (ep h)\<rparr>"

definition bswap_cmd_submit :: "header \<Rightarrow> header" where
  "bswap_cmd_submit h = h\<lparr>un0 := bswap32 (un0 h), un1 := bswap32 (un1 h),
     un2 := bswap32 (un2 h), un3 := bswap32 (un3 h), un4 := bswap32 (un4 h)\<rparr>"

definition bswap_ret_submit :: "header \<Rightarrow> header" where
  "bswap_ret_submit h = h\<lparr>un0 := bswap32 (un0 h), un1 := bswap32 (un1 h),
     un2 := bswap32 (un2 h), un3 := bswap32 (un3 h), un4 := bswap32 (un4 h)\<rparr>"

definition bswap_cmd_unlink :: "header \<Rightarrow> header" where
  "bswap_cmd_unlink h = h\<lparr>un0 := bswap32 (un0 h)\<rparr>"

definition bswap_ret_unlink :: "header \<Rightarrow> header" where
  "bswap_ret_unlink h = h\<lparr>un0 := bswap32 (un0 h)\<rparr>"

definition bswap_union :: "header \<Rightarrow> header" where
  "bswap_union h =
     (case to_request_type (command h) of
        Some CMD_SUBMIT \<Rightarrow> bswap_cmd_submit h
      | Some RET_SUBMIT \<Rightarrow> bswap_ret_submit h
      | Some CMD_UNLINK \<Rightarrow> bswap_cmd_unlink h
      | Some RET_UNLINK \<Rightarrow> bswap_ret_unlink h
      | None \<Rightarrow> h)"

text \<open>The command is in host order while the union is swapped: before the union on the way in,
  after it on the way out.\<close>

definition byteswap_header :: "header \<Rightarrow> swap_dir \<Rightarrow> header" where
  "byteswap_header hdr dir =
     (let h1 = (if dir = net2host then bswap_basic hdr else hdr);
          h2 = bswap_union h1
      in if dir = host2net then bswap_basic h2 else h2)"

definition bswap_iso :: "iso_packet_descriptor \<Rightarrow> iso_packet_descriptor" where
  "bswap_iso d = \<lparr>iso_offset = bswap32 (iso_offset d), iso_length = bswap32 (iso_length d),
     iso_actual_length = bswap32 (iso_actual_length d), iso_status = bswap32 (iso_status d)\<rparr>"

text \<open>\<open>byteswap(iso_packet_descriptor *d, size_t cnt)\<close> touches \<open>cnt\<close> elements of the array it is
  given; \<open>None\<close> is an access past the end of the allocation.\<close>

definition byteswap_iso :: "iso_packet_descriptor list \<Rightarrow> nat \<Rightarrow> iso_packet_descriptor list option" where
  "byteswap_iso ds cnt =
     (if cnt \<le> length ds then Some (map bswap_iso (take cnt ds) @ drop cnt ds) else None)"

section \<open>Sizes\<close>

text \<open>
  \<open>get_isoc_descr\<close> returns the address of the isochronous descriptors, here as an offset from
  the header, and their count. Pointers and \<open>size_t\<close> are 64-bit: a negative length moves the
  address below the end of the header, and the count is the sign extension of the field.
\<close>

definition get_isoc_descr :: "header \<Rightarrow> u64 \<times> u64" where
  "get_isoc_descr hdr =
     (let dir_out = (direction hdr = direction_out);
          buf_end = (of_nat sizeof_header :: u64);
          (buf_end, cnt) =
            (case to_request_type (command hdr) of
               Some CMD_SUBMIT \<Rightarrow>
                 (buf_end + (if dir_out then word_of_int (transfer_buffer_length hdr) else 0),
                  word_of_int (cmd_number_of_packets hdr))
             | Some RET_SUBMIT \<Rightarrow>
                 (buf_end + (if dir_out then 0 else word_of_int (actual_length hdr)),
                  word_of_int (ret_number_of_packets hdr))
             | _ \<Rightarrow> (buf_end, 0))
      in (buf_end, if cnt = word_of_int number_of_packets_non_isoch then 0 else cnt))"

definition get_total_size :: "header \<Rightarrow> u64" where
  "get_total_size hdr =
     (let (isoc, cnt) = get_isoc_descr hdr
      in isoc + cnt * of_nat sizeof_iso_packet_descriptor)"

definition get_payload_size :: "header \<Rightarrow> u64" where
  "get_payload_size hdr = get_total_size hdr - of_nat sizeof_header"

section \<open>The operation phase\<close>

definition USBIP_VERSION :: u16 where "USBIP_VERSION = 0x111"
definition OP_REQ_IMPORT :: u16 where "OP_REQ_IMPORT = 0x8003"
definition OP_REP_IMPORT :: u16 where "OP_REP_IMPORT = 0x0003"
definition OP_REQ_DEVLIST :: u16 where "OP_REQ_DEVLIST = 0x8005"
definition OP_REP_DEVLIST :: u16 where "OP_REP_DEVLIST = 0x0005"

record op_common =
  op_version :: u16
  op_code :: u16
  op_status :: u32

definition op_common_bytes :: "op_common \<Rightarrow> bytes" where
  "op_common_bytes c = le16 (op_version c) @ le16 (op_code c) @ le32 (op_status c)"

definition op_common_of_bytes :: "bytes \<Rightarrow> op_common" where
  "op_common_of_bytes bs = \<lparr>op_version = of_le16 (slice 0 2 bs),
     op_code = of_le16 (slice 2 2 bs), op_status = of_le32 (slice 4 4 bs)\<rparr>"

record usbip_usb_device =
  ud_path :: bytes
  ud_busid :: bytes
  ud_busnum :: u32
  ud_devnum :: u32
  ud_speed :: u32
  ud_idVendor :: u16
  ud_idProduct :: u16
  ud_bcdDevice :: u16
  ud_bDeviceClass :: u8
  ud_bDeviceSubClass :: u8
  ud_bDeviceProtocol :: u8
  ud_bConfigurationValue :: u8
  ud_bNumConfigurations :: u8
  ud_bNumInterfaces :: u8

definition DEV_PATH_MAX :: nat where "DEV_PATH_MAX = 256"
definition BUS_ID_SIZE :: nat where "BUS_ID_SIZE = 32"
definition sizeof_usbip_usb_device :: nat where "sizeof_usbip_usb_device = 312"

definition usb_device_bytes :: "usbip_usb_device \<Rightarrow> bytes" where
  "usb_device_bytes d = ud_path d @ ud_busid d @
     le32 (ud_busnum d) @ le32 (ud_devnum d) @ le32 (ud_speed d) @
     le16 (ud_idVendor d) @ le16 (ud_idProduct d) @ le16 (ud_bcdDevice d) @
     [ud_bDeviceClass d, ud_bDeviceSubClass d, ud_bDeviceProtocol d,
      ud_bConfigurationValue d, ud_bNumConfigurations d, ud_bNumInterfaces d]"

definition usb_device_of_bytes :: "bytes \<Rightarrow> usbip_usb_device" where
  "usb_device_of_bytes bs =
     \<lparr>ud_path = slice 0 256 bs, ud_busid = slice 256 32 bs,
      ud_busnum = of_le32 (slice 288 4 bs), ud_devnum = of_le32 (slice 292 4 bs),
      ud_speed = of_le32 (slice 296 4 bs), ud_idVendor = of_le16 (slice 300 2 bs),
      ud_idProduct = of_le16 (slice 302 2 bs), ud_bcdDevice = of_le16 (slice 304 2 bs),
      ud_bDeviceClass = bs ! 306, ud_bDeviceSubClass = bs ! 307, ud_bDeviceProtocol = bs ! 308,
      ud_bConfigurationValue = bs ! 309, ud_bNumConfigurations = bs ! 310,
      ud_bNumInterfaces = bs ! 311\<rparr>"

definition byteswap_usb_device :: "usbip_usb_device \<Rightarrow> usbip_usb_device" where
  "byteswap_usb_device d = d\<lparr>ud_busnum := bswap32 (ud_busnum d), ud_devnum := bswap32 (ud_devnum d),
     ud_speed := bswap32 (ud_speed d), ud_idVendor := bswap16 (ud_idVendor d),
     ud_idProduct := bswap16 (ud_idProduct d), ud_bcdDevice := bswap16 (ud_bcdDevice d)\<rparr>"

definition byteswap_op_common :: "op_common \<Rightarrow> op_common" where
  "byteswap_op_common c = \<lparr>op_version = bswap16 (op_version c), op_code = bswap16 (op_code c),
     op_status = bswap32 (op_status c)\<rparr>"

definition byteswap_op_devlist_reply :: "u32 \<Rightarrow> u32" where
  "byteswap_op_devlist_reply ndev = bswap32 ndev"

definition op_status_error :: "u32 \<Rightarrow> ntstatus" where
  "op_status_error st =
     (let v = [STATUS_SUCCESS, USBIP_ERROR_ST_NA, USBIP_ERROR_ST_DEV_BUSY, USBIP_ERROR_ST_DEV_ERR,
               USBIP_ERROR_ST_NODEV, USBIP_ERROR_ST_ERROR]
      in if 0 \<le> sint st \<and> sint st < int (length v) then v ! nat (sint st)
         else USBIP_ERROR_ST_ERROR)"

definition op_status_str :: "u32 \<Rightarrow> string" where
  "op_status_str st =
     (let v = [''ST_OK'', ''ST_NA'', ''ST_DEV_BUSY'', ''ST_DEV_ERR'', ''ST_NODEV'', ''ST_ERROR'']
      in if 0 \<le> sint st \<and> sint st < int (length v) then v ! nat (sint st)
         else ''op_status_str: out of range'')"

section \<open>Lemmas\<close>

lemma to_request_type_code [simp]: "to_request_type (request_type_code t) = Some t"
  by (cases t) (simp_all add: to_request_type_def)

lemma to_request_type_eq_Some: "to_request_type c = Some t \<longleftrightarrow> c = request_type_code t"
  by (cases t) (auto simp: to_request_type_def)

lemmas bswap_member_defs =
  bswap_cmd_submit_def bswap_ret_submit_def bswap_cmd_unlink_def bswap_ret_unlink_def

lemma command_bswap_union [simp]: "command (bswap_union h) = command h"
  by (simp add: bswap_union_def bswap_member_defs split: option.splits request_type.splits)

lemma bswap_union_bswap_union [swap_simps, simp]: "bswap_union (bswap_union h) = h"
  by (simp add: bswap_union_def bswap_member_defs split: option.splits request_type.splits)

lemma bswap_basic_bswap_basic [swap_simps, simp]: "bswap_basic (bswap_basic h) = h"
  by (simp add: bswap_basic_def)

lemma bswap_iso_bswap_iso [swap_simps, simp]: "bswap_iso (bswap_iso d) = d"
  by (simp add: bswap_iso_def)

lemma byteswap_usb_device_twice [swap_simps, simp]:
  "byteswap_usb_device (byteswap_usb_device d) = d"
  by (simp add: byteswap_usb_device_def)

lemma byteswap_op_common_twice [swap_simps, simp]:
  "byteswap_op_common (byteswap_op_common c) = c"
  by (simp add: byteswap_op_common_def)

lemma setup_byteswap [simp]: "setup_pkt (byteswap_header h dir) = setup_pkt h"
  by (simp add: byteswap_header_def bswap_union_def bswap_basic_def bswap_member_defs Let_def
      split: option.splits request_type.splits)

lemma header_of_header_bytes:
  "length (setup_pkt h) = 8 \<Longrightarrow> header_of_bytes (header_bytes h) = h"
  by (simp add: header_of_bytes_def header_bytes_def slice_append_left slice_append_right)

lemma length_header_bytes: "length (setup_pkt h) = 8 \<Longrightarrow> length (header_bytes h) = sizeof_header"
  by (simp add: header_bytes_def sizeof_header_def)

lemma op_common_of_op_common_bytes: "op_common_of_bytes (op_common_bytes c) = c"
  by (simp add: op_common_of_bytes_def op_common_bytes_def slice_append_left slice_append_right)

lemma usb_device_of_usb_device_bytes:
  assumes "length (ud_path d) = DEV_PATH_MAX" "length (ud_busid d) = BUS_ID_SIZE"
  shows "usb_device_of_bytes (usb_device_bytes d) = d"
  using assms
  by (simp add: usb_device_of_bytes_def usb_device_bytes_def slice_append_left slice_append_right
      DEV_PATH_MAX_def BUS_ID_SIZE_def nth_append)

lemma op_status_error_zero: "op_status_error st = STATUS_SUCCESS \<longleftrightarrow> st = 0"
proof -
  have "sint st = 0 \<longleftrightarrow> st = 0" by (rule signed_eq_0_iff)
  moreover have "op_status_error st = STATUS_SUCCESS \<longleftrightarrow> sint st = 0"
    by (auto simp: op_status_error_def Let_def nth_Cons' split: if_splits)
  ultimately show ?thesis by simp
qed

lemma sint_u32_less: "sint (w :: u32) < 2 ^ 31"
  using sint_lt [of w] by simp

lemma sint_of_nat_u32: "n < 2 ^ 31 \<Longrightarrow> sint (of_nat n :: u32) = int n"
  by (simp add: signed_of_nat signed_take_bit_int_eq_self)

lemma word_of_int_nat: "0 \<le> i \<Longrightarrow> (word_of_int i :: u64) = of_nat (nat i)"
  by simp

lemma unat_of_nat_u64: "n < 2 ^ 64 \<Longrightarrow> unat (of_nat n :: u64) = n"
  by (simp add: unat_of_nat take_bit_nat_eq_self)

lemma of_nat_u64_neq_minus_one: "n < 2 ^ 64 - 1 \<Longrightarrow> (of_nat n :: u64) \<noteq> - 1"
proof
  assume n: "n < 2 ^ 64 - 1" and "(of_nat n :: u64) = - 1"
  then have "unat (of_nat n :: u64) = unat (- 1 :: u64)" by simp
  moreover have "unat (of_nat n :: u64) = n" using n by (simp add: unat_of_nat_u64)
  ultimately show False using n by (simp add: unsigned_minus_1_eq_mask mask_eq_exp_minus_1)
qed

text \<open>The number of isochronous descriptors of a validated header, as the size functions see it.\<close>

definition isoc_count :: "int \<Rightarrow> nat" where
  "isoc_count n = (if n = number_of_packets_non_isoch then 0 else nat n)"

lemma isoc_count_word:
  assumes "n = number_of_packets_non_isoch \<or> is_valid_number_of_packets n"
  shows "(if (word_of_int n :: u64) = word_of_int number_of_packets_non_isoch then 0
     else word_of_int n) = (of_nat (isoc_count n) :: u64)"
proof (cases "n = number_of_packets_non_isoch")
  case False
  then have n: "0 \<le> n" "n \<le> 1024"
    using assms by (auto simp: is_valid_number_of_packets_def max_iso_packets_def)
  then have "(of_nat (nat n) :: u64) \<noteq> - 1"
    by (intro of_nat_u64_neq_minus_one) simp
  then show ?thesis
    using False n by (simp add: isoc_count_def number_of_packets_non_isoch_def)
qed (simp add: isoc_count_def)

section \<open>The codec interface\<close>

text \<open>
  What the transport relies on for every structure it sends or receives: the memory image has a
  fixed size and determines the value, and the conversion to network order is undone by the
  conversion to host order. The fragments of a stream are then parsed one after another.
\<close>

locale wire_codec =
  fixes enc :: "'a \<Rightarrow> bytes"
    and dec :: "bytes \<Rightarrow> 'a"
    and to_net :: "'a \<Rightarrow> 'a"
    and to_host :: "'a \<Rightarrow> 'a"
    and wf :: "'a \<Rightarrow> bool"
    and size_of :: nat
  assumes dec_enc: "wf x \<Longrightarrow> dec (enc x) = x"
    and length_enc: "wf x \<Longrightarrow> length (enc x) = size_of"
    and enc_dec: "length bs = size_of \<Longrightarrow> enc (dec bs) = bs"
    and wf_dec: "length bs = size_of \<Longrightarrow> wf (dec bs)"
    and to_host_to_net: "to_host (to_net x) = x"
    and to_net_to_host: "to_net (to_host x) = x"
    and wf_to_net: "wf x \<Longrightarrow> wf (to_net x)"
    and wf_to_host: "wf x \<Longrightarrow> wf (to_host x)"
begin

lemma sent_is_received: "wf x \<Longrightarrow> to_host (dec (enc (to_net x))) = x"
  by (simp add: dec_enc wf_to_net to_host_to_net)

lemma received_is_sent: "length bs = size_of \<Longrightarrow> enc (to_net (to_host (dec bs))) = bs"
  by (simp add: to_net_to_host enc_dec)

lemma image_injective: "wf x \<Longrightarrow> wf y \<Longrightarrow> enc (to_net x) = enc (to_net y) \<Longrightarrow> x = y"
  by (metis sent_is_received)

lemma stream_head:
  assumes "wf x"
  shows "to_host (dec (take size_of (enc (to_net x) @ rest))) = x"
    and "drop size_of (enc (to_net x) @ rest) = rest"
  using assms by (simp_all add: length_enc wf_to_net dec_enc to_host_to_net)

end

lemma bytes_of_fields [simp]:
  "i + 4 \<le> length bs \<Longrightarrow> le32 (of_le32 (slice i 4 bs)) = slice i 4 bs"
  "i + 2 \<le> length bs \<Longrightarrow> le16 (of_le16 (slice i 2 bs)) = slice i 2 bs"
  by (simp_all add: le32_of_le32 le16_of_le16)

lemma slice_join: "j = i + m \<Longrightarrow> slice i m bs @ slice j n bs = slice i (m + n) bs"
  by (simp add: slice_def take_add drop_drop add.commute)

lemma slice_join_assoc: "j = i + m \<Longrightarrow> slice i m bs @ slice j n bs @ r = slice i (m + n) bs @ r"
  by (metis append.assoc slice_join)

lemma slice_one: "i < length bs \<Longrightarrow> [bs ! i] = slice i 1 bs"
  by (simp add: slice_def take_Suc hd_drop_conv_nth)

lemma header_bytes_header_of_bytes:
  "length bs = sizeof_header \<Longrightarrow> header_bytes (header_of_bytes bs) = bs"
  by (simp add: header_bytes_def header_of_bytes_def sizeof_header_def slice_join slice_join_assoc)

lemma op_common_bytes_of_bytes: "length bs = 8 \<Longrightarrow> op_common_bytes (op_common_of_bytes bs) = bs"
  by (simp add: op_common_bytes_def op_common_of_bytes_def slice_join slice_join_assoc)

lemma usb_device_bytes_of_bytes:
  assumes "length bs = sizeof_usbip_usb_device"
  shows "usb_device_bytes (usb_device_of_bytes bs) = bs"
proof -
  have "[bs ! 306, bs ! 307, bs ! 308, bs ! 309, bs ! 310, bs ! 311] = slice 306 6 bs"
    using assms
    by (intro nth_equalityI) (auto simp: sizeof_usbip_usb_device_def slice_nth less_Suc_eq numeral_eq_Suc)
  then show ?thesis
    using assms by (simp add: usb_device_bytes_def usb_device_of_bytes_def
        sizeof_usbip_usb_device_def slice_join slice_join_assoc)
qed

lemma byteswap_header_inverse [simp]:
  "byteswap_header (byteswap_header h host2net) net2host = h"
  "byteswap_header (byteswap_header h net2host) host2net = h"
  by (simp_all add: byteswap_header_def)

lemma length_setup_header_of_bytes [simp]:
  "length bs = sizeof_header \<Longrightarrow> length (setup_pkt (header_of_bytes bs)) = 8"
  by (simp add: header_of_bytes_def sizeof_header_def)

lemma length_op_common_bytes [simp]: "length (op_common_bytes c) = 8"
  by (simp add: op_common_bytes_def)

definition wf_usb_device :: "usbip_usb_device \<Rightarrow> bool" where
  "wf_usb_device d \<longleftrightarrow> length (ud_path d) = DEV_PATH_MAX \<and> length (ud_busid d) = BUS_ID_SIZE"

interpretation header_codec: wire_codec header_bytes header_of_bytes
  "\<lambda>h. byteswap_header h host2net" "\<lambda>h. byteswap_header h net2host"
  "\<lambda>h. length (setup_pkt h) = 8" sizeof_header
  by unfold_locales
    (auto simp: header_of_header_bytes length_header_bytes header_bytes_header_of_bytes)

interpretation op_common_codec: wire_codec op_common_bytes op_common_of_bytes
  byteswap_op_common byteswap_op_common "\<lambda>_. True" 8
  by unfold_locales
    (auto simp: op_common_of_op_common_bytes op_common_bytes_of_bytes)

interpretation usb_device_codec: wire_codec usb_device_bytes usb_device_of_bytes
  byteswap_usb_device byteswap_usb_device wf_usb_device sizeof_usbip_usb_device
proof unfold_locales
  fix d :: usbip_usb_device
  assume d: "wf_usb_device d"
  then show "usb_device_of_bytes (usb_device_bytes d) = d"
    by (simp add: usb_device_of_usb_device_bytes wf_usb_device_def)
  show "length (usb_device_bytes d) = sizeof_usbip_usb_device"
    using d by (simp add: usb_device_bytes_def wf_usb_device_def DEV_PATH_MAX_def BUS_ID_SIZE_def
        sizeof_usbip_usb_device_def)
  show "wf_usb_device (byteswap_usb_device d)"
    using d by (simp add: wf_usb_device_def byteswap_usb_device_def)
qed (simp_all add: usb_device_bytes_of_bytes, simp add: wf_usb_device_def usb_device_of_bytes_def
    DEV_PATH_MAX_def BUS_ID_SIZE_def sizeof_usbip_usb_device_def)

interpretation devlist_codec: wire_codec le32 of_le32
  byteswap_op_devlist_reply byteswap_op_devlist_reply "\<lambda>_. True" 4
  by unfold_locales (simp_all add: le32_of_le32 byteswap_op_devlist_reply_def)

lemma payload_size_eq:
  assumes "t = CMD_SUBMIT \<or> t = RET_SUBMIT"
    and "command h = request_type_code t"
    and "0 \<le> actual_length h"
    and "ret_number_of_packets h = number_of_packets_non_isoch \<or>
         is_valid_number_of_packets (ret_number_of_packets h)"
  shows "unat (get_payload_size h) =
    (if (direction h = direction_out) = (t = CMD_SUBMIT) then nat (actual_length h) else 0) +
    sizeof_iso_packet_descriptor * isoc_count (ret_number_of_packets h)"
proof -
  let ?len = "if (direction h = direction_out) = (t = CMD_SUBMIT) then nat (actual_length h) else 0"
  let ?cnt = "isoc_count (ret_number_of_packets h)"
  have "?cnt \<le> 1024"
    using assms(4) by (auto simp: isoc_count_def is_valid_number_of_packets_def max_iso_packets_def)
  moreover have "?len < 2 ^ 31"
    using sint_u32_less [of "un1 h"] assms(3) by auto
  ultimately have bound: "?len + sizeof_iso_packet_descriptor * ?cnt < 2 ^ 64"
    by (simp add: sizeof_iso_packet_descriptor_def)
  have "get_payload_size h = of_nat (?len + sizeof_iso_packet_descriptor * ?cnt)"
    using assms(1-3) isoc_count_word [OF assms(4)]
    by (auto simp: get_payload_size_def get_total_size_def get_isoc_descr_def Let_def
        to_request_type_def sizeof_header_def sizeof_iso_packet_descriptor_def)
  then show ?thesis
    using unat_of_nat_u64 [OF bound] by simp
qed

section \<open>Properties\<close>



text \<open>On the wire a submit command or reply is its ten 32-bit fields in big-endian order
  followed by the setup bytes as they are.\<close>

lemma submit_wire_image:
  assumes "command h = request_type_code CMD_SUBMIT \<or> command h = request_type_code RET_SUBMIT"
  shows "header_bytes (byteswap_header h host2net) =
    concat (map (\<lambda>w. rev (le32 w))
      [command h, seqnum h, devid h, direction h, ep h, un0 h, un1 h, un2 h, un3 h, un4 h]) @ setup_pkt h"
  using assms
  by (auto simp: byteswap_header_def bswap_union_def to_request_type_def bswap_member_defs
      bswap_basic_def header_bytes_def le32_bswap32)

text \<open>For a submit header whose length is not negative and whose packet count is either the
  non-isochronous marker or in range, the payload size computed in 64-bit wrap-around arithmetic
  is the mathematical one: the data of the transfer direction plus 16 bytes for each packet.\<close>

lemma payload_size_valid:
  assumes "t = CMD_SUBMIT \<or> t = RET_SUBMIT"
    and "command h = request_type_code t"
    and "0 \<le> actual_length h"
    and "ret_number_of_packets h = number_of_packets_non_isoch \<or>
         is_valid_number_of_packets (ret_number_of_packets h)"
  shows "unat (get_payload_size h) =
    (if (direction h = direction_out) = (t = CMD_SUBMIT) then nat (actual_length h) else 0) +
    sizeof_iso_packet_descriptor * isoc_count (ret_number_of_packets h)"
  using assms by (rule payload_size_eq)

end
