(* ===== verification/Filter_Policy.thy ===== *)
theory Filter_Policy
  imports Protocol
begin

text \<open>
  The device-type filter policy: the types of \<open>include/usbip/vhci.h\<close> and
  \<open>drivers/ude/device_filter.h\<close>, the sanitizers of \<open>drivers/ude/device_filter_policy.h\<close>,
  \<open>is_allowed\<close>, \<open>load\<close> and \<open>store\<close> of \<open>drivers/ude/device_filter.cpp\<close>, and the IOCTL handlers
  \<open>set_device_filter\<close> and \<open>get_device_filter\<close> of \<open>drivers/ude/vhci_ioctl.cpp\<close>.

  The registry is the Windows kernel's, so it is a parameter: a record of the calls \<open>open\<close>,
  \<open>WdfRegistryQueryValue\<close> and \<open>WdfRegistryAssignValue\<close> over an arbitrary state. A policy read from
  the registry lands in an uninitialised local, so the memory of that local is an argument of
  \<open>load\<close>. The struct keeps its three padding bytes: they reach the registry.
\<close>

section \<open>Types\<close>

type_synonym filter_mode = u8

abbreviation (input) disabled :: filter_mode where "disabled \<equiv> 0"
abbreviation (input) whitelist :: filter_mode where "whitelist \<equiv> 1"

definition FILTER_MATCH_CLASS :: u8 where "FILTER_MATCH_CLASS = 1"
definition FILTER_MATCH_SUBCLASS :: u8 where "FILTER_MATCH_SUBCLASS = 2"
definition FILTER_MATCH_PROTOCOL :: u8 where "FILTER_MATCH_PROTOCOL = 4"

definition MAX_DEVICE_FILTER_ENTRIES :: nat where "MAX_DEVICE_FILTER_ENTRIES = 64"

record device_filter_entry =
  bClass :: u8
  bSubClass :: u8
  bProtocol :: u8
  match_flags :: u8

definition entry_bytes :: "device_filter_entry \<Rightarrow> bytes" where
  "entry_bytes e = [bClass e, bSubClass e, bProtocol e, match_flags e]"

definition entry_of_bytes :: "bytes \<Rightarrow> device_filter_entry" where
  "entry_of_bytes bs =
     \<lparr>bClass = bs ! 0, bSubClass = bs ! 1, bProtocol = bs ! 2, match_flags = bs ! 3\<rparr>"

definition zero_entry :: device_filter_entry where
  "zero_entry = \<lparr>bClass = 0, bSubClass = 0, bProtocol = 0, match_flags = 0\<rparr>"

definition entries_bytes :: "device_filter_entry list \<Rightarrow> bytes" where
  "entries_bytes es = concat (map entry_bytes es)"

primrec entries_of_bytes :: "nat \<Rightarrow> bytes \<Rightarrow> device_filter_entry list" where
  "entries_of_bytes 0 bs = []"
| "entries_of_bytes (Suc n) bs = entry_of_bytes (take 4 bs) # entries_of_bytes n (drop 4 bs)"

record policy =
  mode :: filter_mode
  pol_pad :: bytes
  pol_count :: u32
  entries :: "device_filter_entry list"

definition policy_bytes :: "policy \<Rightarrow> bytes" where
  "policy_bytes p = mode p # pol_pad p @ le32 (pol_count p) @ entries_bytes (entries p)"

definition policy_of_bytes :: "bytes \<Rightarrow> policy" where
  "policy_of_bytes bs = \<lparr>mode = bs ! 0, pol_pad = slice 1 3 bs, pol_count = of_le32 (slice 4 4 bs),
     entries = entries_of_bytes MAX_DEVICE_FILTER_ENTRIES (drop 8 bs)\<rparr>"

definition zero_policy :: policy where
  "zero_policy = \<lparr>mode = 0, pol_pad = replicate 3 0, pol_count = 0,
     entries = replicate MAX_DEVICE_FILTER_ENTRIES zero_entry\<rparr>"

definition wf_policy :: "policy \<Rightarrow> bool" where
  "wf_policy p \<longleftrightarrow> length (pol_pad p) = 3 \<and> length (entries p) = MAX_DEVICE_FILTER_ENTRIES"

text \<open>The policies the filter works with: a known mode and a count inside the array.\<close>

definition sane_policy :: "policy \<Rightarrow> bool" where
  "sane_policy p \<longleftrightarrow> wf_policy p \<and> mode p \<in> {disabled, whitelist} \<and>
     unat (pol_count p) \<le> MAX_DEVICE_FILTER_ENTRIES"

section \<open>Sanitizing\<close>

datatype policy_value_status = policy_ok | bad_type_or_size

definition policy_entry_capacity :: nat where
  "policy_entry_capacity = 256 div 4"

definition policy_entries_offset :: nat where
  "policy_entries_offset = 8"

definition sizeof_policy :: nat where
  "sizeof_policy = policy_entries_offset + 4 * MAX_DEVICE_FILTER_ENTRIES"

definition make_fail_closed_policy :: "filter_mode \<Rightarrow> policy" where
  "make_fail_closed_policy whitelist_mode =
     zero_policy\<lparr>mode := whitelist_mode, pol_count := 0\<rparr>"

primrec copy_entries ::
  "device_filter_entry list \<Rightarrow> device_filter_entry list \<Rightarrow> nat \<Rightarrow> device_filter_entry list" where
  "copy_entries out raw 0 = out"
| "copy_entries out raw (Suc i) = (copy_entries out raw i)[i := raw ! i]"

definition sanitize_loaded_policy ::
  "policy \<Rightarrow> nat \<Rightarrow> u32 \<Rightarrow> u32 \<Rightarrow> filter_mode \<Rightarrow> filter_mode \<Rightarrow> policy_value_status \<times> policy" where
  "sanitize_loaded_policy raw actual_bytes value_type binary_type disabled_mode whitelist_mode =
     (let out = make_fail_closed_policy whitelist_mode in
      if value_type \<noteq> binary_type \<or> actual_bytes < policy_entries_offset then (bad_type_or_size, out)
      else
        let max_by_len = (actual_bytes - policy_entries_offset) div 4;
            cnt = unat (pol_count raw);
            cnt = (if cnt > max_by_len then max_by_len else cnt);
            capacity = policy_entry_capacity;
            cnt = (if cnt > capacity then capacity else cnt)
        in (policy_ok,
            out\<lparr>mode := (if mode raw = disabled_mode then disabled_mode else whitelist_mode),
                pol_count := of_nat cnt,
                entries := copy_entries (entries out) (entries raw) cnt\<rparr>))"

definition sanitize_policy_for_store :: "policy \<Rightarrow> filter_mode \<Rightarrow> filter_mode \<Rightarrow> policy" where
  "sanitize_policy_for_store inp disabled_mode whitelist_mode =
     (let capacity = policy_entry_capacity;
          out = (if unat (pol_count inp) > capacity then inp\<lparr>pol_count := of_nat capacity\<rparr> else inp)
      in if mode out \<noteq> disabled_mode then out\<lparr>mode := whitelist_mode\<rparr> else out)"

definition serialized_policy_size :: "nat \<Rightarrow> nat" where
  "serialized_policy_size cnt = policy_entries_offset + cnt * 4"

section \<open>Matching\<close>

definition entry_matches :: "device_filter_entry \<Rightarrow> u8 \<Rightarrow> u8 \<Rightarrow> u8 \<Rightarrow> bool" where
  "entry_matches e cls sub proto \<longleftrightarrow>
     \<not> (match_flags e AND FILTER_MATCH_CLASS \<noteq> 0 \<and> bClass e \<noteq> cls) \<and>
     \<not> (match_flags e AND FILTER_MATCH_SUBCLASS \<noteq> 0 \<and> bSubClass e \<noteq> sub) \<and>
     \<not> (match_flags e AND FILTER_MATCH_PROTOCOL \<noteq> 0 \<and> bProtocol e \<noteq> proto)"

fun is_allowed_loop :: "device_filter_entry list \<Rightarrow> u8 \<Rightarrow> u8 \<Rightarrow> u8 \<Rightarrow> bool" where
  "is_allowed_loop [] cls sub proto = False"
| "is_allowed_loop (e # es) cls sub proto =
     (if entry_matches e cls sub proto then True else is_allowed_loop es cls sub proto)"

definition is_allowed :: "policy \<Rightarrow> u8 \<Rightarrow> u8 \<Rightarrow> u8 \<Rightarrow> bool" where
  "is_allowed p cls sub proto =
     (if mode p = disabled then True
      else is_allowed_loop (take (unat (pol_count p)) (entries p)) cls sub proto)"

section \<open>The registry\<close>

definition REG_NONE :: u32 where "REG_NONE = 0"
definition REG_BINARY :: u32 where "REG_BINARY = 3"

text \<open>\<open>reg_open r write\<close> is the status of opening the Parameters key; \<open>reg_query r buf\<close> gives the
  status, the caller's buffer afterwards, the value length and its type.\<close>

record 'r registry_api =
  reg_open :: "'r \<Rightarrow> bool \<Rightarrow> ntstatus"
  reg_query :: "'r \<Rightarrow> bytes \<Rightarrow> ntstatus \<times> bytes \<times> u32 \<times> u32"
  reg_assign :: "'r \<Rightarrow> u32 \<Rightarrow> bytes \<Rightarrow> ntstatus \<times> 'r"

definition load :: "'r registry_api \<Rightarrow> 'r \<Rightarrow> bytes \<Rightarrow> policy" where
  "load api r tmp =
     (let p = make_fail_closed_policy whitelist in
      if reg_open api r False \<noteq> STATUS_SUCCESS then p
      else case reg_query api r tmp of
        (st, tmp', actual, type) \<Rightarrow>
          if st \<noteq> STATUS_SUCCESS then p
          else snd (sanitize_loaded_policy (policy_of_bytes tmp') (unat actual) type REG_BINARY
                 disabled whitelist))"

definition store :: "'r registry_api \<Rightarrow> 'r \<Rightarrow> policy \<Rightarrow> ntstatus \<times> 'r" where
  "store api r p =
     (let tmp = sanitize_policy_for_store p disabled whitelist;
          err = reg_open api r True
      in if err \<noteq> STATUS_SUCCESS then (err, r)
         else let len = serialized_policy_size (unat (pol_count tmp))
              in reg_assign api r REG_BINARY (take len (policy_bytes tmp)))"

section \<open>The IOCTL handlers\<close>

definition sizeof_device_filter :: nat where "sizeof_device_filter = 16"
definition offset_entries :: nat where "offset_entries = 12"

definition device_filter_size :: "nat \<Rightarrow> nat" where
  "device_filter_size n = offset_entries + n * 4"

text \<open>The first argument of each handler after the registry is what
  \<open>WdfRequestRetrieveInputBuffer\<close> or \<open>WdfRequestRetrieveOutputBuffer\<close> returned: an error or the
  buffer of the request.\<close>

definition set_device_filter ::
  "'r registry_api \<Rightarrow> 'r \<Rightarrow> ntstatus + bytes \<Rightarrow> ntstatus \<times> 'r" where
  "set_device_filter api r buf =
     (case buf of
        Inl err \<Rightarrow> (err, r)
      | Inr b \<Rightarrow>
          let size = of_le32 (slice 0 4 b);
              cnt = of_le32 (slice 8 4 b);
              avail = (length b - offset_entries) div 4
          in if unat size \<noteq> sizeof_device_filter then (USBIP_ERROR_ABI, r)
             else if unat cnt > avail then (STATUS_INVALID_BUFFER_SIZE, r)
             else if unat cnt > MAX_DEVICE_FILTER_ENTRIES then (STATUS_INVALID_PARAMETER, r)
             else let p = zero_policy\<lparr>mode := b ! 4, pol_count := cnt,
                        entries := overwrite (entries zero_policy) 0
                          (entries_of_bytes (unat cnt) (drop offset_entries b))\<rparr>
                  in store api r p)"

definition get_device_filter ::
  "'r registry_api \<Rightarrow> 'r \<Rightarrow> bytes \<Rightarrow> ntstatus + bytes \<Rightarrow> ntstatus \<times> bytes \<times> nat" where
  "get_device_filter api r tmp buf =
     (case buf of
        Inl err \<Rightarrow> (err, [], 0)
      | Inr b \<Rightarrow>
          if unat (of_le32 (slice 0 4 b)) \<noteq> sizeof_device_filter then (USBIP_ERROR_ABI, b, 0)
          else
            let p = load api r tmp;
                avail = (length b - offset_entries) div 4
            in if unat (pol_count p) > avail then (STATUS_BUFFER_TOO_SMALL, b, 0)
               else
                 let b = b[4 := mode p];
                     b = overwrite b 5 (replicate 3 0);
                     b = overwrite b 8 (le32 (pol_count p));
                     b = overwrite b offset_entries
                           (entries_bytes (take (unat (pol_count p)) (entries p)));
                     written = device_filter_size (unat (pol_count p))
                 in (STATUS_SUCCESS, b, written))"

section \<open>Lemmas on memory images\<close>

lemma length_entry_bytes [simp]: "length (entry_bytes e) = 4"
  by (simp add: entry_bytes_def)

lemma length_entries_bytes [simp]: "length (entries_bytes es) = 4 * length es"
  by (induction es) (simp_all add: entries_bytes_def)

lemma entries_bytes_simps [simp]:
  "entries_bytes [] = []" "entries_bytes (e # es) = entry_bytes e @ entries_bytes es"
  by (simp_all add: entries_bytes_def)

lemma entry_of_entry_bytes [simp]: "entry_of_bytes (entry_bytes e) = e"
  by (simp add: entry_of_bytes_def entry_bytes_def)

lemma entry_bytes_of_bytes [simp]: "length bs = 4 \<Longrightarrow> entry_bytes (entry_of_bytes bs) = bs"
  by (cases bs rule: of_le32.cases) (auto simp: entry_of_bytes_def entry_bytes_def)

lemma length_entries_of_bytes [simp]: "length (entries_of_bytes n bs) = n"
  by (induction n arbitrary: bs) simp_all

lemma entries_of_entries_bytes:
  "n = length es \<Longrightarrow> entries_of_bytes n (entries_bytes es @ rest) = es"
  by (induction es arbitrary: n) auto

lemma entries_bytes_of_bytes:
  "4 * n \<le> length bs \<Longrightarrow> entries_bytes (entries_of_bytes n bs) = take (4 * n) bs"
  by (induction n arbitrary: bs) (simp_all flip: take_add)

lemma take_entries_of_bytes: "m \<le> n \<Longrightarrow> take m (entries_of_bytes n bs) = entries_of_bytes m bs"
proof (induction n arbitrary: m bs)
  case (Suc n)
  then show ?case by (cases m) simp_all
qed simp

lemma entries_of_bytes_cong:
  "take (4 * n) bs = take (4 * n) cs \<Longrightarrow> entries_of_bytes n bs = entries_of_bytes n cs"
proof (induction n arbitrary: bs cs)
  case (Suc n)
  have four: "4 \<le> 4 * Suc n" "4 * Suc n - 4 = 4 * n" by simp_all
  have "take 4 (take (4 * Suc n) bs) = take 4 (take (4 * Suc n) cs)"
    by (rule arg_cong [OF Suc.prems])
  then have "take 4 bs = take 4 cs" by (simp only: take_take min.absorb1 [OF four(1)])
  moreover have "drop 4 (take (4 * Suc n) bs) = drop 4 (take (4 * Suc n) cs)"
    by (rule arg_cong [OF Suc.prems])
  then have "take (4 * n) (drop 4 bs) = take (4 * n) (drop 4 cs)"
    by (simp only: drop_take four(2))
  then have "entries_of_bytes n (drop 4 bs) = entries_of_bytes n (drop 4 cs)"
    by (rule Suc.IH)
  ultimately show ?case by (simp only: entries_of_bytes.simps)
qed simp

lemma take_entries_bytes: "take (4 * n) (entries_bytes es) = entries_bytes (take n es)"
proof (induction es arbitrary: n)
  case (Cons e es)
  then show ?case by (cases n) simp_all
qed simp

lemma length_policy_bytes: "wf_policy p \<Longrightarrow> length (policy_bytes p) = sizeof_policy"
  by (simp add: policy_bytes_def wf_policy_def sizeof_policy_def policy_entries_offset_def)

lemma policy_of_policy_bytes:
  assumes "wf_policy p"
  shows "policy_of_bytes (policy_bytes p) = p"
proof -
  have "policy_bytes p = [mode p] @ pol_pad p @ le32 (pol_count p) @ entries_bytes (entries p)"
    by (simp add: policy_bytes_def)
  then show ?thesis
    using assms entries_of_entries_bytes [of _ "entries p" "[]"]
    by (simp add: policy_of_bytes_def wf_policy_def slice_append_left slice_append_right)
qed

lemma wf_policy_of_bytes: "length bs = sizeof_policy \<Longrightarrow> wf_policy (policy_of_bytes bs)"
  by (simp add: wf_policy_def policy_of_bytes_def sizeof_policy_def policy_entries_offset_def
      MAX_DEVICE_FILTER_ENTRIES_def)

lemma policy_bytes_of_bytes:
  assumes "length bs = sizeof_policy"
  shows "policy_bytes (policy_of_bytes bs) = bs"
proof -
  have len: "length bs = 264"
    using assms by (simp add: sizeof_policy_def policy_entries_offset_def MAX_DEVICE_FILTER_ENTRIES_def)
  have "entries_bytes (entries_of_bytes MAX_DEVICE_FILTER_ENTRIES (drop 8 bs)) = slice 8 256 bs"
    using len by (simp add: entries_bytes_of_bytes MAX_DEVICE_FILTER_ENTRIES_def slice_def)
  moreover have "[bs ! 0] = slice 0 1 bs" using len by (intro slice_one) simp
  ultimately have "policy_bytes (policy_of_bytes bs) =
      slice 0 1 bs @ slice 1 3 bs @ slice 4 4 bs @ slice 8 256 bs"
    using len by (simp add: policy_bytes_def policy_of_bytes_def)
  also have "\<dots> = bs" using len by (simp add: slice_join slice_join_assoc)
  finally show ?thesis .
qed

interpretation policy_codec: wire_codec policy_bytes policy_of_bytes
  "\<lambda>p. p" "\<lambda>p. p" wf_policy sizeof_policy
  by unfold_locales
    (auto simp: policy_of_policy_bytes length_policy_bytes policy_bytes_of_bytes wf_policy_of_bytes)

section \<open>Lemmas on the sanitizers\<close>

lemma length_copy_entries [simp]: "length (copy_entries out raw n) = length out"
  by (induction n) simp_all

lemma copy_entries_eq:
  "n \<le> length raw \<Longrightarrow> n \<le> length out \<Longrightarrow> copy_entries out raw n = take n raw @ drop n out"
proof (induction n)
  case (Suc n)
  then have "copy_entries out raw (Suc n) = (take n raw @ drop n out)[n := raw ! n]" by simp
  also have "\<dots> = take n raw @ raw ! n # drop (Suc n) out"
    using Suc.prems by (simp add: list_update_append flip: Cons_nth_drop_Suc)
  finally show ?case using Suc.prems by (simp add: take_Suc_conv_app_nth)
qed simp

lemmas policy_size_defs = policy_entry_capacity_def policy_entries_offset_def sizeof_policy_def
  MAX_DEVICE_FILTER_ENTRIES_def serialized_policy_size_def

lemma unat_of_nat_u32: "n < 2 ^ 32 \<Longrightarrow> unat (of_nat n :: u32) = n"
  by (simp add: unat_of_nat take_bit_nat_eq_self)

lemma sane_fail_closed: "sane_policy (make_fail_closed_policy whitelist)"
  by (simp add: sane_policy_def wf_policy_def make_fail_closed_policy_def zero_policy_def)

lemma fail_closed_denies: "\<not> is_allowed (make_fail_closed_policy whitelist) cls sub proto"
  by (simp add: is_allowed_def make_fail_closed_policy_def)

text \<open>The count that survives sanitizing.\<close>

definition loaded_count :: "u32 \<Rightarrow> nat \<Rightarrow> nat" where
  "loaded_count c n = min (unat c) (min ((n - policy_entries_offset) div 4) policy_entry_capacity)"

lemma loaded_count_le: "loaded_count c n \<le> 64"
  by (simp add: loaded_count_def policy_entry_capacity_def)

lemma sanitize_loaded_policy_ok:
  assumes "policy_entries_offset \<le> n"
  shows "sanitize_loaded_policy raw n t t disabled whitelist =
    (policy_ok, \<lparr>mode = (if mode raw = disabled then disabled else whitelist),
       pol_pad = replicate 3 0, pol_count = of_nat (loaded_count (pol_count raw) n),
       entries = copy_entries (replicate MAX_DEVICE_FILTER_ENTRIES zero_entry) (entries raw)
         (loaded_count (pol_count raw) n)\<rparr>)"
  using assms by (auto simp: sanitize_loaded_policy_def Let_def make_fail_closed_policy_def
      zero_policy_def loaded_count_def policy_entry_capacity_def min_def)

lemma sane_sanitize_loaded: "sane_policy (snd (sanitize_loaded_policy raw n t t' disabled whitelist))"
proof (cases "t = t' \<and> policy_entries_offset \<le> n")
  case True
  then show ?thesis
    using loaded_count_le [of "pol_count raw" n]
    by (auto simp: sanitize_loaded_policy_ok sane_policy_def wf_policy_def unat_of_nat_u32
        MAX_DEVICE_FILTER_ENTRIES_def)
next
  case False
  then have "snd (sanitize_loaded_policy raw n t t' disabled whitelist) =
      make_fail_closed_policy whitelist"
    by (auto simp: sanitize_loaded_policy_def)
  then show ?thesis by (simp add: sane_fail_closed)
qed

lemma load_sane: "sane_policy (load api r tmp)"
  by (auto simp: load_def Let_def sane_fail_closed sane_sanitize_loaded split: prod.splits)

lemma sane_sanitize_for_store:
  "wf_policy p \<Longrightarrow> sane_policy (sanitize_policy_for_store p disabled whitelist)"
  by (auto simp: sanitize_policy_for_store_def sane_policy_def wf_policy_def Let_def
      policy_entry_capacity_def MAX_DEVICE_FILTER_ENTRIES_def)

section \<open>Storing and loading\<close>

text \<open>
  What the code relies on of \<open>WdfRegistryAssignValue\<close> and \<open>WdfRegistryQueryValue\<close>: a value that was
  assigned is returned by a query with a large enough buffer, with its length and type, and the
  rest of the buffer is not touched.
\<close>

definition registry_law :: "'r registry_api \<Rightarrow> bool" where
  "registry_law api \<longleftrightarrow>
     (\<forall>r data r' buf. reg_assign api r REG_BINARY data = (STATUS_SUCCESS, r') \<longrightarrow>
        length data \<le> length buf \<longrightarrow>
        reg_query api r' buf = (STATUS_SUCCESS, overwrite buf 0 data, of_nat (length data), REG_BINARY))"

text \<open>The policy that a stored policy stands for: mode and count normalised, the active entries
  kept and the rest of the array zero.\<close>

definition normalized :: "policy \<Rightarrow> policy" where
  "normalized p =
     (let q = sanitize_policy_for_store p disabled whitelist; n = unat (pol_count q)
      in \<lparr>mode = mode q, pol_pad = replicate 3 0, pol_count = pol_count q,
          entries = take n (entries q) @ replicate (MAX_DEVICE_FILTER_ENTRIES - n) zero_entry\<rparr>)"

lemma policy_of_stored_bytes:
  assumes "sane_policy q" "length tmp = sizeof_policy" "n = unat (pol_count q)"
    and "raw = policy_of_bytes (overwrite tmp 0 (take (serialized_policy_size n) (policy_bytes q)))"
  shows "mode raw = mode q" "pol_count raw = pol_count q"
    "take n (entries raw) = take n (entries q)" "length (entries raw) = MAX_DEVICE_FILTER_ENTRIES"
proof -
  have n: "n \<le> 64" and pad: "length (pol_pad q) = 3" and len: "length (entries q) = 64"
    using assms(1,3) by (simp_all add: sane_policy_def wf_policy_def MAX_DEVICE_FILTER_ENTRIES_def)
  have data: "take (serialized_policy_size n) (policy_bytes q) =
      [mode q] @ pol_pad q @ le32 (pol_count q) @ entries_bytes (take n (entries q))"
    using n pad by (simp add: serialized_policy_size_def policy_entries_offset_def policy_bytes_def
        take_Cons' take_entries_bytes mult.commute [of n 4])
  have "overwrite tmp 0 (take (serialized_policy_size n) (policy_bytes q)) =
      ([mode q] @ pol_pad q @ le32 (pol_count q) @ entries_bytes (take n (entries q))) @
      drop (8 + 4 * n) tmp" (is "_ = ?mem")
    using n pad len by (simp only: overwrite_def data) simp
  then have raw: "raw = policy_of_bytes ?mem" using assms(4) by simp
  show "mode raw = mode q" "pol_count raw = pol_count q"
    using pad by (simp_all add: raw policy_of_bytes_def slice_append_left slice_append_right)
  show "length (entries raw) = MAX_DEVICE_FILTER_ENTRIES"
    by (simp add: raw policy_of_bytes_def)
  have "take n (entries raw) = entries_of_bytes n (drop 8 ?mem)"
    using n by (simp add: raw policy_of_bytes_def take_entries_of_bytes MAX_DEVICE_FILTER_ENTRIES_def)
  also have "drop 8 ?mem = entries_bytes (take n (entries q)) @ drop (8 + 4 * n) tmp"
    using pad by (simp add: drop_Cons')
  finally show "take n (entries raw) = take n (entries q)"
    using n len by (simp add: entries_of_entries_bytes)
qed

lemma store_load_normalized:
  assumes law: "registry_law api" and wf: "wf_policy p"
    and st: "store api r p = (STATUS_SUCCESS, r')"
    and op: "reg_open api r' False = STATUS_SUCCESS" and tmp: "length tmp = sizeof_policy"
  shows "load api r' tmp = normalized p"
proof -
  define q where "q = sanitize_policy_for_store p disabled whitelist"
  define n where "n = unat (pol_count q)"
  define data where "data = take (serialized_policy_size n) (policy_bytes q)"
  have q: "sane_policy q" using wf by (simp add: q_def sane_sanitize_for_store)
  then have n: "n \<le> 64" and qwf: "wf_policy q"
    by (simp_all add: sane_policy_def n_def MAX_DEVICE_FILTER_ENTRIES_def)
  have len: "length data = 8 + 4 * n"
    using n by (simp add: data_def length_policy_bytes [OF qwf] policy_size_defs)
  have "reg_assign api r REG_BINARY data = (STATUS_SUCCESS, r')"
    using st by (auto simp: store_def Let_def q_def n_def data_def split: if_splits)
  then have query: "reg_query api r' tmp =
      (STATUS_SUCCESS, overwrite tmp 0 data, of_nat (8 + 4 * n), REG_BINARY)"
    using law len tmp n by (simp add: registry_law_def policy_size_defs)
  define raw where "raw = policy_of_bytes (overwrite tmp 0 data)"
  note raw = policy_of_stored_bytes [OF q tmp n_def raw_def [unfolded data_def]]
  have size: "unat (of_nat (8 + 4 * n) :: u32) = 8 + 4 * n"
    using n by (intro unat_of_nat_u32) simp
  have cnt: "loaded_count (pol_count q) (8 + 4 * unat (pol_count q)) = unat (pol_count q)"
    using n by (simp add: loaded_count_def policy_size_defs n_def)
  have "mode q = disabled \<or> mode q = whitelist" using q by (simp add: sane_policy_def)
  moreover have "load api r' tmp =
      snd (sanitize_loaded_policy raw (8 + 4 * n) REG_BINARY REG_BINARY disabled whitelist)"
    by (simp only: load_def Let_def op query prod.case size raw_def) simp
  ultimately show ?thesis
    using n raw
    by (auto simp: sanitize_loaded_policy_ok policy_entries_offset_def cnt copy_entries_eq
        MAX_DEVICE_FILTER_ENTRIES_def normalized_def Let_def n_def simp flip: q_def)
qed

lemma is_allowed_normalized:
  assumes "wf_policy p"
  shows "is_allowed (normalized p) cls sub proto = is_allowed p cls sub proto"
  using assms
  by (auto simp: is_allowed_def normalized_def sanitize_policy_for_store_def Let_def wf_policy_def
      policy_size_defs)

section \<open>The handlers\<close>

lemma Bex_set_nth: "n \<le> length xs \<Longrightarrow> (\<exists>x \<in> set (take n xs). P x) \<longleftrightarrow> (\<exists>i < n. P (xs ! i))"
  by (fastforce simp: in_set_conv_nth Bex_def)

lemma reply_image:
  assumes "12 + length es \<le> length c"
  shows "overwrite (overwrite (overwrite (c[4 := m]) 5 [0, 0, 0]) 8 (le32 k)) 12 es =
    take 4 c @ [m, 0, 0, 0] @ le32 k @ es @ drop (12 + length es) c"
  using assms
  by (simp add: overwrite_def upd_conv_take_nth_drop drop_Cons' take_Cons' min_def add.commute)

lemma set_device_filter_success:
  assumes "set_device_filter api r (Inr b) = (STATUS_SUCCESS, r')" "n = unat (of_le32 (slice 8 4 b))"
  shows "slice 0 4 b = le32 16 \<or> length b < 4" "n \<le> 64" "4 * n \<le> length b - 12"
    "store api r (zero_policy\<lparr>mode := b ! 4, pol_count := of_nat n,
       entries := overwrite (entries zero_policy) 0 (entries_of_bytes n (drop 12 b))\<rparr>) = (STATUS_SUCCESS, r')"
proof -
  from assms(1) have size: "unat (of_le32 (slice 0 4 b)) = 16"
    and count: "n \<le> 64" "n \<le> (length b - 12) div 4"
    and stored: "store api r (zero_policy\<lparr>mode := b ! 4, pol_count := of_le32 (slice 8 4 b),
       entries := overwrite (entries zero_policy) 0 (entries_of_bytes n (drop 12 b))\<rparr>) = (STATUS_SUCCESS, r')"
    by (auto simp: set_device_filter_def Let_def sizeof_device_filter_def offset_entries_def
        MAX_DEVICE_FILTER_ENTRIES_def assms(2) split: if_splits)
  have "of_le32 (slice 0 4 b) = 16"
    using size by (simp add: word_eq_iff_unsigned [where 'a = nat])
  then show "slice 0 4 b = le32 16 \<or> length b < 4"
    by (metis bytes_of_fields(1) add_0 leI)
  show "n \<le> 64" "4 * n \<le> length b - 12" using count by simp_all
  show "store api r (zero_policy\<lparr>mode := b ! 4, pol_count := of_nat n,
       entries := overwrite (entries zero_policy) 0 (entries_of_bytes n (drop 12 b))\<rparr>) = (STATUS_SUCCESS, r')"
    using stored by (simp add: assms(2))
qed

text \<open>The policy that \<open>set_device_filter\<close> passes to \<open>store\<close>, after a load.\<close>

lemma normalized_of_request:
  assumes "n \<le> 64"
    and "p = zero_policy\<lparr>mode := m, pol_count := of_nat n,
      entries := overwrite (entries zero_policy) 0 (entries_of_bytes n bs)\<rparr>"
  shows "wf_policy p" "mode (normalized p) = (if m = disabled then disabled else whitelist)"
    "unat (pol_count (normalized p)) = n" "pol_count (normalized p) = of_nat n"
    "take n (entries (normalized p)) = entries_of_bytes n bs"
  using assms
  by (auto simp: wf_policy_def zero_policy_def normalized_def sanitize_policy_for_store_def Let_def
      policy_size_defs unat_of_nat_u32 overwrite_def)

section \<open>Properties\<close>

text \<open>C15. A class tuple passes the filter exactly when the filter is disabled or one of the
  entries in use agrees with it on every field that the entry flags as significant.\<close>

theorem is_allowed_iff:
  assumes "unat (pol_count p) \<le> length (entries p)"
  shows "is_allowed p cls sub proto \<longleftrightarrow>
    mode p = disabled \<or>
    (\<exists>i < unat (pol_count p). let e = entries p ! i in
       (bit (match_flags e) 0 \<longrightarrow> bClass e = cls) \<and>
       (bit (match_flags e) 1 \<longrightarrow> bSubClass e = sub) \<and>
       (bit (match_flags e) 2 \<longrightarrow> bProtocol e = proto))"
proof -
  have flag: "w AND 1 \<noteq> 0 \<longleftrightarrow> bit w 0" "w AND 2 \<noteq> 0 \<longleftrightarrow> bit w 1" "w AND 4 \<noteq> 0 \<longleftrightarrow> bit w 2"
    for w :: u8
    using and_exp_eq_0_iff_not_bit [of w 0] and_exp_eq_0_iff_not_bit [of w 1]
      and_exp_eq_0_iff_not_bit [of w 2] by simp_all
  have "is_allowed_loop es cls sub proto \<longleftrightarrow> (\<exists>e \<in> set es. entry_matches e cls sub proto)" for es
    by (induction es) auto
  then have "is_allowed p cls sub proto \<longleftrightarrow> mode p = disabled \<or>
      (\<exists>i < unat (pol_count p). entry_matches (entries p ! i) cls sub proto)"
    using assms by (simp add: is_allowed_def Bex_set_nth)
  then show ?thesis
    by (simp only: entry_matches_def FILTER_MATCH_CLASS_def FILTER_MATCH_SUBCLASS_def
        FILTER_MATCH_PROTOCOL_def flag Let_def) blast
qed

theorem is_allowed_iff_witness:
  "is_allowed (zero_policy\<lparr>mode := 1, pol_count := 1, entries := [\<lparr>bClass = 3, bSubClass = 0,
     bProtocol = 0, match_flags = 1\<rparr>]\<rparr>) 3 1 2"
  using is_allowed_iff [of "zero_policy\<lparr>mode := 1, pol_count := 1, entries := [\<lparr>bClass = 3,
     bSubClass = 0, bProtocol = 0, match_flags = 1\<rparr>]\<rparr>" 3 1 2]
  by (simp add: bit_1_iff)

text \<open>C14. Whatever the registry holds and whatever the uninitialised local contains, \<open>load\<close>
  returns a policy with a known mode and a count inside the entry array; and if the key cannot be
  opened, the value cannot be read, or it has the wrong type or is too short, the policy is a
  whitelist that denies every class tuple.\<close>

theorem load_fail_closed:
  "sane_policy (load api r tmp) \<and>
   (reg_open api r False \<noteq> STATUS_SUCCESS \<or>
    (case reg_query api r tmp of (st, _, actual, type) \<Rightarrow>
       st \<noteq> STATUS_SUCCESS \<or> type \<noteq> REG_BINARY \<or> unat actual < policy_entries_offset) \<longrightarrow>
    (\<forall>cls sub proto. \<not> is_allowed (load api r tmp) cls sub proto))"
  using load_sane [of api r tmp]
  by (auto simp: load_def Let_def sanitize_loaded_policy_def fail_closed_denies split: prod.splits)

text \<open>A registry with one value, which satisfies the law.\<close>

definition mem_registry :: "(u32 \<times> bytes) option registry_api" where
  "mem_registry = \<lparr>reg_open = (\<lambda>_ _. STATUS_SUCCESS),
     reg_query = (\<lambda>r buf. case r of
        None \<Rightarrow> (NT_OTHER_ERROR 0, buf, 0, REG_NONE)
      | Some (t, d) \<Rightarrow> if length d \<le> length buf
          then (STATUS_SUCCESS, overwrite buf 0 d, of_nat (length d), t)
          else (STATUS_BUFFER_OVERFLOW, buf, of_nat (length d), t)),
     reg_assign = (\<lambda>_ t d. (STATUS_SUCCESS, Some (t, d)))\<rparr>"

lemma registry_law_mem: "registry_law mem_registry"
  by (simp add: registry_law_def mem_registry_def)

theorem load_fail_closed_witness:
  "\<not> is_allowed (load mem_registry (Some (3, [0, 0])) (replicate 264 0)) 3 0 0"
  using load_fail_closed [of mem_registry "Some (3, [0, 0])" "replicate 264 0"]
  by (simp add: mem_registry_def policy_entries_offset_def)

text \<open>C30. A policy that was stored successfully is read back as its normal form, independently of
  the uninitialised memory of the reader, and the policy read back makes the same decision as the
  one stored on every class tuple.\<close>

theorem store_load_roundtrip:
  assumes "registry_law api" "wf_policy p"
    and "store api r p = (STATUS_SUCCESS, r')"
    and "reg_open api r' False = STATUS_SUCCESS" "length tmp = sizeof_policy"
  shows "load api r' tmp = normalized p \<and>
    is_allowed (load api r' tmp) cls sub proto = is_allowed p cls sub proto"
  using store_load_normalized [OF assms] is_allowed_normalized [OF assms(2)] by simp

theorem store_load_roundtrip_witness:
  "load mem_registry (snd (store mem_registry None (zero_policy\<lparr>pol_count := 2\<rparr>)))
     (replicate sizeof_policy 0xFF) = normalized (zero_policy\<lparr>pol_count := 2\<rparr>)"
proof -
  let ?p = "zero_policy\<lparr>pol_count := 2\<rparr>"
  have "wf_policy ?p" by (simp add: wf_policy_def zero_policy_def)
  moreover have "store mem_registry None ?p = (STATUS_SUCCESS, snd (store mem_registry None ?p))"
    by (simp add: store_def mem_registry_def Let_def)
  moreover have "reg_open mem_registry (snd (store mem_registry None ?p)) False = STATUS_SUCCESS"
    by (simp add: mem_registry_def)
  ultimately show ?thesis
    using store_load_roundtrip [OF registry_law_mem, of ?p None _ "replicate sizeof_policy 0xFF"] by simp
qed

text \<open>A policy set through \<open>SET_DEVICE_FILTER\<close> is what \<open>GET_DEVICE_FILTER\<close> returns: with a
  large enough buffer the reply has the size of the active entries, and its bytes are those of
  the request with the mode normalised and the reserved bytes zero.\<close>

lemma set_get_device_filter:
  assumes "registry_law api" "16 \<le> length b"
    and set: "set_device_filter api r (Inr b) = (STATUS_SUCCESS, r')"
    and "reg_open api r' False = STATUS_SUCCESS" "length tmp = sizeof_policy"
    and n: "n = unat (of_le32 (slice 8 4 b))"
    and c: "16 \<le> length c" "device_filter_size n \<le> length c" "take 4 c = take 4 b"
  shows "\<exists>out. get_device_filter api r' tmp (Inr c) = (STATUS_SUCCESS, out, device_filter_size n) \<and>
    length out = length c \<and>
    take (device_filter_size n) out =
      take 4 b @ [if b ! 4 = disabled then disabled else whitelist, 0, 0, 0] @ slice 8 (4 + 4 * n) b"
proof -
  note s = set_device_filter_success [OF set n]
  define p where "p = zero_policy\<lparr>mode := b ! 4, pol_count := of_nat n,
       entries := overwrite (entries zero_policy) 0 (entries_of_bytes n (drop 12 b))\<rparr>"
  note norm = normalized_of_request [OF s(2) p_def]
  have ld: "load api r' tmp = normalized p"
    using store_load_normalized [OF assms(1) norm(1) s(4) [folded p_def] assms(4,5)] .
  have size: "slice 0 4 c = le32 16" "take 4 c = le32 16"
    using s(1) assms(2) c(3) by (simp_all add: slice_def)
  have es: "entries_bytes (take n (entries (normalized p))) = slice 12 (4 * n) b"
    using norm(5) s(3) assms(2) by (simp add: entries_bytes_of_bytes slice_def)
  let ?m = "if b ! 4 = disabled then disabled else whitelist"
  let ?out = "take 4 c @ [?m, 0, 0, 0] @ le32 (of_nat n) @ slice 12 (4 * n) b @ drop (12 + 4 * n) c"
  have len: "length (slice 12 (4 * n) b) = 4 * n" and un: "unat (of_nat n :: u32) = n"
    and zeros: "replicate 3 (0 :: u8) = [0, 0, 0]"
    using s(2,3) assms(2) by (simp_all add: unat_of_nat_u32 numeral_3_eq_3)
  have "get_device_filter api r' tmp (Inr c) = (STATUS_SUCCESS, ?out, device_filter_size n)"
    using c(2) reply_image [of "slice 12 (4 * n) b" c ?m "of_nat n"] len
    by (simp add: get_device_filter_def Let_def ld size(1) norm(2,4) un zeros es
        sizeof_device_filter_def offset_entries_def device_filter_size_def)
  moreover have "le32 (of_nat n) = slice 8 4 b"
    using assms(2) by (simp add: n)
  moreover have "slice 8 4 b @ slice 12 (4 * n) b @ rest = slice 8 (4 + 4 * n) b @ rest" for rest
    by (simp add: slice_join_assoc)
  moreover define pre where "pre = take 4 b @ [?m, 0, 0, 0] @ slice 8 (4 + 4 * n) b"
  ultimately have "get_device_filter api r' tmp (Inr c) =
      (STATUS_SUCCESS, pre @ drop (12 + 4 * n) c, device_filter_size n)"
    using c(3) by simp
  moreover have "length pre = device_filter_size n"
    using s(3) assms(2) by (simp add: pre_def device_filter_size_def offset_entries_def min_def)
  ultimately show ?thesis
    using c(2) unfolding pre_def [symmetric]
    by (auto simp: device_filter_size_def offset_entries_def)
qed

end
