(* ===== verification/Config_Parser.thy ===== *)
theory Config_Parser
  imports Prelude
begin

text \<open>
  The configuration descriptor parser of the filter, \<open>drivers/ude/device_filter_parser.h\<close>:
  \<open>evaluate_configuration\<close> as the loop it is, with its array of seen interface numbers, and a
  declarative specification of the configurations it accepts.

  A view with a null pointer is the empty list. The counters are unsigned and stay below the
  number of bytes, which is at most 65535, so they do not wrap.
\<close>

section \<open>Types\<close>

record interface_class =
  intf_number :: u8
  alternate_setting :: u8
  cls :: u8
  subcls :: u8
  protocol :: u8

datatype descriptor_error =
    err_none
  | configuration_header_too_short
  | invalid_configuration_header
  | total_length_mismatch
  | descriptor_header_truncated
  | invalid_descriptor_length
  | invalid_interface_descriptor
  | invalid_endpoint_descriptor
  | no_interfaces
  | interface_count_mismatch
  | interface_not_allowed

record descriptor_result =
  error :: descriptor_error
  declared_interfaces :: nat
  observed_interfaces :: nat
  offending_interface :: interface_class

definition empty_result :: descriptor_result where
  "empty_result = \<lparr>error = err_none, declared_interfaces = 0, observed_interfaces = 0,
     offending_interface = \<lparr>intf_number = 0, alternate_setting = 0, cls = 0, subcls = 0, protocol = 0\<rparr>\<rparr>"

fun descriptor_error_reason :: "descriptor_error \<Rightarrow> string" where
  "descriptor_error_reason err_none = ''valid''"
| "descriptor_error_reason configuration_header_too_short = ''configuration descriptor header too short''"
| "descriptor_error_reason invalid_configuration_header = ''invalid configuration descriptor header''"
| "descriptor_error_reason total_length_mismatch = ''configuration wTotalLength mismatch''"
| "descriptor_error_reason descriptor_header_truncated = ''trailing partial descriptor header''"
| "descriptor_error_reason invalid_descriptor_length = ''invalid descriptor length''"
| "descriptor_error_reason invalid_interface_descriptor = ''short interface descriptor''"
| "descriptor_error_reason invalid_endpoint_descriptor = ''short endpoint descriptor''"
| "descriptor_error_reason no_interfaces = ''configuration has no interfaces''"
| "descriptor_error_reason interface_count_mismatch = ''bNumInterfaces does not match descriptors''"
| "descriptor_error_reason interface_not_allowed = ''interface class not in whitelist''"

abbreviation (input) configuration_descriptor_size :: nat where "configuration_descriptor_size \<equiv> 9"
abbreviation (input) interface_descriptor_size :: nat where "interface_descriptor_size \<equiv> 9"
abbreviation (input) endpoint_descriptor_size :: nat where "endpoint_descriptor_size \<equiv> 7"
abbreviation (input) configuration_descriptor_type :: u8 where "configuration_descriptor_type \<equiv> 2"
abbreviation (input) interface_descriptor_type :: u8 where "interface_descriptor_type \<equiv> 4"
abbreviation (input) endpoint_descriptor_type :: u8 where "endpoint_descriptor_type \<equiv> 5"

section \<open>The parser\<close>

definition interface_at :: "bytes \<Rightarrow> nat \<Rightarrow> interface_class" where
  "interface_at p offset =
     \<lparr>intf_number = p ! (offset + 2), alternate_setting = p ! (offset + 3),
      cls = p ! (offset + 5), subcls = p ! (offset + 6), protocol = p ! (offset + 7)\<rparr>"

text \<open>The loop: \<open>Inl\<close> is an early return, \<open>Inr\<close> the state in which the loop ends.\<close>

function evaluate_loop ::
  "(interface_class \<Rightarrow> bool) \<Rightarrow> bytes \<Rightarrow> nat \<Rightarrow> (u8 \<Rightarrow> bool) \<Rightarrow> nat \<Rightarrow> descriptor_result \<Rightarrow>
   descriptor_result + nat \<times> descriptor_result" where
  "evaluate_loop allowed p offset seen_interfaces interface_descriptors result =
     (if offset < length p then
        if length p - offset < 2 then Inl (result\<lparr>error := descriptor_header_truncated\<rparr>)
        else
          let len = unat (p ! offset); type = p ! (offset + 1) in
          if len < 2 \<or> len > length p - offset then Inl (result\<lparr>error := invalid_descriptor_length\<rparr>)
          else if type = interface_descriptor_type then
            if len < interface_descriptor_size
            then Inl (result\<lparr>error := invalid_interface_descriptor\<rparr>)
            else
              let intf = interface_at p offset;
                  result = (if \<not> seen_interfaces (intf_number intf)
                            then result\<lparr>observed_interfaces := observed_interfaces result + 1\<rparr>
                            else result)
              in if \<not> allowed intf
                 then Inl (result\<lparr>error := interface_not_allowed, offending_interface := intf\<rparr>)
                 else evaluate_loop allowed p (offset + len)
                   (seen_interfaces(intf_number intf := True)) (interface_descriptors + 1) result
          else if type = endpoint_descriptor_type \<and> len < endpoint_descriptor_size
          then Inl (result\<lparr>error := invalid_endpoint_descriptor\<rparr>)
          else evaluate_loop allowed p (offset + len) seen_interfaces interface_descriptors result
      else Inr (interface_descriptors, result))"
  by pat_completeness auto
termination
  by (relation "measure (\<lambda>(_, p, offset, _). length p - offset)") auto

declare evaluate_loop.simps [simp del]

definition evaluate_configuration :: "bytes \<Rightarrow> (interface_class \<Rightarrow> bool) \<Rightarrow> descriptor_result" where
  "evaluate_configuration p allowed =
     (let result = empty_result in
      if length p < configuration_descriptor_size
      then result\<lparr>error := configuration_header_too_short\<rparr>
      else if unat (p ! 0) \<noteq> configuration_descriptor_size \<or> p ! 1 \<noteq> configuration_descriptor_type
      then result\<lparr>error := invalid_configuration_header\<rparr>
      else if (unat (p ! 2) OR push_bit 8 (unat (p ! 3))) \<noteq> length p
      then result\<lparr>error := total_length_mismatch\<rparr>
      else
        let result = result\<lparr>declared_interfaces := unat (p ! 4)\<rparr> in
        case evaluate_loop allowed p 0 (\<lambda>_. False) 0 result of
          Inl r \<Rightarrow> r
        | Inr (interface_descriptors, result) \<Rightarrow>
            if interface_descriptors = 0 then result\<lparr>error := no_interfaces\<rparr>
            else if observed_interfaces result \<noteq> declared_interfaces result
            then result\<lparr>error := interface_count_mismatch\<rparr>
            else result)"

section \<open>Specification\<close>

text \<open>A descriptor is its own length in its first byte; a configuration is a sequence of them.\<close>

definition well_sized :: "bytes \<Rightarrow> bool" where
  "well_sized d \<longleftrightarrow> 2 \<le> length d \<and> unat (d ! 0) = length d"

definition is_interface :: "bytes \<Rightarrow> bool" where
  "is_interface d \<longleftrightarrow> d ! 1 = interface_descriptor_type"

definition descriptor_ok :: "(interface_class \<Rightarrow> bool) \<Rightarrow> bytes \<Rightarrow> bool" where
  "descriptor_ok allowed d \<longleftrightarrow>
     (d ! 1 = interface_descriptor_type \<longrightarrow> 9 \<le> length d \<and> allowed (interface_at d 0)) \<and>
     (d ! 1 = endpoint_descriptor_type \<longrightarrow> 7 \<le> length d)"

definition interface_numbers :: "bytes list \<Rightarrow> u8 set" where
  "interface_numbers ds = (\<lambda>d. d ! 2) ` {d \<in> set ds. is_interface d}"

definition valid_header :: "bytes \<Rightarrow> bool" where
  "valid_header p \<longleftrightarrow> 9 \<le> length p \<and> p ! 0 = 9 \<and> p ! 1 = 2 \<and>
     unat (p ! 2) + 256 * unat (p ! 3) = length p"

definition acceptable :: "(interface_class \<Rightarrow> bool) \<Rightarrow> bytes \<Rightarrow> bytes list \<Rightarrow> bool" where
  "acceptable allowed p ds \<longleftrightarrow>
     valid_header p \<and> concat ds = p \<and>
     (\<forall>d \<in> set ds. well_sized d \<and> descriptor_ok allowed d) \<and>
     (\<exists>d \<in> set ds. is_interface d) \<and>
     card (interface_numbers ds) = unat (p ! 4)"

section \<open>Lemmas\<close>

lemma or_push_bit_8: "(unat (a :: u8) OR push_bit 8 n) = unat a + 256 * n"
proof -
  have "bit (unat a) k \<Longrightarrow> k < 8" for k
    using bit_imp_le_length [of a k] by (auto simp: bit_unsigned_iff)
  then have "unat a AND push_bit 8 n = 0"
    by (intro bit_eqI) (auto simp: bit_simps)
  then have "unat a OR push_bit 8 n = unat a + push_bit 8 n"
    using disjunctive_add [of "unat a" "push_bit 8 n"] by (metis bit_0_eq bit_and_iff bot_apply bot_bool_def)
  then show ?thesis by (simp add: push_bit_eq_mult mult.commute)
qed

lemma evaluate_header:
  "unat (a :: u8) = 9 \<longleftrightarrow> a = 9"
  by (simp add: word_eq_iff_unsigned [where 'a = nat])

lemma interface_at_drop: "offset + 9 \<le> length p \<Longrightarrow> 9 \<le> n \<Longrightarrow>
    interface_at (slice offset n p) 0 = interface_at p offset"
  by (simp add: interface_at_def slice_def)

text \<open>The descriptors from an offset on, read one after another.\<close>

inductive tiled :: "bytes \<Rightarrow> nat \<Rightarrow> bytes list \<Rightarrow> bool" for p where
  tiled_end: "tiled p (length p) []"
| tiled_step: "offset < length p \<Longrightarrow> well_sized d \<Longrightarrow> d = slice offset (length d) p \<Longrightarrow>
    tiled p (offset + length d) ds \<Longrightarrow> tiled p offset (d # ds)"

inductive_cases tiled_NilE: "tiled p offset []"
inductive_cases tiled_ConsE: "tiled p offset (d # ds)"

lemma tiled_iff_concat:
  "tiled p offset ds \<longleftrightarrow> offset \<le> length p \<and> concat ds = drop offset p \<and> (\<forall>d \<in> set ds. well_sized d)"
proof
  assume "tiled p offset ds"
  then show "offset \<le> length p \<and> concat ds = drop offset p \<and> (\<forall>d \<in> set ds. well_sized d)"
  proof induction
    case (tiled_step offset d ds)
    have "drop offset p = slice offset (length d) p @ drop (offset + length d) p"
      by (metis add.commute append_take_drop_id drop_drop slice_def)
    then show ?case using tiled_step by auto
  qed simp
next
  assume "offset \<le> length p \<and> concat ds = drop offset p \<and> (\<forall>d \<in> set ds. well_sized d)"
  then show "tiled p offset ds"
  proof (induction ds arbitrary: offset)
    case Nil
    then have "offset = length p" by simp
    then show ?case using tiled_end [of p] by simp
  next
    case (Cons d ds)
    then have split: "drop offset p = d @ concat ds" and d: "well_sized d" by auto
    then have "length p - offset = length d + length (concat ds)" "2 \<le> length d"
      by (auto simp: well_sized_def simp flip: length_drop)
    moreover have "drop (offset + length d) p = concat ds"
      by (metis add.commute append_eq_conv_conj drop_drop split)
    moreover have "d = slice offset (length d) p"
      by (simp add: slice_def split)
    ultimately show ?case
      using Cons d by (intro tiled_step Cons.IH) auto
  qed
qed

text \<open>What one accepted descriptor does to the state of the loop.\<close>

fun note_descriptor ::
  "bytes \<Rightarrow> (u8 \<Rightarrow> bool) \<times> nat \<times> descriptor_result \<Rightarrow> (u8 \<Rightarrow> bool) \<times> nat \<times> descriptor_result" where
  "note_descriptor d (seen, k, res) =
     (if is_interface d
      then (seen(d ! 2 := True), k + 1,
            if seen (d ! 2) then res else res\<lparr>observed_interfaces := observed_interfaces res + 1\<rparr>)
      else (seen, k, res))"

lemma descriptor_at:
  assumes "offset < length p" "d = slice offset (unat (p ! offset)) p"
  shows "well_sized d \<longleftrightarrow> 2 \<le> unat (p ! offset) \<and> unat (p ! offset) \<le> length p - offset"
    and "well_sized d \<Longrightarrow> length d = unat (p ! offset)"
    and "well_sized d \<Longrightarrow> d ! 1 = p ! (offset + 1)"
    and "well_sized d \<Longrightarrow> 9 \<le> length d \<Longrightarrow> interface_at d 0 = interface_at p offset \<and> d ! 2 = p ! (offset + 2)"
proof -
  have nth: "i < length d \<Longrightarrow> d ! i = p ! (offset + i)" for i
    using assms by (simp add: slice_def)
  have len: "length d = min (unat (p ! offset)) (length p - offset)" using assms(2) by simp
  have "2 \<le> length d \<Longrightarrow> d ! 0 = p ! offset" using nth [of 0] by fastforce
  then show ws: "well_sized d \<longleftrightarrow> 2 \<le> unat (p ! offset) \<and> unat (p ! offset) \<le> length p - offset"
    by (auto simp: well_sized_def len)
  show "well_sized d \<Longrightarrow> length d = unat (p ! offset)" using ws len by simp
  show "well_sized d \<Longrightarrow> d ! 1 = p ! (offset + 1)" by (rule nth) (simp add: well_sized_def)
  show "well_sized d \<Longrightarrow> 9 \<le> length d \<Longrightarrow>
      interface_at d 0 = interface_at p offset \<and> d ! 2 = p ! (offset + 2)"
    using nth by (simp add: interface_at_def)
qed

lemma evaluate_loop_step:
  assumes "offset < length p" and d: "d = slice offset (unat (p ! offset)) p"
  shows "well_sized d \<Longrightarrow> descriptor_ok allowed d \<Longrightarrow>
      evaluate_loop allowed p offset seen k res =
        (case note_descriptor d (seen, k, res) of (seen', k', res') \<Rightarrow>
           evaluate_loop allowed p (offset + length d) seen' k' res')"
    and "\<not> (well_sized d \<and> descriptor_ok allowed d) \<Longrightarrow>
      \<exists>r. evaluate_loop allowed p offset seen k res = Inl r \<and> error r \<noteq> err_none"
proof -
  note at = descriptor_at [OF assms]
  show "evaluate_loop allowed p offset seen k res =
        (case note_descriptor d (seen, k, res) of (seen', k', res') \<Rightarrow>
           evaluate_loop allowed p (offset + length d) seen' k' res')"
    if "well_sized d" "descriptor_ok allowed d"
    using that at assms(1)
    by (subst evaluate_loop.simps)
      (auto simp: descriptor_ok_def is_interface_def Let_def interface_at_def)
  show "\<exists>r. evaluate_loop allowed p offset seen k res = Inl r \<and> error r \<noteq> err_none"
    if "\<not> (well_sized d \<and> descriptor_ok allowed d)"
  proof (cases "well_sized d")
    case True
    then show ?thesis
      using that at assms(1)
      by (subst evaluate_loop.simps) (auto simp: descriptor_ok_def Let_def)
  next
    case False
    then show ?thesis
      using at(1) assms(1) by (subst evaluate_loop.simps) (auto simp: Let_def)
  qed
qed

lemma evaluate_loop_Inr_tiled:
  assumes "evaluate_loop allowed p offset seen k res = Inr x" "offset \<le> length p"
  shows "\<exists>ds. tiled p offset ds \<and> (\<forall>d \<in> set ds. descriptor_ok allowed d)"
  using assms
proof (induction "length p - offset" arbitrary: offset seen k res rule: less_induct)
  case less
  show ?case
  proof (cases "offset < length p")
    case False
    then show ?thesis using less.prems tiled_end [of p] by (intro exI [of _ "[]"]) auto
  next
    case True
    define d where "d = slice offset (unat (p ! offset)) p"
    note step = evaluate_loop_step [OF True d_def, of allowed] and at = descriptor_at [OF True d_def]
    have ok: "well_sized d" "descriptor_ok allowed d"
      using step(2) [of seen k res] less.prems(1) by auto
    obtain seen' k' res' where note_d: "note_descriptor d (seen, k, res) = (seen', k', res')"
      by (metis prod_cases3)
    have "offset + length d \<le> length p" "2 \<le> length d"
      using at(1,2) ok(1) True by auto
    moreover have "evaluate_loop allowed p (offset + length d) seen' k' res' = Inr x"
      using less.prems(1) step(1) [OF ok, of seen k res] note_d by simp
    moreover have "length p - (offset + length d) < length p - offset"
      using \<open>2 \<le> length d\<close> True by simp
    ultimately obtain ds where
      "tiled p (offset + length d) ds" "\<forall>d \<in> set ds. descriptor_ok allowed d"
      using less.hyps by blast
    then show ?thesis
      using ok at(2) True d_def by (intro exI [of _ "d # ds"]) (auto intro: tiled_step)
  qed
qed

lemma evaluate_loop_tiled:
  assumes "tiled p offset ds" "\<forall>d \<in> set ds. descriptor_ok allowed d"
  shows "evaluate_loop allowed p offset seen k res =
    (case fold note_descriptor ds (seen, k, res) of (_, k', res') \<Rightarrow> Inr (k', res'))"
  using assms
proof (induction arbitrary: seen k res)
  case tiled_end
  then show ?case by (subst evaluate_loop.simps) simp
next
  case (tiled_step offset d ds)
  have "p ! offset = d ! 0"
  proof -
    have "d ! 0 = slice offset (length d) p ! 0" using tiled_step.hyps(3) by simp
    moreover have "0 < length d" using tiled_step.hyps(2) by (auto simp: well_sized_def)
    ultimately show ?thesis using tiled_step.hyps(1) by (simp add: slice_def)
  qed
  then have d: "d = slice offset (unat (p ! offset)) p"
    using tiled_step.hyps by (simp add: well_sized_def)
  show ?case
    using evaluate_loop_step(1) [OF tiled_step.hyps(1) d, of allowed seen k res] tiled_step
    by (auto split: prod.splits)
qed

lemma fold_note_descriptor:
  "fold note_descriptor ds (seen, k, res) =
    (\<lambda>n. seen n \<or> n \<in> interface_numbers ds,
     k + length (filter is_interface ds),
     res\<lparr>observed_interfaces := observed_interfaces res + card (interface_numbers ds - Collect seen)\<rparr>)"
proof (induction ds arbitrary: seen k res)
  case Nil
  then show ?case by (simp add: interface_numbers_def)
next
  case (Cons d ds)
  let ?new = "interface_numbers ds - {x. x \<noteq> d ! 2 \<longrightarrow> seen x}"
  have fin: "finite (interface_numbers es)" for es by (simp add: interface_numbers_def)
  show ?case
  proof (cases "is_interface d")
    case False
    then have "interface_numbers (d # ds) = interface_numbers ds"
      by (auto simp: interface_numbers_def)
    then show ?thesis using False Cons.IH by simp
  next
    case True
    then have nums: "interface_numbers (d # ds) = insert (d ! 2) (interface_numbers ds)"
      by (auto simp: interface_numbers_def)
    have "card (interface_numbers (d # ds) - Collect seen) =
        (if seen (d ! 2) then 0 else 1) + card ?new"
    proof (cases "seen (d ! 2)")
      case True
      then have "interface_numbers (d # ds) - Collect seen = ?new" by (auto simp: nums split: if_splits)
      then show ?thesis using True by simp
    next
      case False
      then have "interface_numbers (d # ds) - Collect seen = insert (d ! 2) ?new"
        by (auto simp: nums split: if_splits)
      then show ?thesis using False fin by simp
    qed
    then show ?thesis using True Cons.IH by (auto simp: nums)
  qed
qed

lemma evaluate_loop_error:
  "evaluate_loop allowed p offset seen k res = Inl r \<Longrightarrow> error r \<noteq> err_none"
  by (induction allowed p offset seen k res rule: evaluate_loop.induct)
    (subst (asm) (2) evaluate_loop.simps, auto simp: Let_def split: if_splits)

lemma evaluate_loop_Inr_error:
  "evaluate_loop allowed p offset seen k res = Inr (k', r) \<Longrightarrow> error r = error res"
  by (induction allowed p offset seen k res rule: evaluate_loop.induct)
    (subst (asm) (3) evaluate_loop.simps,
      auto simp: Let_def simp del: fun_upd_apply split: if_splits)

lemma evaluate_loop_offending:
  "evaluate_loop allowed p offset seen k res = Inl r \<Longrightarrow> error r = interface_not_allowed \<Longrightarrow>
   error res \<noteq> interface_not_allowed \<Longrightarrow>
   \<exists>i. i + 9 \<le> length p \<and> p ! (i + 1) = interface_descriptor_type \<and>
      offending_interface r = interface_at p i \<and> \<not> allowed (interface_at p i)"
proof (induction allowed p offset seen k res rule: evaluate_loop.induct)
  case (1 allowed p offset seen k res)
  show ?case
  proof (cases "offset < length p \<and> 9 \<le> unat (p ! offset) \<and> unat (p ! offset) \<le> length p - offset \<and>
      p ! (offset + 1) = interface_descriptor_type \<and> \<not> allowed (interface_at p offset)")
    case True
    then show ?thesis
      using 1(3) by (intro exI [of _ offset]) (subst (asm) evaluate_loop.simps, auto simp: Let_def split: if_splits)
  next
    case False
    then show ?thesis
      using 1 by (subst (asm) (3) evaluate_loop.simps)
        (auto simp: Let_def simp del: fun_upd_apply split: if_splits)
  qed
qed

lemma evaluate_configuration_accepts:
  "error (evaluate_configuration p allowed) = err_none \<longleftrightarrow> (\<exists>ds. acceptable allowed p ds)"
proof (cases "valid_header p")
  case False
  then show ?thesis
    by (auto simp: evaluate_configuration_def Let_def acceptable_def valid_header_def
        or_push_bit_8 evaluate_header)
next
  case True
  define res where "res = empty_result\<lparr>declared_interfaces := unat (p ! 4)\<rparr>"
  have eval: "evaluate_configuration p allowed =
      (case evaluate_loop allowed p 0 (\<lambda>_. False) 0 res of
          Inl r \<Rightarrow> r
        | Inr (k, r) \<Rightarrow> if k = 0 then r\<lparr>error := no_interfaces\<rparr>
            else if observed_interfaces r \<noteq> declared_interfaces r
            then r\<lparr>error := interface_count_mismatch\<rparr> else r)"
    using True by (simp add: evaluate_configuration_def Let_def valid_header_def or_push_bit_8
        evaluate_header res_def)
  have acc: "acceptable allowed p ds \<longleftrightarrow> tiled p 0 ds \<and> (\<forall>d \<in> set ds. descriptor_ok allowed d) \<and>
      filter is_interface ds \<noteq> [] \<and> card (interface_numbers ds) = unat (p ! 4)" for ds
    using True by (auto simp: acceptable_def tiled_iff_concat filter_empty_conv)
  have tile: "error (evaluate_configuration p allowed) = err_none \<longleftrightarrow>
      filter is_interface ds \<noteq> [] \<and> card (interface_numbers ds) = unat (p ! 4)"
    if "tiled p 0 ds" "\<forall>d \<in> set ds. descriptor_ok allowed d" for ds
    using evaluate_loop_tiled [OF that, of "\<lambda>_. False" 0 res]
    by (simp add: eval fold_note_descriptor res_def empty_result_def filter_empty_conv)
  show ?thesis
  proof (cases "evaluate_loop allowed p 0 (\<lambda>_. False) 0 res")
    case (Inl r)
    then have "error (evaluate_configuration p allowed) \<noteq> err_none"
      using evaluate_loop_error [OF Inl] by (simp add: eval)
    then show ?thesis using tile acc by blast
  next
    case (Inr x)
    then show ?thesis using evaluate_loop_Inr_tiled [OF Inr] tile acc by blast
  qed
qed

section \<open>Properties\<close>

text \<open>C5. The parser accepts a configuration exactly when the specification does: the header is a
  configuration header for these very bytes, the bytes are a sequence of descriptors each with its
  own length, every interface descriptor (alternate settings included) is complete and of an
  allowed class, every endpoint descriptor is complete, there is an interface, and the number of
  distinct interface numbers is the declared one.\<close>

theorem evaluate_configuration_iff:
  "error (evaluate_configuration p allowed) = err_none \<longleftrightarrow> (\<exists>ds. acceptable allowed p ds)"
  by (rule evaluate_configuration_accepts)

text \<open>When the parser blames an interface, the configuration really contains an interface
  descriptor with that class tuple, and the policy does not allow it.\<close>

lemma evaluate_configuration_offending:
  assumes "error (evaluate_configuration p allowed) = interface_not_allowed"
  shows "\<exists>i. i + 9 \<le> length p \<and> p ! (i + 1) = interface_descriptor_type \<and>
    offending_interface (evaluate_configuration p allowed) = interface_at p i \<and>
    \<not> allowed (interface_at p i)"
proof -
  define res where "res = empty_result\<lparr>declared_interfaces := unat (p ! 4)\<rparr>"
  obtain r where "evaluate_loop allowed p 0 (\<lambda>_. False) 0 res = Inl r" "evaluate_configuration p allowed = r"
    using assms
    by (auto simp: evaluate_configuration_def Let_def res_def empty_result_def
        dest: evaluate_loop_Inr_error split: if_splits sum.splits)
  then show ?thesis
    using evaluate_loop_offending assms by (fastforce simp: res_def empty_result_def)
qed

end
