(* ===== verification/Descriptor_Patch.thy ===== *)
theory Descriptor_Patch
  imports Config_Parser
begin

text \<open>
  The endpoint conversion for UdeCx, \<open>drivers/ude/descriptor_patch.cpp\<close>, with the descriptor
  helpers of \<open>drivers/libdrv/usbdsc.h\<close>, \<open>usbdsc.cpp\<close> and \<open>ch9.h\<close>.

  \<open>USBD_ParseDescriptors\<close> belongs to Windows; it is a parameter, and what is assumed of it is the
  locale \<open>descriptor_search\<close>: from a descriptor boundary of a well formed configuration it returns
  the first descriptor of the wanted type. The driver's own search, the loop of
  \<open>libdrv::find_next\<close>, is proved to satisfy it.
\<close>

section \<open>Descriptor helpers\<close>

text \<open>The range check of \<open>is_valid\<close> for a configuration descriptor: nine bytes, its own type and a
  total length beyond the header.\<close>

definition wTotalLength :: "bytes \<Rightarrow> nat" where
  "wTotalLength p = (unat (p ! 2) OR push_bit 8 (unat (p ! 3)))"

definition is_valid_configuration :: "bytes \<Rightarrow> bool" where
  "is_valid_configuration d \<longleftrightarrow> unat (d ! 0) = 9 \<and> d ! 1 = 2 \<and> wTotalLength d > unat (d ! 0)"

definition is_valid_device :: "bytes \<Rightarrow> bool" where
  "is_valid_device d \<longleftrightarrow> unat (d ! 0) = 18 \<and> d ! 1 = 1"

definition is_valid_interface :: "bytes \<Rightarrow> bool" where
  "is_valid_interface d \<longleftrightarrow> unat (d ! 0) = 9 \<and> d ! 1 = 4"

definition is_valid_string :: "bytes \<Rightarrow> bool" where
  "is_valid_string d \<longleftrightarrow> unat (d ! 0) \<ge> 2 \<and> d ! 1 = 3"

text \<open>The text MSFT100 as seven UTF-16 units.\<close>

definition os_string_signature :: bytes where
  "os_string_signature = [0x4D, 0, 0x53, 0, 0x46, 0, 0x54, 0, 0x31, 0, 0x30, 0, 0x30, 0]"

definition is_valid_os_string :: "bytes \<Rightarrow> bool" where
  "is_valid_os_string d \<longleftrightarrow> unat (d ! 0) = 18 \<and> d ! 1 = 3 \<and> slice 2 14 d = os_string_signature"

definition usb_string_descr_size :: "nat \<Rightarrow> nat" where
  "usb_string_descr_size n = (2 + n * 2) mod 256"

definition next_descr :: "bytes \<Rightarrow> nat \<Rightarrow> nat" where
  "next_descr p cur = cur + unat (p ! cur)"

text \<open>The search loop of \<open>find_next\<close> from the position \<open>cur\<close>; \<open>None\<close> is the null pointer. A valid
  descriptor has at least two bytes, so the position grows.\<close>

function find_loop :: "bytes \<Rightarrow> nat \<Rightarrow> nat \<Rightarrow> u8 \<Rightarrow> nat option" where
  "find_loop cfg end_pos cur type =
     (if cur + 2 \<le> end_pos \<and> 2 \<le> unat (cfg ! cur) \<and> next_descr cfg cur \<le> end_pos
      then if cfg ! (cur + 1) = type then Some cur
           else find_loop cfg end_pos (next_descr cfg cur) type
      else None)"
  by pat_completeness auto
termination
  by (relation "measure (\<lambda>(cfg, end_pos, cur, type). end_pos - cur)") (auto simp: next_descr_def)

declare find_loop.simps [simp del]

definition find_next :: "bytes \<Rightarrow> u8 \<Rightarrow> nat option \<Rightarrow> nat option" where
  "find_next cfg type cur =
     (let end_pos = wTotalLength cfg;
          start = (case cur of Some c \<Rightarrow> next_descr cfg c | None \<Rightarrow> 0)
      in find_loop cfg end_pos start type)"

datatype pipe_type = UsbdPipeTypeControl | UsbdPipeTypeIsochronous | UsbdPipeTypeBulk | UsbdPipeTypeInterrupt

definition usb_endpoint_type :: "u8 \<Rightarrow> pipe_type" where
  "usb_endpoint_type bmAttributes =
     (let t = bmAttributes AND 3 in
      if t = 0 then UsbdPipeTypeControl else if t = 1 then UsbdPipeTypeIsochronous
      else if t = 2 then UsbdPipeTypeBulk else UsbdPipeTypeInterrupt)"

definition usb_endpoint_num :: "u8 \<Rightarrow> u8" where
  "usb_endpoint_num bEndpointAddress = bEndpointAddress AND 0x0F"

definition usb_endpoint_dir_in :: "u8 \<Rightarrow> bool" where
  "usb_endpoint_dir_in bEndpointAddress \<longleftrightarrow> bEndpointAddress AND 0x80 \<noteq> 0"

definition usb_endpoint_dir_out :: "u8 \<Rightarrow> bool" where
  "usb_endpoint_dir_out bEndpointAddress \<longleftrightarrow> \<not> bEndpointAddress AND 0x80 \<noteq> 0"

definition usb_default_control_pipe :: "bytes \<Rightarrow> bool" where
  "usb_default_control_pipe epd \<longleftrightarrow>
     unat (epd ! 0) = 7 \<and> epd ! 1 = 5 \<and> epd ! 2 = 0 \<and> usb_endpoint_type (epd ! 3) = UsbdPipeTypeControl"

section \<open>The conversion\<close>

definition max_interval :: nat where "max_interval = 16"

text \<open>\<open>interval_loop m n i\<close> is the loop from \<open>i\<close> with \<open>n\<close> rounds left.\<close>

primrec interval_loop :: "nat \<Rightarrow> nat \<Rightarrow> nat \<Rightarrow> nat" where
  "interval_loop microframes 0 i = max_interval"
| "interval_loop microframes (Suc n) i =
     (if 2 ^ (i - 1) \<ge> microframes then i else interval_loop microframes n (i + 1))"

definition to_high_speed_interval :: "u8 \<Rightarrow> nat" where
  "to_high_speed_interval interval = interval_loop (8 * unat interval) max_interval 1"

text \<open>\<open>enum usb_device_speed\<close> of \<open>include/usbip/ch9.h\<close>. Its underlying type is \<open>int\<close>; the value comes from
  the server and may be none of the names, so a speed is an integer.\<close>

datatype usb_device_speed = USB_SPEED_UNKNOWN | USB_SPEED_LOW | USB_SPEED_FULL | USB_SPEED_HIGH
  | USB_SPEED_WIRELESS | USB_SPEED_SUPER | USB_SPEED_SUPER_PLUS

fun speed_code :: "usb_device_speed \<Rightarrow> int" where
  "speed_code USB_SPEED_UNKNOWN = 0"
| "speed_code USB_SPEED_LOW = 1"
| "speed_code USB_SPEED_FULL = 2"
| "speed_code USB_SPEED_HIGH = 3"
| "speed_code USB_SPEED_WIRELESS = 4"
| "speed_code USB_SPEED_SUPER = 5"
| "speed_code USB_SPEED_SUPER_PLUS = 6"

definition patch_endpoint :: "bytes \<Rightarrow> nat \<Rightarrow> bytes" where
  "patch_endpoint p cur =
     (case usb_endpoint_type (p ! (cur + 3)) of
        UsbdPipeTypeBulk \<Rightarrow> p[cur + 4 := 0, cur + 5 := 2]
      | UsbdPipeTypeIsochronous \<Rightarrow>
          p[cur + 6 := (if unat (p ! (cur + 6)) + 3 < 16 then of_nat (unat (p ! (cur + 6)) + 3) else 16)]
      | UsbdPipeTypeInterrupt \<Rightarrow> p[cur + 6 := of_nat (to_high_speed_interval (p ! (cur + 6)))]
      | UsbdPipeTypeControl \<Rightarrow> p)"

text \<open>The loop with the search as a parameter; \<open>None\<close> is running out of rounds.\<close>

primrec patch_loop :: "(bytes \<Rightarrow> nat \<Rightarrow> nat \<Rightarrow> u8 \<Rightarrow> nat option) \<Rightarrow> nat \<Rightarrow> bytes \<Rightarrow> nat \<Rightarrow> bytes option" where
  "patch_loop parse 0 p cur = None"
| "patch_loop parse (Suc fuel) p cur =
     (case parse p (wTotalLength p) cur 5 of
        None \<Rightarrow> Some p
      | Some cur \<Rightarrow>
          let p = (if unat (p ! cur) < 7 then p else patch_endpoint p cur)
          in patch_loop parse fuel p (next_descr p cur))"

definition patch_configuration_for_udecx ::
  "(bytes \<Rightarrow> nat \<Rightarrow> nat \<Rightarrow> u8 \<Rightarrow> nat option) \<Rightarrow> nat \<Rightarrow> bytes \<Rightarrow> int \<Rightarrow> bytes option" where
  "patch_configuration_for_udecx parse fuel configuration speed =
     (if speed \<ge> speed_code USB_SPEED_HIGH then Some configuration
      else patch_loop parse fuel configuration 0)"

section \<open>The search interface\<close>

text \<open>The first descriptor of a type in a list of descriptors that starts at \<open>cur\<close>.\<close>

primrec first_of_type :: "u8 \<Rightarrow> nat \<Rightarrow> bytes list \<Rightarrow> nat option" where
  "first_of_type type cur [] = None"
| "first_of_type type cur (d # ds) =
     (if d ! 1 = type then Some cur else first_of_type type (cur + length d) ds)"

text \<open>The effect on one descriptor.\<close>

definition patch_descriptor :: "bytes \<Rightarrow> bytes" where
  "patch_descriptor d = (if d ! 1 = 5 \<and> 7 \<le> length d then patch_endpoint d 0 else d)"

lemma tiled_at:
  assumes "tiled p cur (d # ds)"
  shows "cur < length p" "well_sized d" "tiled p (cur + length d) ds"
    "cur + length d \<le> length p" "i < length d \<Longrightarrow> p ! (cur + i) = d ! i" "unat (p ! cur) = length d"
proof -
  show "cur < length p" and ws: "well_sized d" and "tiled p (cur + length d) ds"
    using assms by (auto elim: tiled_ConsE)
  then show le: "cur + length d \<le> length p" by (simp add: tiled_iff_concat)
  have d: "d = slice cur (length d) p" using assms by (auto elim: tiled_ConsE)
  have nth: "p ! (cur + i) = d ! i" if "i < length d" for i
    using le that by (subst d) (simp add: slice_nth)
  show "i < length d \<Longrightarrow> p ! (cur + i) = d ! i" by (rule nth)
  have "0 < length d" "unat (d ! 0) = length d" using ws by (auto simp: well_sized_def)
  then show "unat (p ! cur) = length d" using nth [of 0] by simp
qed

lemma length_patch_endpoint [simp]: "length (patch_endpoint p cur) = length p"
  by (simp add: patch_endpoint_def split: pipe_type.split)

lemma patch_endpoint_append:
  assumes "7 \<le> length d" "cur = length pre"
  shows "patch_endpoint (pre @ d @ post) cur = pre @ patch_endpoint d 0 @ post"
  using assms
  by (simp add: patch_endpoint_def nth_append list_update_append split: pipe_type.split)

lemma patch_descriptor_simps [simp]:
  "length (patch_descriptor d) = length d"
  "patch_descriptor d ! 0 = d ! 0" "patch_descriptor d ! Suc 0 = d ! Suc 0" "patch_descriptor d ! 2 = d ! 2"
  by (simp_all add: patch_descriptor_def patch_endpoint_def split: pipe_type.split)

lemma well_sized_patch [simp]: "well_sized (patch_descriptor d) = well_sized d"
  by (simp add: well_sized_def)

lemma is_interface_patch [simp]: "is_interface (patch_descriptor d) = is_interface d"
  by (simp add: is_interface_def)

lemma patch_interface [simp]: "is_interface d \<Longrightarrow> patch_descriptor d = d"
  by (simp add: patch_descriptor_def is_interface_def)

lemma descriptor_ok_patch [simp]: "descriptor_ok allowed (patch_descriptor d) = descriptor_ok allowed d"
  using patch_interface [of d] by (auto simp: descriptor_ok_def is_interface_def)

lemma filter_is_interface_patch [simp]:
  "filter is_interface (map patch_descriptor ds) = filter is_interface ds"
  by (induction ds) auto

lemma interface_numbers_patch:
  "interface_numbers (map patch_descriptor ds) = interface_numbers ds"
proof -
  have "interface_numbers es = (\<lambda>d. d ! 2) ` set (filter is_interface es)" for es
    by (simp add: interface_numbers_def)
  then show ?thesis by (simp only: filter_is_interface_patch)
qed

lemma length_concat_patch [simp]: "length (concat (map patch_descriptor ds)) = length (concat ds)"
  by (induction ds) simp_all

lemma wTotalLength_patch_endpoint [simp]: "wTotalLength (patch_endpoint p cur) = wTotalLength p"
  by (simp add: wTotalLength_def patch_endpoint_def split: pipe_type.split)

text \<open>One round of the loop at a boundary where an endpoint descriptor starts.\<close>

definition patch_round :: "bytes \<Rightarrow> nat \<Rightarrow> bytes" where
  "patch_round p cur = (if unat (p ! cur) < 7 then p else patch_endpoint p cur)"

lemma patch_round_tiled:
  assumes "tiled p cur (d # ds)" "d ! 1 = 5" "p' = patch_round p cur"
  shows "p' = take cur p @ patch_descriptor d @ drop (cur + length d) p"
    "tiled p' (cur + length d) ds" "length p' = length p" "wTotalLength p' = wTotalLength p"
    "next_descr p' cur = cur + length d"
proof -
  note at = tiled_at [OF assms(1)]
  have split: "p = take cur p @ d @ drop (cur + length d) p"
  proof -
    have "d = slice cur (length d) p" using assms(1) by (auto elim: tiled_ConsE)
    then show ?thesis by (metis add.commute append_take_drop_id drop_drop slice_def)
  qed
  show p': "p' = take cur p @ patch_descriptor d @ drop (cur + length d) p"
  proof (cases "7 \<le> length d")
    case True
    then show ?thesis
      using patch_endpoint_append [of d cur "take cur p" "drop (cur + length d) p"] at(1,6) assms(2,3) split
      by (simp add: patch_round_def patch_descriptor_def)
  next
    case False
    then show ?thesis using at(6) assms(2,3) split by (simp add: patch_round_def patch_descriptor_def)
  qed
  show len: "length p' = length p" "wTotalLength p' = wTotalLength p"
    using assms(3) by (simp_all add: patch_round_def)
  have "drop (cur + length d) p' = drop (cur + length d) p" using at(4) by (simp add: p')
  then show "tiled p' (cur + length d) ds"
    using at(3) by (simp add: tiled_iff_concat len)
  have "0 < length d" "unat (d ! 0) = length d" using at(2) by (auto simp: well_sized_def)
  then show "next_descr p' cur = cur + length d"
    using at(1) by (simp add: next_descr_def p' nth_append)
qed

locale descriptor_search =
  fixes parse :: "bytes \<Rightarrow> nat \<Rightarrow> nat \<Rightarrow> u8 \<Rightarrow> nat option"
  assumes parse_tiled: "tiled p cur ds \<Longrightarrow> parse p (length p) cur type = first_of_type type cur ds"
begin

lemma patch_loop_skip:
  assumes "tiled p cur (d # ds)" "d ! 1 \<noteq> 5" "wTotalLength p = length p"
  shows "patch_loop parse fuel p cur = patch_loop parse fuel p (cur + length d)"
  using parse_tiled [OF assms(1)] parse_tiled [OF tiled_at(3) [OF assms(1)]] assms(2,3)
  by (cases fuel) simp_all

lemma patch_loop_tiled:
  assumes "tiled p cur ds" "length ds < fuel" "wTotalLength p = length p"
  shows "patch_loop parse fuel p cur = Some (take cur p @ concat (map patch_descriptor ds))"
  using assms
proof (induction ds arbitrary: p cur fuel rule: list.induct)
  case Nil
  then obtain f where "fuel = Suc f" by (cases fuel) auto
  moreover have "cur = length p" using Nil by (auto elim: tiled_NilE)
  ultimately show ?case using parse_tiled [OF Nil.prems(1)] Nil.prems(3) by simp
next
  case (Cons d ds)
  then obtain f where f: "fuel = Suc f" "length ds < f" by (cases fuel) auto
  note at = tiled_at [OF Cons.prems(1)]
  show ?case
  proof (cases "d ! 1 = 5")
    case False
    have "d = slice cur (length d) p" using Cons.prems(1) by (auto elim: tiled_ConsE)
    then have "take (cur + length d) p = take cur p @ d" by (simp add: take_add slice_def)
    moreover have "patch_descriptor d = d" using False by (simp add: patch_descriptor_def)
    moreover have "patch_loop parse fuel p cur = patch_loop parse fuel p (cur + length d)"
      by (rule patch_loop_skip [OF Cons.prems(1) False Cons.prems(3)])
    moreover have "\<dots> = Some (take (cur + length d) p @ concat (map patch_descriptor ds))"
      by (rule Cons.IH) (use at(3) f Cons.prems(3) in auto)
    ultimately show ?thesis by simp
  next
    case True
    define p' where "p' = patch_round p cur"
    note round = patch_round_tiled [OF Cons.prems(1) True p'_def]
    have "patch_loop parse fuel p cur = patch_loop parse f p' (cur + length d)"
      using parse_tiled [OF Cons.prems(1), of 5] True Cons.prems(3) round(5)
      by (simp add: f p'_def patch_round_def Let_def)
    also have "\<dots> = Some (take (cur + length d) p' @ concat (map patch_descriptor ds))"
      using Cons.IH [OF round(2) f(2)] round(3,4) Cons.prems(3) by simp
    also have "take (cur + length d) p' = take cur p @ patch_descriptor d"
      using round(1) at(4) by simp
    finally show ?thesis by simp
  qed
qed

lemma patch_configuration:
  assumes "acceptable allowed p ds" "length p \<le> fuel"
  shows "patch_configuration_for_udecx parse fuel p speed =
    Some (if 3 \<le> speed then p else concat (map patch_descriptor ds))"
proof -
  have tiled: "tiled p 0 ds" and total: "wTotalLength p = length p" and "9 \<le> length p"
    using assms(1)
    by (auto simp: acceptable_def tiled_iff_concat valid_header_def wTotalLength_def or_push_bit_8)
  have "2 * length ds \<le> length (concat ds)" if "\<forall>d \<in> set ds. well_sized d"
    using that by (induction ds) (auto simp: well_sized_def)
  then have "length ds < fuel"
    using tiled \<open>9 \<le> length p\<close> assms(2) by (force simp: tiled_iff_concat)
  then show ?thesis
    using patch_loop_tiled [OF tiled _ total] by (simp add: patch_configuration_for_udecx_def)
qed

end

lemma find_loop_tiled: "tiled p cur ds \<Longrightarrow> find_loop p (length p) cur type = first_of_type type cur ds"
proof (induction ds arbitrary: cur)
  case Nil
  then have "cur = length p" by (auto elim: tiled_NilE)
  then show ?case by (subst find_loop.simps) simp
next
  case (Cons d ds)
  note at = tiled_at [OF Cons.prems]
  have "p ! (cur + 1) = d ! 1" "2 \<le> length d"
    using at(2) at(5) [of 1] by (simp_all add: well_sized_def)
  then show ?case
    using at Cons.IH [OF at(3)] by (subst find_loop.simps) (simp add: next_descr_def)
qed

interpretation own_search: descriptor_search find_loop
  by unfold_locales (rule find_loop_tiled)

section \<open>Properties\<close>

lemma acceptable_patch:
  assumes "acceptable allowed p ds"
  shows "acceptable allowed (concat (map patch_descriptor ds)) (map patch_descriptor ds)"
proof -
  obtain d ds' where ds: "ds = d # ds'" using assms by (cases ds) (auto simp: acceptable_def)
  have hd: "p = d @ concat ds'" "p ! 0 = 9" "p ! 1 = 2"
    using assms by (auto simp: acceptable_def ds valid_header_def)
  have d: "2 \<le> length d" "unat (d ! 0) = length d"
    using assms by (auto simp: acceptable_def ds well_sized_def)
  have "d ! 0 = 9" using hd d by (cases d) (auto simp: nth_append)
  then have nine: "length d = 9" using d by simp
  then have "patch_descriptor d = d"
    using hd by (simp add: patch_descriptor_def nth_append)
  then have cat: "concat (map patch_descriptor ds) = d @ concat (map patch_descriptor ds')"
    by (simp add: ds)
  have "valid_header (concat (map patch_descriptor ds))"
    using assms nine by (simp add: cat acceptable_def valid_header_def hd(1) nth_append)
  moreover have "concat (map patch_descriptor ds) ! 4 = p ! 4"
    using nine by (simp add: cat hd(1) nth_append)
  ultimately show ?thesis
    using assms by (simp add: acceptable_def interface_numbers_patch)
qed

lemma patch_configuration_acceptable:
  assumes "descriptor_search parse" "acceptable allowed p ds" "length p \<le> fuel"
  shows "\<exists>p' ds'. patch_configuration_for_udecx parse fuel p speed = Some p' \<and>
    length p' = length p \<and> acceptable allowed p' ds' \<and>
    filter is_interface ds' = filter is_interface ds"
proof -
  have "concat ds = p" using assms(2) by (simp add: acceptable_def)
  then show ?thesis
    using descriptor_search.patch_configuration [OF assms, of speed] acceptable_patch [OF assms(2)]
      assms(2) by (cases "3 \<le> speed") fastforce+
qed

lemma interval_loop_least:
  assumes "m \<le> 2 ^ (i + n - 1)" "1 \<le> i"
  shows "i \<le> interval_loop m (Suc n) i \<and> interval_loop m (Suc n) i \<le> i + n \<and>
    m \<le> 2 ^ (interval_loop m (Suc n) i - 1) \<and>
    (\<forall>j. i \<le> j \<and> m \<le> 2 ^ (j - 1) \<longrightarrow> interval_loop m (Suc n) i \<le> j)"
  using assms
proof (induction n arbitrary: i)
  case (Suc n)
  show ?case
  proof (cases "m \<le> 2 ^ (i - 1)")
    case False
    then have "i \<noteq> j" if "m \<le> 2 ^ (j - 1)" for j using that by auto
    then show ?thesis
      using False Suc.IH [of "i + 1"] Suc.prems
      by (simp only: interval_loop.simps(2) [of m "Suc n" i] if_False) (fastforce simp: Suc_le_eq)
  qed simp
qed simp

lemma interval_loop_mono:
  "m \<le> 2 ^ (i + n - 1) \<Longrightarrow> interval_loop m (Suc (n + k)) i = interval_loop m (Suc n) i"
proof (induction n arbitrary: i)
  case (Suc n)
  then show ?case using Suc.IH [of "Suc i"] by (auto split: if_splits)
qed simp

text \<open>For an interrupt endpoint the converted interval is the least exponent whose period
  covers the interval in milliseconds, and it never exceeds 12, so the loop bound of 16 is never
  what decides.\<close>

lemma to_high_speed_interval_least:
  "1 \<le> to_high_speed_interval interval \<and> to_high_speed_interval interval \<le> 12 \<and>
    8 * unat interval \<le> 2 ^ (to_high_speed_interval interval - 1) \<and>
    (\<forall>i. 1 \<le> i \<and> 8 * unat interval \<le> 2 ^ (i - 1) \<longrightarrow> to_high_speed_interval interval \<le> i)"
proof -
  have "8 * unat interval \<le> 2 ^ (1 + 11 - 1)"
    using less_imp_le [OF unat_u8_lt [of interval]] by simp
  note least = interval_loop_least [OF this] and stable = interval_loop_mono [OF this, of 4]
  have rounds: "max_interval = Suc (11 + 4)" by (simp add: max_interval_def)
  have "to_high_speed_interval interval = interval_loop (8 * unat interval) (Suc 11) 1"
    unfolding to_high_speed_interval_def rounds by (rule stable)
  then show ?thesis using least by (simp del: interval_loop.simps)
qed

text \<open>C35. The conversion terminates on every configuration the filter accepts, keeps its length,
  and the result is accepted with exactly the same interface descriptors: no class field that the
  policy was evaluated on can change after the check.\<close>

theorem patch_keeps_acceptance:
  assumes "descriptor_search parse" "acceptable allowed p ds" "length p \<le> fuel"
  shows "\<exists>p' ds'. patch_configuration_for_udecx parse fuel p speed = Some p' \<and>
    length p' = length p \<and> acceptable allowed p' ds' \<and>
    filter is_interface ds' = filter is_interface ds"
  using assms by (rule patch_configuration_acceptable)

theorem patch_keeps_acceptance_witness:
  "\<exists>p' ds'. patch_configuration_for_udecx find_loop 100
      [9, 2, 25, 0, 1, 1, 0, 128, 50, 9, 4, 0, 0, 1, 3, 1, 2, 0, 7, 5, 129, 3, 8, 0, 10] 2 = Some p' \<and>
    acceptable (\<lambda>_. True) p' ds' \<and> filter is_interface ds' = [[9, 4, 0, 0, 1, 3, 1, 2, 0]]"
proof -
  let ?ds = "[[9, 2, 25, 0, 1, 1, 0, 128, 50], [9, 4, 0, 0, 1, 3, 1, 2, 0], [7, 5, 129, 3, 8, 0, 10]] :: bytes list"
  have "acceptable (\<lambda>_. True) (concat ?ds) ?ds"
    by (simp add: acceptable_def valid_header_def well_sized_def descriptor_ok_def is_interface_def
        interface_numbers_def conj_disj_distribR Collect_disj_eq image_Un Collect_conv_if)
  from patch_keeps_acceptance [OF own_search.descriptor_search_axioms this, of 100 2] show ?thesis
    by (auto simp: is_interface_def)
qed

end
