(* ===== verification/Network.thy ===== *)
theory Network
  imports Protocol
begin

text \<open>
  Synchronous transfers: \<open>wsk::send\<close>, \<open>wsk::receive\<close> and \<open>transfer\<close> of
  \<open>drivers/libdrv/wsk_cpp.cpp\<close>, and \<open>send\<close>, \<open>recv\<close>, \<open>recv_op_common\<close> and
  \<open>make_transfer_buffer_mdl\<close> of \<open>drivers/ude/network.cpp\<close>.

  Windows and the remote server are the environment. It is a script: the statuses that preparing
  an MDL will have, the outcomes of the successive calls of \<open>WskSend\<close> (status and bytes taken)
  and \<open>WskReceive\<close> (status and bytes delivered), and the outcomes of pool allocations. Every
  script is allowed, so a theorem about all environments covers every server, however hostile. A
  call beyond the end of a script fails as on a closed connection. The log holds what was sent.
\<close>

record kenv =
  mdl_prepare :: "ntstatus list"
  sends :: "(ntstatus \<times> nat) list"
  receives :: "(ntstatus \<times> bytes) list"
  allocs :: "bool list"
  sent_log :: "bytes list"

section \<open>The environment's answers\<close>

definition prepare_mdl :: "kenv \<Rightarrow> ntstatus \<times> kenv" where
  "prepare_mdl env =
     (case mdl_prepare env of
        [] \<Rightarrow> (STATUS_SUCCESS, env)
      | st # r \<Rightarrow> (st, env\<lparr>mdl_prepare := r\<rparr>))"

definition pool_alloc :: "kenv \<Rightarrow> bool \<times> kenv" where
  "pool_alloc env =
     (case allocs env of
        [] \<Rightarrow> (False, env)
      | ok # r \<Rightarrow> (ok, env\<lparr>allocs := r\<rparr>))"

definition WskSend :: "kenv \<Rightarrow> bytes \<Rightarrow> ntstatus \<times> nat \<times> kenv" where
  "WskSend env buf =
     (case sends env of
        [] \<Rightarrow> (STATUS_CONNECTION_DISCONNECTED, 0, env)
      | (st, n) # r \<Rightarrow> (st, n, env\<lparr>sends := r, sent_log := sent_log env @ [buf]\<rparr>))"

text \<open>No more than the length of the buffer is delivered.\<close>

definition WskReceive :: "kenv \<Rightarrow> nat \<Rightarrow> ntstatus \<times> bytes \<times> kenv" where
  "WskReceive env len =
     (case receives env of
        [] \<Rightarrow> (STATUS_CONNECTION_DISCONNECTED, [], env)
      | (st, data) # r \<Rightarrow> (st, take len data, env\<lparr>receives := r\<rparr>))"

section \<open>wsk::send and wsk::receive\<close>

text \<open>\<open>transfer\<close> reports the count of the IRP only for a successful status.\<close>

definition transfer_send :: "kenv \<Rightarrow> bytes \<Rightarrow> ntstatus \<times> nat \<times> kenv" where
  "transfer_send env buf =
     (case WskSend env buf of (st, info, env) \<Rightarrow> (st, if NT_SUCCESS st then info else 0, env))"

definition transfer_recv :: "kenv \<Rightarrow> nat \<Rightarrow> ntstatus \<times> bytes \<times> nat \<times> kenv" where
  "transfer_recv env len =
     (case WskReceive env len of
        (st, data, env) \<Rightarrow> (st, data, if NT_SUCCESS st then length data else 0, env))"

definition wsk_send :: "kenv \<Rightarrow> bytes \<Rightarrow> ntstatus \<times> kenv" where
  "wsk_send env buf =
     (case transfer_send env buf of
        (st, sent, env) \<Rightarrow>
          (if NT_SUCCESS st \<and> sent \<noteq> length buf then STATUS_PARTIAL_COPY else st, env))"

text \<open>The form without \<open>actual\<close>, which waits for all bytes.\<close>

definition wsk_receive :: "kenv \<Rightarrow> nat \<Rightarrow> ntstatus \<times> bytes \<times> kenv" where
  "wsk_receive env len =
     (case transfer_recv env len of
        (st, data, received, env) \<Rightarrow>
          (if NT_SUCCESS st \<and> received \<noteq> len then STATUS_RECEIVE_PARTIAL else st, data, env))"

section \<open>network.cpp\<close>

definition send :: "kenv \<Rightarrow> bytes \<Rightarrow> ntstatus \<times> kenv" where
  "send env data =
     (case prepare_mdl env of
        (err, env) \<Rightarrow> if err \<noteq> STATUS_SUCCESS then (err, env) else wsk_send env data)"

text \<open>\<open>recv env buf len\<close> receives \<open>len\<close> bytes to the start of the memory \<open>buf\<close>.\<close>

definition recv :: "kenv \<Rightarrow> bytes \<Rightarrow> nat \<Rightarrow> ntstatus \<times> bytes \<times> kenv" where
  "recv env buf len =
     (case prepare_mdl env of
        (err, env) \<Rightarrow>
          if err \<noteq> STATUS_SUCCESS then (err, buf, env)
          else case wsk_receive env len of
            (st, data, env) \<Rightarrow> (st, overwrite buf 0 data, env))"

definition recv_op_common :: "kenv \<Rightarrow> u16 \<Rightarrow> ntstatus \<times> kenv" where
  "recv_op_common env expected_code =
     (case recv env (replicate 8 0) 8 of
        (err, bs, env) \<Rightarrow>
          if err \<noteq> STATUS_SUCCESS then (err, env)
          else
            let r = byteswap_op_common (op_common_of_bytes bs) in
            if op_version r \<noteq> USBIP_VERSION then (USBIP_ERROR_VERSION, env)
            else if op_code r \<noteq> expected_code then (USBIP_ERROR_PROTOCOL, env)
            else (op_status_error (op_status r), env))"

section \<open>Transfer buffers\<close>

datatype lock_operation = IoReadAccess | IoWriteAccess

text \<open>The buffer of a URB: its length, the sizes of the MDLs of \<open>TransferBufferMDL\<close> (empty for a
  null pointer) and whether \<open>TransferBuffer\<close> is set.\<close>

record urb_buffer =
  TransferBufferLength :: u32
  TransferBufferMDL :: "nat list"
  has_TransferBuffer :: bool

datatype made_mdl = no_mdl | partial_mdl nat | buffer_mdl nat

definition URB_BUF_LEN :: u32 where "URB_BUF_LEN = - 1"

text \<open>\<open>mapped\<close> and \<open>alloc_ok\<close> are the results of \<open>MmGetSystemAddressForMdlSafe\<close> and of building the
  partial MDL.\<close>

definition make_transfer_buffer_mdl ::
  "kenv \<Rightarrow> u32 \<Rightarrow> lock_operation \<Rightarrow> urb_buffer \<Rightarrow> bool \<Rightarrow> bool \<Rightarrow> ntstatus \<times> made_mdl \<times> kenv" where
  "make_transfer_buffer_mdl env mdl_size operation r mapped alloc_ok =
     (if mdl_size \<noteq> URB_BUF_LEN \<and> mdl_size > TransferBufferLength r
      then (STATUS_INVALID_PARAMETER, no_mdl, env)
      else
        let sz = (if mdl_size = URB_BUF_LEN then TransferBufferLength r else mdl_size) in
        if sz = 0 then (STATUS_SUCCESS, no_mdl, env)
        else
          let build = (\<lambda>env. case prepare_mdl env of
                (st, env) \<Rightarrow> (st, if st \<noteq> STATUS_SUCCESS then no_mdl else buffer_mdl (unat sz), env))
          in case TransferBufferMDL r of
               head # rest \<Rightarrow>
                 let len = sum_list (head # rest) mod 2 ^ 32 in
                 if len < unat sz \<and> (rest \<noteq> [] \<or> operation = IoReadAccess)
                 then (STATUS_BUFFER_TOO_SMALL, no_mdl, env)
                 else if rest = []
                 then if alloc_ok then (STATUS_SUCCESS, partial_mdl (min len (unat sz)), env)
                      else (STATUS_INSUFFICIENT_RESOURCES, no_mdl, env)
                 else if \<not> mapped then (STATUS_UNSUCCESSFUL, no_mdl, env)
                 else build env
             | [] \<Rightarrow>
                 if has_TransferBuffer r then build env
                 else (STATUS_INVALID_PARAMETER, no_mdl, env))"

section \<open>Lemmas\<close>

lemma wsk_receive_success:
  assumes "wsk_receive env len = (STATUS_SUCCESS, data, env')"
  shows "length data = len"
  using assms by (auto simp: wsk_receive_def transfer_recv_def split: prod.splits if_splits)

lemma wsk_receive_length: "wsk_receive env len = (st, data, env') \<Longrightarrow> length data \<le> len"
  by (auto simp: wsk_receive_def transfer_recv_def WskReceive_def split: prod.splits list.splits)

lemma recv_success:
  assumes "recv env buf len = (STATUS_SUCCESS, buf', env')" "len \<le> length buf"
  shows "\<exists>data. length data = len \<and> buf' = overwrite buf 0 data"
  using assms by (auto simp: recv_def dest: wsk_receive_success split: prod.splits if_splits)

lemma length_recv:
  assumes "recv env buf len = (st, buf', env')" "len \<le> length buf"
  shows "length buf' = length buf"
  using assms by (auto simp: recv_def dest!: wsk_receive_length split: prod.splits if_splits)

text \<open>The allocations that remain are not touched by transfers.\<close>

lemma allocs_transfer [simp]:
  "allocs (snd (send env data)) = allocs env" "allocs (snd (snd (recv env buf len))) = allocs env"
  by (auto simp: send_def wsk_send_def transfer_send_def WskSend_def recv_def wsk_receive_def
      transfer_recv_def WskReceive_def prepare_mdl_def split: prod.splits list.splits)

section \<open>Properties\<close>

text \<open>\<open>recv_op_common\<close> succeeds exactly when a complete eight byte header was received whose
  version, code and status, in network order, are the supported version, the expected code and
  zero.\<close>

lemma recv_op_common_success:
  "fst (recv_op_common env code) = STATUS_SUCCESS \<longleftrightarrow>
   fst (recv env (replicate 8 0) 8) = STATUS_SUCCESS \<and>
   fst (snd (recv env (replicate 8 0) 8)) = rev (le16 USBIP_VERSION) @ rev (le16 code) @ replicate 4 0"
proof -
  obtain st bs env' where r: "recv env (replicate 8 0) 8 = (st, bs, env')"
    by (metis prod_cases3)
  have iff: "bs = op_common_bytes (byteswap_op_common c) \<longleftrightarrow> byteswap_op_common (op_common_of_bytes bs) = c"
    if "length bs = 8" for c
    using op_common_codec.sent_is_received [of c] op_common_codec.received_is_sent [OF that] by auto
  have image: "op_common_bytes (byteswap_op_common \<lparr>op_version = USBIP_VERSION, op_code = code, op_status = 0\<rparr>) =
      rev (le16 USBIP_VERSION) @ rev (le16 code) @ replicate 4 0"
    by (simp add: op_common_bytes_def byteswap_op_common_def le16_bswap16 le32_bswap32)
      (simp add: le32_def numeral_eq_Suc)
  show ?thesis
  proof (cases "st = STATUS_SUCCESS")
    case True
    then have "length bs = 8" using length_recv [OF r] by simp
    note iff [OF this, of "\<lparr>op_version = USBIP_VERSION, op_code = code, op_status = 0\<rparr>"]
    moreover obtain v c s where "byteswap_op_common (op_common_of_bytes bs) =
        \<lparr>op_version = v, op_code = c, op_status = s\<rparr>" by (metis op_common.cases)
    ultimately show ?thesis
      using True image by (auto simp: recv_op_common_def r Let_def op_status_error_zero)
  qed (simp add: recv_op_common_def r)
qed

text \<open>An MDL that \<open>make_transfer_buffer_mdl\<close> builds never covers more than the transfer buffer
  of the URB: not more than \<open>TransferBufferLength\<close> bytes, and not more than a single locked MDL has.\<close>

lemma make_transfer_buffer_mdl_bound:
  assumes "make_transfer_buffer_mdl env mdl_size operation r mapped alloc_ok = (st, m, env')"
  shows "(\<forall>n. m = buffer_mdl n \<or> m = partial_mdl n \<longrightarrow> n \<le> unat (TransferBufferLength r)) \<and>
    (\<forall>n. m = partial_mdl n \<longrightarrow> n \<le> sum_list (TransferBufferMDL r)) \<and>
    (st \<noteq> STATUS_SUCCESS \<longrightarrow> m = no_mdl)"
proof -
  have "sz \<le> TransferBufferLength r"
    if "\<not> (mdl_size \<noteq> URB_BUF_LEN \<and> mdl_size > TransferBufferLength r)"
      "sz = (if mdl_size = URB_BUF_LEN then TransferBufferLength r else mdl_size)" for sz
    using that by (auto simp: not_less)
  then show ?thesis
    using assms
    by (auto simp: make_transfer_buffer_mdl_def Let_def word_le_nat_alt word_less_nat_alt not_less
        intro: le_trans [OF min.cobounded1] le_trans [OF min.cobounded2]
        split: if_splits list.splits prod.splits)
qed

text \<open>An environment in which everything fails.\<close>

definition idle_env :: kenv where
  "idle_env = \<lparr>mdl_prepare = [], sends = [], receives = [], allocs = [], sent_log = []\<rparr>"

end
