(* ===== verification/Device_Filter.thy ===== *)
theory Device_Filter
  imports Filter_Policy Descriptor_Patch Network
begin

text \<open>
  The attach-time filter of \<open>drivers/ude/device_filter.cpp\<close>: the formatting helpers,
  \<open>get_descriptor\<close>, \<open>snapshot_device_descriptor\<close>, \<open>check_configuration\<close> and \<open>check_device\<close>.

  The state is \<open>device_ctx_ext\<close> as far as the filter reads or writes it, the environment of
  \<open>Network\<close>, and the rejections that \<open>report_rejection\<close> was called with, in order, with the
  whitelist text they print. The text of the event-log record itself is not modelled.
  \<open>USBD_ParseDescriptors\<close>, which the endpoint conversion calls, is the parameter \<open>parse\<close>; a result
  \<open>None\<close> stands for a conversion loop that does not end within
  \<open>wTotalLength\<close> rounds, which the properties exclude: a round passes at least two bytes.
\<close>

section \<open>State\<close>

record rejection =
  rej_reason :: string
  rej_ifnum :: int
  rej_cls :: u8
  rej_sub :: u8
  rej_proto :: u8
  rej_whitelist :: string

record device_ext =
  ext_devid :: u32
  ext_speed :: int
  ext_serial :: bytes
  ext_iserial :: u8
  snap_device :: bytes
  snap_configurations :: "bytes option list"
  snap_configuration_count :: nat
  snap_ready :: bool
  kernel :: kenv
  rejections :: "rejection list"

section \<open>Formatting\<close>

definition usb_class_name :: "u8 \<Rightarrow> string" where
  "usb_class_name c =
     (case map_of
        [(0x00, ''per-interface''), (0x01, ''Audio''), (0x02, ''Communications/CDC''), (0x03, ''HID''),
         (0x05, ''Physical''), (0x06, ''Image''), (0x07, ''Printer''), (0x08, ''Mass Storage''),
         (0x09, ''Hub''), (0x0A, ''CDC-Data''), (0x0B, ''Smart Card''), (0x0D, ''Content Security''),
         (0x0E, ''Video''), (0x0F, ''Personal Healthcare''), (0x10, ''Audio/Video''),
         (0x11, ''Billboard''), (0x12, ''USB Type-C Bridge''), (0xDC, ''Diagnostic''),
         (0xE0, ''Wireless Controller''), (0xEF, ''Miscellaneous''), (0xFE, ''Application Specific''),
         (0xFF, ''Vendor Specific'')] c of
        Some s \<Rightarrow> s
      | None \<Rightarrow> ''Unknown'')"

definition hex_digit :: "nat \<Rightarrow> char" where
  "hex_digit n = (''0123456789ABCDEF'' ! n)"

text \<open>The format \<open>%02X\<close> of a byte, and two stars for a field that is not compared.\<close>

definition format_match_field :: "bool \<Rightarrow> u8 \<Rightarrow> string" where
  "format_match_field matched v =
     (if matched then [hex_digit (unat v div 16), hex_digit (unat v mod 16)] else ''**'')"

definition format_entry :: "device_filter_entry \<Rightarrow> string" where
  "format_entry e =
     format_match_field (match_flags e AND FILTER_MATCH_CLASS \<noteq> 0) (bClass e) @ ''/'' @
     format_match_field (match_flags e AND FILTER_MATCH_SUBCLASS \<noteq> 0) (bSubClass e) @ ''/'' @
     format_match_field (match_flags e AND FILTER_MATCH_PROTOCOL \<noteq> 0) (bProtocol e)"

text \<open>\<open>RtlStringCchCatW\<close> and \<open>RtlStringCchCopyW\<close> keep the text and its terminator within \<open>cch\<close>
  characters.\<close>

definition StringCchCat :: "string \<Rightarrow> nat \<Rightarrow> string \<Rightarrow> string" where
  "StringCchCat buf cch s = take (cch - 1) (buf @ s)"

fun format_whitelist_loop :: "device_filter_entry list \<Rightarrow> bool \<Rightarrow> nat \<Rightarrow> string \<Rightarrow> string" where
  "format_whitelist_loop [] first cch buf = buf"
| "format_whitelist_loop (e # es) first cch buf =
     (let item = (if first then format_entry e else '', '' @ format_entry e);
          reserve_for_ellipsis = 6
      in if length buf + length item + reserve_for_ellipsis \<ge> cch
         then StringCchCat buf cch '', ...''
         else format_whitelist_loop es False cch (StringCchCat buf cch item))"

definition format_whitelist :: "policy \<Rightarrow> nat \<Rightarrow> string" where
  "format_whitelist p cch =
     (if pol_count p = 0 then StringCchCat [] cch ''(empty)''
      else format_whitelist_loop (take (unat (pol_count p)) (entries p)) True cch [])"

definition report_rejection ::
  "device_ext \<Rightarrow> policy \<Rightarrow> string \<Rightarrow> int \<Rightarrow> u8 \<Rightarrow> u8 \<Rightarrow> u8 \<Rightarrow> device_ext" where
  "report_rejection ext p reason ifnum c s pr =
     ext\<lparr>rejections := rejections ext @
       [\<lparr>rej_reason = reason, rej_ifnum = ifnum, rej_cls = c, rej_sub = s, rej_proto = pr,
         rej_whitelist = format_whitelist p 128\<rparr>]\<rparr>"

section \<open>Descriptor requests\<close>

definition get_descriptor_header :: "u32 \<Rightarrow> u32 \<Rightarrow> u8 \<Rightarrow> u8 \<Rightarrow> u16 \<Rightarrow> header" where
  "get_descriptor_header dev seq type index len =
     zero_header\<lparr>command := request_type_code CMD_SUBMIT, seqnum := seq, devid := dev,
       direction := direction_in, ep := 0,
       un0 := 0, un1 := ucast len, un2 := 0, un3 := word_of_int number_of_packets_non_isoch, un4 := 0,
       setup_pkt := [0x80, 0x06, index, type, 0, 0, ucast len, ucast (drop_bit 8 len)]\<rparr>"

text \<open>Returns the status, the memory of the caller's buffer, the number of bytes received, the
  next sequence number and the environment.\<close>

definition get_descriptor ::
  "device_ext \<Rightarrow> u32 \<Rightarrow> u8 \<Rightarrow> u8 \<Rightarrow> bytes \<Rightarrow> u16 \<Rightarrow> ntstatus \<times> bytes \<times> nat \<times> u32 \<times> device_ext" where
  "get_descriptor ext seq type index buf len =
     (let hdr = byteswap_header (get_descriptor_header (ext_devid ext) seq type index len) host2net in
      case send (kernel ext) (header_bytes hdr) of
        (err, env) \<Rightarrow>
          let ext = ext\<lparr>kernel := env\<rparr>; seq = seq + 1 in
          if err \<noteq> STATUS_SUCCESS then (err, buf, 0, seq, ext)
          else case recv env (replicate sizeof_header 0) sizeof_header of
            (err, rep_bytes, env) \<Rightarrow>
              let ext = ext\<lparr>kernel := env\<rparr> in
              if err \<noteq> STATUS_SUCCESS then (err, buf, 0, seq, ext)
              else
                let rep = byteswap_header (header_of_bytes rep_bytes) net2host; n = actual_length rep in
                if command rep \<noteq> request_type_code RET_SUBMIT then (USBIP_ERROR_PROTOCOL, buf, 0, seq, ext)
                else if ret_status rep \<noteq> 0 then (USBIP_ERROR_GENERAL, buf, 0, seq, ext)
                else if n < 0 \<or> n > int (unat len) then (USBIP_ERROR_PROTOCOL, buf, 0, seq, ext)
                else if n \<noteq> 0 then
                  case recv env buf (nat n) of
                    (err, buf, env) \<Rightarrow>
                      let ext = ext\<lparr>kernel := env\<rparr> in
                      if err \<noteq> STATUS_SUCCESS then (err, buf, 0, seq, ext)
                      else (STATUS_SUCCESS, buf, nat n, seq, ext)
                else (STATUS_SUCCESS, buf, nat n, seq, ext))"

text \<open>The fields of \<open>USB_DEVICE_DESCRIPTOR\<close> that are compared with the import identity.\<close>

definition device_consistent :: "bytes \<Rightarrow> usbip_usb_device \<Rightarrow> bool" where
  "device_consistent d udev \<longleftrightarrow>
     of_le16 (slice 8 2 d) = ud_idVendor udev \<and>
     of_le16 (slice 10 2 d) = ud_idProduct udev \<and>
     of_le16 (slice 12 2 d) = ud_bcdDevice udev \<and>
     d ! 4 = ud_bDeviceClass udev \<and>
     d ! 5 = ud_bDeviceSubClass udev \<and>
     d ! 6 = ud_bDeviceProtocol udev \<and>
     d ! 17 = ud_bNumConfigurations udev"

definition snapshot_device_descriptor ::
  "device_ext \<Rightarrow> policy \<Rightarrow> usbip_usb_device \<Rightarrow> u32 \<Rightarrow> ntstatus \<times> u32 \<times> device_ext" where
  "snapshot_device_descriptor ext p udev seq =
     (case get_descriptor ext seq 1 0 (replicate 18 0) 18 of
        (err, device, actual, seq, ext) \<Rightarrow>
          if err \<noteq> STATUS_SUCCESS
          then (USBIP_ERROR_DEVICE_FILTERED, seq,
                report_rejection ext p ''device descriptor fetch failed'' (- 1) 0 0 0)
          else if actual \<noteq> 18 \<or> \<not> is_valid_device device
          then (USBIP_ERROR_DEVICE_FILTERED, seq,
                report_rejection ext p ''invalid device descriptor'' (- 1) 0 0 0)
          else if \<not> device_consistent device udev
          then (USBIP_ERROR_DEVICE_FILTERED, seq,
                report_rejection ext p ''device descriptor differs from import identity'' (- 1)
                  (device ! 4) (device ! 5) (device ! 6))
          else
            let has_serial = ext_serial ext \<noteq> [] \<and> ext_serial ext ! 0 \<noteq> 0;
                device = (if has_serial \<and> device ! 16 = 0 then device[16 := 0xFF] else device);
                ext = (if has_serial then ext\<lparr>ext_iserial := device ! 16\<rparr> else ext)
            in (STATUS_SUCCESS, seq, ext\<lparr>snap_device := device\<rparr>))"

section \<open>Configurations\<close>

definition MAX_CONFIG_DESCRIPTOR_SIZE :: nat where "MAX_CONFIG_DESCRIPTOR_SIZE = 0xFFFF"

definition allowed_by :: "policy \<Rightarrow> interface_class \<Rightarrow> bool" where
  "allowed_by p i = is_allowed p (cls i) (subcls i) (protocol i)"

text \<open>Returns the status, the published bytes, the next sequence number and the state.\<close>

definition check_configuration ::
  "(bytes \<Rightarrow> nat \<Rightarrow> nat \<Rightarrow> u8 \<Rightarrow> nat option) \<Rightarrow> device_ext \<Rightarrow> policy \<Rightarrow> u32 \<Rightarrow> u8 \<Rightarrow>
   (ntstatus \<times> bytes option \<times> u32 \<times> device_ext) option" where
  "check_configuration parse ext p seq cfg_index =
     (let reject = (\<lambda>ext seq reason ifnum c s pr.
        Some (USBIP_ERROR_DEVICE_FILTERED, None, seq, report_rejection ext p reason ifnum c s pr)) in
      case get_descriptor ext seq 2 cfg_index (replicate 9 0) 9 of
        (err, head, got, seq, ext) \<Rightarrow>
          if err \<noteq> STATUS_SUCCESS
          then reject ext seq ''config descriptor header fetch failed'' (- 1) 0 0 0
          else if got < 9 \<or> \<not> is_valid_configuration head
          then reject ext seq ''invalid config descriptor'' (- 1) 0 0 0
          else
            let total = wTotalLength head in
            if total < 9 \<or> total > MAX_CONFIG_DESCRIPTOR_SIZE
            then reject ext seq ''bad config wTotalLength'' (- 1) 0 0 0
            else case pool_alloc (kernel ext) of
              (ok, env) \<Rightarrow>
                let ext = ext\<lparr>kernel := env\<rparr> in
                if \<not> ok
                then reject ext seq ''out of memory for config descriptor'' (- 1) 0 0 0
                else case get_descriptor ext seq 2 cfg_index (replicate total 0) (of_nat total) of
                  (err, buf, full, seq, ext) \<Rightarrow>
                    if err \<noteq> STATUS_SUCCESS
                    then reject ext seq ''full config descriptor fetch failed'' (- 1) 0 0 0
                    else if full < total
                    then reject ext seq ''short config descriptor'' (- 1) 0 0 0
                    else
                      let result = evaluate_configuration (take full buf) (allowed_by p);
                          bad = offending_interface result;
                          is_iface = (error result = interface_not_allowed)
                      in if error result \<noteq> err_none
                         then reject ext seq (descriptor_error_reason (error result))
                           (if is_iface then int (unat (intf_number bad)) else - 1)
                           (if is_iface then cls bad else 0) (if is_iface then subcls bad else 0)
                           (if is_iface then protocol bad else 0)
                         else case patch_configuration_for_udecx parse total buf (ext_speed ext) of
                           None \<Rightarrow> None
                         | Some buf \<Rightarrow> Some (STATUS_SUCCESS, Some (take full buf), seq, ext))"

text \<open>The loop over the configurations from index \<open>i\<close> with \<open>n\<close> left.\<close>

primrec check_configurations ::
  "(bytes \<Rightarrow> nat \<Rightarrow> nat \<Rightarrow> u8 \<Rightarrow> nat option) \<Rightarrow> policy \<Rightarrow> nat \<Rightarrow> nat \<Rightarrow> u32 \<Rightarrow> device_ext \<Rightarrow>
   (ntstatus \<times> device_ext) option" where
  "check_configurations parse p 0 i seq ext = Some (STATUS_SUCCESS, ext)"
| "check_configurations parse p (Suc n) i seq ext =
     (case check_configuration parse ext p seq (of_nat i) of
        None \<Rightarrow> None
      | Some (err, data, seq, ext) \<Rightarrow>
          if err \<noteq> STATUS_SUCCESS then Some (err, ext)
          else check_configurations parse p n (i + 1) seq
            (ext\<lparr>snap_configurations := (snap_configurations ext)[i := data]\<rparr>))"

text \<open>The part of \<open>check_device\<close> from the allocation of the array on.\<close>

definition snapshot_configurations ::
  "(bytes \<Rightarrow> nat \<Rightarrow> nat \<Rightarrow> u8 \<Rightarrow> nat option) \<Rightarrow> policy \<Rightarrow> nat \<Rightarrow> u32 \<Rightarrow> device_ext \<Rightarrow>
   (ntstatus \<times> device_ext) option" where
  "snapshot_configurations parse p cnt seq ext =
     (case pool_alloc (kernel ext) of
        (ok, env) \<Rightarrow>
          let ext = ext\<lparr>kernel := env\<rparr> in
          if \<not> ok
          then Some (USBIP_ERROR_DEVICE_FILTERED,
            report_rejection ext p ''out of memory for descriptor snapshot'' (- 1) 0 0 0)
          else
            let ext = ext\<lparr>snap_configurations := replicate cnt None, snap_configuration_count := cnt\<rparr>
            in case check_configurations parse p cnt 0 seq ext of
                 None \<Rightarrow> None
               | Some (err, ext) \<Rightarrow>
                   if err \<noteq> STATUS_SUCCESS then Some (err, ext)
                   else Some (STATUS_SUCCESS, ext\<lparr>snap_ready := True\<rparr>))"

definition check_device ::
  "'r registry_api \<Rightarrow> 'r \<Rightarrow> bytes \<Rightarrow> (bytes \<Rightarrow> nat \<Rightarrow> nat \<Rightarrow> u8 \<Rightarrow> nat option) \<Rightarrow>
   device_ext \<Rightarrow> usbip_usb_device \<Rightarrow> (ntstatus \<times> device_ext) option" where
  "check_device api r tmp parse ext udev =
     (let p = load api r tmp in
      if ud_bDeviceClass udev \<noteq> 0 \<and> ud_bDeviceClass udev \<noteq> 0xEF \<and>
         \<not> is_allowed p (ud_bDeviceClass udev) (ud_bDeviceSubClass udev) (ud_bDeviceProtocol udev)
      then Some (USBIP_ERROR_DEVICE_FILTERED,
        report_rejection ext p ''device class not in whitelist'' (- 1)
          (ud_bDeviceClass udev) (ud_bDeviceSubClass udev) (ud_bDeviceProtocol udev))
      else if ud_bNumConfigurations udev = 0
      then Some (USBIP_ERROR_DEVICE_FILTERED,
        report_rejection ext p ''device reports no configurations'' (- 1) 0 0 0)
      else case snapshot_device_descriptor ext p udev 1 of
        (err, seq, ext) \<Rightarrow>
          if err \<noteq> STATUS_SUCCESS then Some (err, ext)
          else snapshot_configurations parse p (unat (ud_bNumConfigurations udev)) seq ext)"

section \<open>Lemmas\<close>

text \<open>A step of the filter changes the environment only, or also reports one rejection.\<close>

definition io_only :: "device_ext \<Rightarrow> device_ext \<Rightarrow> bool" where
  "io_only ext ext' \<longleftrightarrow> (\<exists>env. ext' = ext\<lparr>kernel := env\<rparr>)"

definition rejected :: "device_ext \<Rightarrow> device_ext \<Rightarrow> bool" where
  "rejected ext ext' \<longleftrightarrow> (\<exists>env x. ext' = ext\<lparr>kernel := env, rejections := rejections ext @ [x]\<rparr>)"

lemma io_only_refl [simp]: "io_only ext ext"
  unfolding io_only_def by (rule exI [of _ "kernel ext"]) simp

lemma io_only_trans [trans]: "io_only a b \<Longrightarrow> io_only b c \<Longrightarrow> io_only a c"
  unfolding io_only_def by fastforce

lemma io_only_kernel [simp]: "io_only ext (ext\<lparr>kernel := env\<rparr>)"
  unfolding io_only_def by blast

lemma io_only_report: "io_only ext ext' \<Longrightarrow> rejected ext (report_rejection ext' p r i c s pr)"
  unfolding io_only_def rejected_def report_rejection_def by fastforce

lemma io_only_fields:
  assumes "io_only ext ext'"
  shows "snap_ready ext' = snap_ready ext" "snap_device ext' = snap_device ext"
    "snap_configurations ext' = snap_configurations ext" "ext_speed ext' = ext_speed ext"
    "snap_configuration_count ext' = snap_configuration_count ext" "rejections ext' = rejections ext"
    "ext_serial ext' = ext_serial ext"
  using assms by (auto simp: io_only_def)

lemma rejected_fields:
  assumes "rejected ext ext'"
  shows "snap_ready ext' = snap_ready ext" "length (rejections ext') = Suc (length (rejections ext))"
  using assms by (auto simp: rejected_def)

lemma get_descriptor_same:
  assumes "get_descriptor ext seq type index buf len = (st, buf', n, seq', ext')"
  shows "io_only ext ext'"
  using assms by (auto simp: get_descriptor_def Let_def split: prod.splits if_splits)

lemma get_descriptor_payload:
  assumes "get_descriptor ext seq type index buf len = (st, buf', n, seq', ext')"
  shows "buf' = buf \<and> n = 0 \<or>
    (\<exists>env m st' env'. m \<le> unat len \<and> recv env buf m = (st', buf', env') \<and> n \<le> m)"
proof -
  obtain err env where s: "send (kernel ext) (header_bytes (byteswap_header
      (get_descriptor_header (ext_devid ext) seq type index len) host2net)) = (err, env)"
    by (metis surj_pair)
  obtain err2 bs env2 where h: "recv env (replicate sizeof_header 0) sizeof_header = (err2, bs, env2)"
    by (metis prod_cases3)
  define a where "a = actual_length (byteswap_header (header_of_bytes bs) net2host)"
  obtain err3 buf3 env3 where p: "recv env2 buf (nat a) = (err3, buf3, env3)"
    by (metis prod_cases3)
  show ?thesis
  proof (cases "buf' = buf \<and> n = 0")
    case False
    then have "\<not> (a < 0 \<or> a > int (unat len))" "buf' = buf3" "n \<le> nat a"
      using assms s h p by (auto simp: get_descriptor_def Let_def a_def split: if_splits)
    then have "nat a \<le> unat len" by (simp add: nat_le_iff)
    then show ?thesis using p \<open>buf' = buf3\<close> \<open>n \<le> nat a\<close> by blast
  qed simp
qed

lemma get_descriptor_length:
  assumes "get_descriptor ext seq type index buf len = (st, buf', n, seq', ext')" "unat len \<le> length buf"
  shows "length buf' = length buf" "n \<le> unat len"
  using get_descriptor_payload [OF assms(1)] assms(2) by (auto dest!: length_recv)

text \<open>The branches of \<open>check_configuration\<close>: a rejection, or the bytes that were accepted.\<close>

lemma check_configuration_cases:
  assumes "descriptor_search parse"
  obtains (reject) seq' ext' where
      "check_configuration parse ext p seq i = Some (USBIP_ERROR_DEVICE_FILTERED, None, seq', ext')"
      "rejected ext ext'"
  | (accept) d ds seq' ext' where
      "check_configuration parse ext p seq i = Some (STATUS_SUCCESS, Some d, seq', ext')"
      "acceptable (allowed_by p) d ds" "io_only ext ext'"
proof -
  obtain st1 head got seq1 ext1 where g1:
    "get_descriptor ext seq 2 i (replicate 9 0) 9 = (st1, head, got, seq1, ext1)"
    by (metis prod_cases5)
  have s1: "io_only ext ext1" using get_descriptor_same [OF g1] .
  define total where "total = wTotalLength head"
  obtain ok env where pa: "pool_alloc (kernel ext1) = (ok, env)" by (metis surj_pair)
  define ext2 where "ext2 = ext1\<lparr>kernel := env\<rparr>"
  obtain st3 buf full seq3 ext3 where g3:
    "get_descriptor ext2 seq1 2 i (replicate total 0) (of_nat total) = (st3, buf, full, seq3, ext3)"
    by (metis prod_cases5)
  have s2: "io_only ext ext2" unfolding ext2_def by (rule io_only_trans [OF s1 io_only_kernel])
  have s3: "io_only ext ext3" using s2 get_descriptor_same [OF g3] by (rule io_only_trans)
  note rej = io_only_report [of ext _ p]
  show thesis
  proof (cases "st1 = STATUS_SUCCESS \<and> \<not> got < 9 \<and> is_valid_configuration head \<and>
      \<not> total < 9 \<and> \<not> total > MAX_CONFIG_DESCRIPTOR_SIZE \<and> ok \<and> st3 = STATUS_SUCCESS \<and> \<not> full < total \<and>
      error (evaluate_configuration (take full buf) (allowed_by p)) = err_none")
    case False
    then have "\<exists>seq' ext'. check_configuration parse ext p seq i =
        Some (USBIP_ERROR_DEVICE_FILTERED, None, seq', ext') \<and> rejected ext ext'"
      using rej [OF s1] rej [OF s2] rej [OF s3] g1 g3 pa
      by (auto simp: check_configuration_def Let_def total_def ext2_def)
    then show thesis using reject by blast
  next
    case True
    then have tot: "total \<le> 65535" "unat (of_nat total :: u16) = total"
      by (auto simp: MAX_CONFIG_DESCRIPTOR_SIZE_def unat_of_nat take_bit_nat_eq_self)
    have len: "length buf = total" "full = total"
      using get_descriptor_length [OF g3] tot True by auto
    obtain ds where ds: "acceptable (allowed_by p) buf ds"
      using True len evaluate_configuration_accepts by auto
    obtain d ds' where d: "patch_configuration_for_udecx parse total buf (ext_speed ext3) = Some d"
      "length d = length buf" "acceptable (allowed_by p) d ds'"
      using patch_configuration_acceptable [OF assms ds, of total "ext_speed ext3"] len
      by auto
    have "check_configuration parse ext p seq i = Some (STATUS_SUCCESS, Some d, seq3, ext3)"
      using True g1 g3 pa d len by (simp add: check_configuration_def Let_def total_def ext2_def)
    then show thesis using accept d(3) s3 by blast
  qed
qed

lemma check_configurations_result:
  assumes "descriptor_search parse" "i + n \<le> length (snap_configurations ext)"
  obtains (reject) ext' where
      "check_configurations parse p n i seq ext = Some (USBIP_ERROR_DEVICE_FILTERED, ext')"
      "snap_ready ext' = snap_ready ext" "length (rejections ext') = Suc (length (rejections ext))"
  | (accept) ext' where
      "check_configurations parse p n i seq ext = Some (STATUS_SUCCESS, ext')"
      "snap_device ext' = snap_device ext" "rejections ext' = rejections ext"
      "snap_configuration_count ext' = snap_configuration_count ext"
      "length (snap_configurations ext') = length (snap_configurations ext)"
      "\<forall>j < i. snap_configurations ext' ! j = snap_configurations ext ! j"
      "\<forall>j. i \<le> j \<and> j < i + n \<longrightarrow>
         (\<exists>d ds. snap_configurations ext' ! j = Some d \<and> acceptable (allowed_by p) d ds)"
  using assms(2)
proof (induction n arbitrary: i seq ext thesis)
  case 0
  then show ?case by (intro "0.prems"(2)) auto
next
  case (Suc n)
  show ?case
  proof (rule check_configuration_cases [OF assms(1), where ext = ext and p = p and seq = seq and i = "of_nat i"])
    fix seq' ext'
    assume "check_configuration parse ext p seq (of_nat i) =
        Some (USBIP_ERROR_DEVICE_FILTERED, None, seq', ext')" "rejected ext ext'"
    then show ?thesis by (intro Suc.prems(1) [of ext']) (simp_all add: rejected_fields)
  next
    fix d ds seq' ext1
    assume accept: "check_configuration parse ext p seq (of_nat i) = Some (STATUS_SUCCESS, Some d, seq', ext1)"
      "acceptable (allowed_by p) d ds" "io_only ext ext1"
    note same = io_only_fields [OF accept(3)]
    define ext2 where "ext2 = ext1\<lparr>snap_configurations := (snap_configurations ext1)[i := Some d]\<rparr>"
    have step: "check_configurations parse p (Suc n) i seq ext =
        check_configurations parse p n (i + 1) seq' ext2"
      using accept(1) by (simp add: ext2_def)
    have ext2: "snap_configurations ext2 = (snap_configurations ext)[i := Some d]"
      "snap_ready ext2 = snap_ready ext" "snap_device ext2 = snap_device ext"
      "rejections ext2 = rejections ext" "snap_configuration_count ext2 = snap_configuration_count ext"
      by (simp_all add: ext2_def same)
    show ?thesis
    proof (rule Suc.IH [of "i + 1" seq' ext2])
      show "i + 1 + n \<le> length (snap_configurations ext2)" using Suc.prems(3) by (simp add: ext2)
    next
      fix ext'
      assume "check_configurations parse p n (i + 1) seq' ext2 = Some (USBIP_ERROR_DEVICE_FILTERED, ext')"
        "snap_ready ext' = snap_ready ext2" "length (rejections ext') = Suc (length (rejections ext2))"
      then show ?thesis using Suc.prems(1) step ext2 by simp
    next
      fix ext'
      assume *: "check_configurations parse p n (i + 1) seq' ext2 = Some (STATUS_SUCCESS, ext')"
        "snap_device ext' = snap_device ext2" "rejections ext' = rejections ext2"
        "snap_configuration_count ext' = snap_configuration_count ext2"
        "length (snap_configurations ext') = length (snap_configurations ext2)"
        "\<forall>j < i + 1. snap_configurations ext' ! j = snap_configurations ext2 ! j"
        "\<forall>j. i + 1 \<le> j \<and> j < i + 1 + n \<longrightarrow>
           (\<exists>d ds. snap_configurations ext' ! j = Some d \<and> acceptable (allowed_by p) d ds)"
      have "snap_configurations ext' ! i = Some d"
        using *(6) Suc.prems(3) by (simp add: ext2)
      then have "\<forall>j. i \<le> j \<and> j < i + Suc n \<longrightarrow>
         (\<exists>d ds. snap_configurations ext' ! j = Some d \<and> acceptable (allowed_by p) d ds)"
        using *(7) accept(2) by (metis add_Suc_right add_Suc Suc_eq_plus1 le_neq_implies_less Suc_leI)
      then show ?thesis
        using * step ext2 by (intro Suc.prems(2)) simp_all
    qed
  qed
qed

lemma snapshot_device_descriptor_cases:
  obtains (reject) seq' ext' where
      "snapshot_device_descriptor ext p udev seq = (USBIP_ERROR_DEVICE_FILTERED, seq', ext')" "rejected ext ext'"
  | (accept) seq' ext' where
      "snapshot_device_descriptor ext p udev seq = (STATUS_SUCCESS, seq', ext')"
      "device_consistent (snap_device ext') udev" "is_valid_device (snap_device ext')"
      "length (snap_device ext') = 18"
      "rejections ext' = rejections ext" "snap_ready ext' = snap_ready ext"
proof -
  obtain st device n seq1 ext1 where g:
    "get_descriptor ext seq 1 0 (replicate 18 0) 18 = (st, device, n, seq1, ext1)"
    by (metis prod_cases5)
  have s: "io_only ext ext1" using get_descriptor_same [OF g] .
  have len: "length device = 18" using get_descriptor_length [OF g] by simp
  have serial: "device_consistent (device[16 := v]) udev = device_consistent device udev"
    "is_valid_device (device[16 := v]) = is_valid_device device" for v
    using len by (simp_all add: device_consistent_def is_valid_device_def slice_def drop_update_swap)
  show thesis
  proof (cases "st = STATUS_SUCCESS \<and> n = 18 \<and> is_valid_device device \<and> device_consistent device udev")
    case False
    then have "\<exists>ext'. snapshot_device_descriptor ext p udev seq = (USBIP_ERROR_DEVICE_FILTERED, seq1, ext') \<and>
        rejected ext ext'"
      using io_only_report [OF s, of p] by (auto simp: snapshot_device_descriptor_def g)
    then show thesis using reject by blast
  next
    case True
    then show thesis
      using accept io_only_fields [OF s] serial len
      by (simp add: snapshot_device_descriptor_def g Let_def split: if_splits)
  qed
qed

lemma snapshot_configurations_result:
  assumes "descriptor_search parse"
  obtains (reject) ext' where
      "snapshot_configurations parse p cnt seq ext = Some (USBIP_ERROR_DEVICE_FILTERED, ext')"
      "snap_ready ext' = snap_ready ext" "length (rejections ext') = Suc (length (rejections ext))"
  | (accept) ext' where
      "snapshot_configurations parse p cnt seq ext = Some (STATUS_SUCCESS, ext')"
      "snap_ready ext'" "rejections ext' = rejections ext" "snap_device ext' = snap_device ext"
      "snap_configuration_count ext' = cnt" "length (snap_configurations ext') = cnt"
      "\<forall>j < cnt. \<exists>d ds. snap_configurations ext' ! j = Some d \<and> acceptable (allowed_by p) d ds"
proof -
  obtain ok env where pa: "pool_alloc (kernel ext) = (ok, env)" by (metis surj_pair)
  define ext2 where
    "ext2 = ext\<lparr>kernel := env, snap_configurations := replicate cnt None, snap_configuration_count := cnt\<rparr>"
  show thesis
  proof (cases ok)
    case False
    have "rejected ext (report_rejection (ext\<lparr>kernel := env\<rparr>) p
        ''out of memory for descriptor snapshot'' (- 1) 0 0 0)" (is "rejected _ ?e")
      by (simp add: io_only_report)
    then show thesis
      using False pa
      by (intro reject [of ?e]) (simp_all add: snapshot_configurations_def rejected_fields)
  next
    case True
    then have run: "snapshot_configurations parse p cnt seq ext =
        (case check_configurations parse p cnt 0 seq ext2 of
           None \<Rightarrow> None
         | Some (err, ext) \<Rightarrow> if err \<noteq> STATUS_SUCCESS then Some (err, ext)
             else Some (STATUS_SUCCESS, ext\<lparr>snap_ready := True\<rparr>))"
      using pa by (simp add: snapshot_configurations_def ext2_def)
    have "0 + cnt \<le> length (snap_configurations ext2)" by (simp add: ext2_def)
    from check_configurations_result [OF assms this, where p = p and seq = seq] show thesis
    proof cases
      case (1 ext')
      then show thesis using run by (intro reject [of ext']) (simp_all add: ext2_def)
    next
      case (2 ext')
      then show thesis
        using run by (intro accept [of "ext'\<lparr>snap_ready := True\<rparr>"]) (simp_all add: ext2_def)
    qed
  qed
qed

lemma check_device_result:
  assumes "descriptor_search parse"
  obtains (reject) ext' where
      "check_device api r tmp parse ext udev = Some (USBIP_ERROR_DEVICE_FILTERED, ext')"
      "snap_ready ext' = snap_ready ext" "length (rejections ext') = Suc (length (rejections ext))"
  | (accept) ext' where
      "check_device api r tmp parse ext udev = Some (STATUS_SUCCESS, ext')"
      "snap_ready ext'" "rejections ext' = rejections ext"
      "device_consistent (snap_device ext') udev" "is_valid_device (snap_device ext')"
      "snap_configuration_count ext' = unat (ud_bNumConfigurations udev)"
      "length (snap_configurations ext') = unat (ud_bNumConfigurations udev)"
      "ud_bNumConfigurations udev \<noteq> 0"
      "\<forall>j < unat (ud_bNumConfigurations udev).
         \<exists>d ds. snap_configurations ext' ! j = Some d \<and> acceptable (allowed_by (load api r tmp)) d ds"
      "ud_bDeviceClass udev \<in> {0, 0xEF} \<or>
       is_allowed (load api r tmp) (ud_bDeviceClass udev) (ud_bDeviceSubClass udev) (ud_bDeviceProtocol udev)"
proof -
  define p where "p = load api r tmp"
  show thesis
  proof (cases "(ud_bDeviceClass udev \<noteq> 0 \<and> ud_bDeviceClass udev \<noteq> 0xEF \<and>
      \<not> is_allowed p (ud_bDeviceClass udev) (ud_bDeviceSubClass udev) (ud_bDeviceProtocol udev)) \<or>
      ud_bNumConfigurations udev = 0")
    case True
    then have "\<exists>ext'. check_device api r tmp parse ext udev = Some (USBIP_ERROR_DEVICE_FILTERED, ext') \<and>
        rejected ext ext'"
      using io_only_report [OF io_only_refl, of ext p] by (auto simp: check_device_def Let_def p_def)
    then show thesis using reject rejected_fields by blast
  next
    case False
    then have run: "check_device api r tmp parse ext udev =
        (case snapshot_device_descriptor ext p udev 1 of
          (err, seq, ext) \<Rightarrow> if err \<noteq> STATUS_SUCCESS then Some (err, ext)
            else snapshot_configurations parse p (unat (ud_bNumConfigurations udev)) seq ext)"
      by (auto simp: check_device_def Let_def simp flip: p_def)
    from snapshot_device_descriptor_cases [where ext = ext and p = p and udev = udev and seq = 1]
    show thesis
    proof cases
      case (reject seq1 ext1)
      then show thesis using run by (intro that(1) [of ext1]) (simp_all add: rejected_fields)
    next
      case (accept seq1 ext1)
      note snap = this
      from snapshot_configurations_result [OF assms, where p = p and seq = seq1 and ext = ext1 and
          cnt = "unat (ud_bNumConfigurations udev)"] show thesis
      proof cases
        case (1 ext')
        then show thesis using run snap by (intro that(1) [of ext']) simp_all
      next
        case (2 ext')
        then show thesis
          using run snap False by (intro that(2) [of ext']) (auto simp flip: p_def)
      qed
    qed
  qed
qed

section \<open>The whitelist text\<close>

text \<open>The text of a list of entries without a size limit.\<close>

definition whitelist_items :: "bool \<Rightarrow> device_filter_entry list \<Rightarrow> string" where
  "whitelist_items first es =
     (case es of [] \<Rightarrow> []
      | e # es \<Rightarrow> (if first then [] else '', '') @ format_entry e @
          concat (map (\<lambda>e. '', '' @ format_entry e) es))"

lemma whitelist_items_Cons:
  "whitelist_items first (e # es) =
     (if first then [] else '', '') @ format_entry e @ whitelist_items False es"
  by (cases es) (simp_all add: whitelist_items_def)

lemma format_whitelist_loop_text:
  assumes "length buf + 6 < cch"
  shows "\<exists>n \<le> length es. format_whitelist_loop es first cch buf =
      buf @ whitelist_items first (take n es) @ (if n < length es then '', ...'' else []) \<and>
    length (format_whitelist_loop es first cch buf) < cch"
  using assms
proof (induction es arbitrary: first buf)
  case Nil
  then show ?case by (simp add: whitelist_items_def)
next
  case (Cons e es)
  define item where "item = (if first then format_entry e else '', '' @ format_entry e)"
  show ?case
  proof (cases "length buf + length item + 6 \<ge> cch")
    case True
    then show ?thesis
      using Cons.prems
      by (intro exI [of _ 0]) (simp add: item_def StringCchCat_def Let_def whitelist_items_def)
  next
    case False
    then obtain n where n: "n \<le> length es"
      "format_whitelist_loop es False cch (buf @ item) =
         (buf @ item) @ whitelist_items False (take n es) @ (if n < length es then '', ...'' else [])"
      "length (format_whitelist_loop es False cch (buf @ item)) < cch"
      using Cons.IH [of "buf @ item" False] by auto
    have "format_whitelist_loop (e # es) first cch buf = format_whitelist_loop es False cch (buf @ item)"
      using False by (simp add: item_def StringCchCat_def Let_def)
    then show ?thesis
      using n by (intro exI [of _ "Suc n"]) (auto simp: whitelist_items_Cons item_def)
  qed
qed

section \<open>An honest server\<close>

text \<open>The answers of a server that exports a device with the given descriptors: the header of a
  completed request and then its data.\<close>

definition ok_reply :: "nat \<Rightarrow> bytes" where
  "ok_reply n = header_bytes (byteswap_header
     (zero_header\<lparr>command := request_type_code RET_SUBMIT, un1 := of_nat n\<rparr>) host2net)"

definition answers :: "bytes \<Rightarrow> (ntstatus \<times> bytes) list" where
  "answers d = [(STATUS_SUCCESS, ok_reply (length d)), (STATUS_SUCCESS, d)]"

definition config_answers :: "bytes list \<Rightarrow> (ntstatus \<times> bytes) list" where
  "config_answers cs = concat (map (\<lambda>c. answers (take 9 c) @ answers c) cs)"

definition sent_ok :: "nat \<Rightarrow> (ntstatus \<times> nat) list" where
  "sent_ok n = replicate n (STATUS_SUCCESS, sizeof_header)"

lemma length_ok_reply [simp]: "length (ok_reply n) = sizeof_header"
  by (simp add: ok_reply_def length_header_bytes zero_header_def)

lemma header_ok_reply:
  "byteswap_header (header_of_bytes (ok_reply n)) net2host =
     zero_header\<lparr>command := request_type_code RET_SUBMIT, un1 := of_nat n\<rparr>"
  unfolding ok_reply_def by (rule header_codec.sent_is_received) (simp add: zero_header_def)

text \<open>The environment of an honest server that will complete \<open>k\<close> more requests.\<close>

definition honest :: "nat \<Rightarrow> (ntstatus \<times> bytes) list \<Rightarrow> nat \<Rightarrow> kenv \<Rightarrow> bool" where
  "honest k rs n env \<longleftrightarrow> mdl_prepare env = [] \<and> sends env = sent_ok k \<and> receives env = rs \<and>
     allocs env = replicate n True"

lemma get_descriptor_honest:
  assumes "honest (Suc k) (answers d @ rs) n (kernel ext)" "length d \<le> unat len" "0 < length d"
    and "unat len \<le> length buf"
  shows "\<exists>env. get_descriptor ext seq type index buf len =
    (STATUS_SUCCESS, overwrite buf 0 d, length d, seq + 1, ext\<lparr>kernel := env\<rparr>) \<and> honest k rs n env"
proof -
  let ?hdr = "header_bytes (byteswap_header
      (get_descriptor_header (ext_devid ext) seq type index len) host2net)"
  have hdr: "length ?hdr = sizeof_header"
    by (rule length_header_bytes) (simp add: get_descriptor_header_def)
  have full: "overwrite (replicate sizeof_header 0) 0 (ok_reply n) = ok_reply n" for n
    by (simp add: overwrite_def)
  define env1 where "env1 = (kernel ext)\<lparr>sends := sent_ok k, sent_log := sent_log (kernel ext) @ [?hdr]\<rparr>"
  define env2 where "env2 = env1\<lparr>receives := (STATUS_SUCCESS, d) # rs\<rparr>"
  define env3 where "env3 = env1\<lparr>receives := rs\<rparr>"
  have s: "send (kernel ext) ?hdr = (STATUS_SUCCESS, env1)"
    using assms(1) by (simp add: honest_def send_def prepare_mdl_def wsk_send_def transfer_send_def
        WskSend_def sent_ok_def hdr env1_def)
  have r1: "recv env1 (replicate sizeof_header 0) sizeof_header = (STATUS_SUCCESS, ok_reply (length d), env2)"
    using assms(1) by (simp add: honest_def recv_def prepare_mdl_def wsk_receive_def transfer_recv_def
        WskReceive_def answers_def full env1_def env2_def)
  have r2: "recv env2 buf (length d) = (STATUS_SUCCESS, overwrite buf 0 d, env3)"
    using assms(1) by (simp add: honest_def recv_def prepare_mdl_def wsk_receive_def transfer_recv_def
        WskReceive_def answers_def env1_def env2_def env3_def)
  have "int (length d) \<le> int (unat len)" using assms(2) by (rule of_nat_mono)
  then have le: "\<not> uint len < int (length d)" by simp
  have "length d < 2 ^ 31" using le_less_trans [OF assms(2) unat_u16_lt [of len]] by simp
  note act = sint_of_nat_u32 [OF this]
  have "get_descriptor ext seq type index buf len =
      (STATUS_SUCCESS, overwrite buf 0 d, length d, seq + 1, ext\<lparr>kernel := env3\<rparr>)"
    using assms(3) le by (simp add: get_descriptor_def Let_def s r1 r2 header_ok_reply zero_header_def act)
  moreover have "honest k rs n env3" using assms(1) by (simp add: honest_def env3_def env1_def)
  ultimately show ?thesis by blast
qed

lemma acceptable_header:
  assumes "acceptable allowed c ds"
  shows "is_valid_configuration (take 9 c)" "wTotalLength (take 9 c) = length c"
    "10 \<le> length c" "length c \<le> 65535"
proof -
  have hdr: "valid_header c" "concat ds = c" using assms by (simp_all add: acceptable_def)
  then have total: "wTotalLength (take 9 c) = length c" "9 \<le> length c"
    by (simp_all add: valid_header_def wTotalLength_def or_push_bit_8)
  have "length c \<noteq> 9"
  proof
    assume nine: "length c = 9"
    obtain d where d: "d \<in> set ds" "is_interface d" "well_sized d" "descriptor_ok allowed d"
      using assms by (auto simp: acceptable_def)
    then have "9 \<le> length d" by (simp add: is_interface_def descriptor_ok_def)
    moreover obtain xs ys where ds: "ds = xs @ d # ys" using d(1) by (meson split_list)
    moreover have "length (concat xs) + length d + length (concat ys) = 9"
      using arg_cong [OF hdr(2), of length] ds nine by simp
    ultimately have "concat xs = []" "concat ys = []" by (simp_all only: flip: length_0_conv)
    then have "d = c" using hdr(2) ds by (simp only: concat_append concat.simps append_Nil append_Nil2)
    then show False using d(2) hdr(1) by (simp add: is_interface_def valid_header_def)
  qed
  then show "10 \<le> length c" using total by simp
  show "wTotalLength (take 9 c) = length c" by (rule total)
  then show "is_valid_configuration (take 9 c)"
    using hdr(1) \<open>10 \<le> length c\<close> by (simp add: is_valid_configuration_def valid_header_def)
  have "unat (c ! 2) \<le> 255" "unat (c ! 3) \<le> 255"
    using unat_u8_lt [of "c ! 2"] unat_u8_lt [of "c ! 3"] by linarith+
  then show "length c \<le> 65535"
    using hdr(1) by (simp add: valid_header_def)
qed

text \<open>The bytes that are published for an accepted configuration.\<close>

definition published :: "int \<Rightarrow> bytes \<Rightarrow> bytes \<Rightarrow> bool" where
  "published speed c d \<longleftrightarrow>
     (\<exists>ds. c = concat ds \<and> (\<forall>x \<in> set ds. well_sized x) \<and>
        d = (if 3 \<le> speed then c else concat (map patch_descriptor ds)))"

lemma check_configuration_honest:
  assumes search: "descriptor_search parse" and acc: "acceptable (allowed_by p) c ds"
    and env: "honest (Suc (Suc k)) (config_answers (c # cs)) (Suc n) (kernel ext)"
  shows "\<exists>env d. check_configuration parse ext p seq i =
      Some (STATUS_SUCCESS, Some d, seq + 2, ext\<lparr>kernel := env\<rparr>) \<and>
    honest k (config_answers cs) n env \<and> published (ext_speed ext) c d"
proof -
  note hdr = acceptable_header [OF acc]
  have head: "length (take 9 c) = 9" "overwrite (replicate 9 0) 0 (take 9 c) = take 9 c"
    using hdr by (simp_all add: overwrite_def)
  have "honest (Suc (Suc k)) (answers (take 9 c) @ answers c @ config_answers cs) (Suc n) (kernel ext)"
    using env by (simp add: config_answers_def)
  from get_descriptor_honest [OF this, where len = 9 and buf = "replicate 9 0" and
      seq = seq and type = 2 and index = i]
  obtain env1 where g1: "get_descriptor ext seq 2 i (replicate 9 0) 9 =
      (STATUS_SUCCESS, take 9 c, 9, seq + 1, ext\<lparr>kernel := env1\<rparr>)"
    and h1: "honest (Suc k) (answers c @ config_answers cs) (Suc n) env1"
    using head hdr by auto
  define ext2 where "ext2 = ext\<lparr>kernel := env1\<lparr>allocs := replicate n True\<rparr>\<rparr>"
  have pa: "pool_alloc env1 = (True, env1\<lparr>allocs := replicate n True\<rparr>)"
    using h1 by (simp add: pool_alloc_def honest_def)
  have len: "unat (of_nat (length c) :: u16) = length c"
    using hdr(4) by (simp add: unat_of_nat take_bit_nat_eq_self)
  have "honest (Suc k) (answers c @ config_answers cs) n (kernel ext2)"
    using h1 by (simp add: honest_def ext2_def)
  from get_descriptor_honest [OF this, where len = "of_nat (length c)" and buf = "replicate (length c) 0" and
      seq = "seq + 1" and type = 2 and index = i]
  obtain env3 where g2: "get_descriptor ext2 (seq + 1) 2 i (replicate (length c) 0) (of_nat (length c)) =
      (STATUS_SUCCESS, c, length c, seq + 2, ext\<lparr>kernel := env3\<rparr>)" and h3: "honest k (config_answers cs) n env3"
    using len hdr by (fastforce simp: ext2_def overwrite_def add.commute)
  have ok: "error (evaluate_configuration c (allowed_by p)) = err_none"
    using acc evaluate_configuration_accepts by auto
  define d where "d = (if 3 \<le> ext_speed ext then c else concat (map patch_descriptor ds))"
  have patch: "patch_configuration_for_udecx parse (length c) c (ext_speed ext) = Some d"
    using descriptor_search.patch_configuration [OF search acc order_refl] by (simp add: d_def)
  have ds: "concat ds = c" "\<forall>x \<in> set ds. well_sized x" using acc by (simp_all add: acceptable_def)
  have "length d = length c" by (auto simp: d_def ds(1) length_concat_patch)
  then have "check_configuration parse ext p seq i =
      Some (STATUS_SUCCESS, Some d, seq + 2, ext\<lparr>kernel := env3\<rparr>)"
    using g1 g2 pa hdr ok patch
    by (simp add: check_configuration_def Let_def ext2_def MAX_CONFIG_DESCRIPTOR_SIZE_def)
  moreover have "published (ext_speed ext) c d"
    unfolding published_def using ds d_def by blast
  ultimately show ?thesis using h3 by blast
qed

lemma check_configurations_honest:
  assumes search: "descriptor_search parse"
    and "\<forall>c \<in> set cs. \<exists>ds. acceptable (allowed_by p) c ds"
    and "honest (2 * length cs) (config_answers cs) (length cs) (kernel ext)"
    and "i + length cs \<le> length (snap_configurations ext)"
  shows "\<exists>ext'. check_configurations parse p (length cs) i seq ext = Some (STATUS_SUCCESS, ext') \<and>
    length (snap_configurations ext') = length (snap_configurations ext) \<and>
    (\<forall>j < i. snap_configurations ext' ! j = snap_configurations ext ! j) \<and>
    (\<forall>j < length cs. \<exists>d. snap_configurations ext' ! (i + j) = Some d \<and> published (ext_speed ext) (cs ! j) d)"
  using assms(2-)
proof (induction cs arbitrary: i seq ext)
  case Nil
  then show ?case by simp
next
  case (Cons c cs)
  obtain ds where "acceptable (allowed_by p) c ds" using Cons.prems(1) by auto
  from check_configuration_honest [OF search this, where k = "2 * length cs" and cs = cs and
      n = "length cs" and ext = ext and seq = seq and i = "of_nat i"] Cons.prems(2)
  obtain env d where c: "check_configuration parse ext p seq (of_nat i) =
      Some (STATUS_SUCCESS, Some d, seq + 2, ext\<lparr>kernel := env\<rparr>)"
    and env: "honest (2 * length cs) (config_answers cs) (length cs) env"
    and d: "published (ext_speed ext) c d" by auto
  define ext1 where
    "ext1 = ext\<lparr>kernel := env, snap_configurations := (snap_configurations ext)[i := Some d]\<rparr>"
  have "honest (2 * length cs) (config_answers cs) (length cs) (kernel ext1)"
    "(i + 1) + length cs \<le> length (snap_configurations ext1)"
    using env Cons.prems(3) by (simp_all add: ext1_def)
  moreover have "\<forall>c \<in> set cs. \<exists>ds. acceptable (allowed_by p) c ds" using Cons.prems(1) by simp
  ultimately have "\<exists>ext'. check_configurations parse p (length cs) (i + 1) (seq + 2) ext1 = Some (STATUS_SUCCESS, ext') \<and>
      length (snap_configurations ext') = length (snap_configurations ext1) \<and>
      (\<forall>j < i + 1. snap_configurations ext' ! j = snap_configurations ext1 ! j) \<and>
      (\<forall>j < length cs. \<exists>d. snap_configurations ext' ! (i + 1 + j) = Some d \<and>
        published (ext_speed ext1) (cs ! j) d)"
    by (intro Cons.IH)
  then obtain ext' where run: "check_configurations parse p (length cs) (i + 1) (seq + 2) ext1 = Some (STATUS_SUCCESS, ext')"
    and len: "length (snap_configurations ext') = length (snap_configurations ext)"
    and old: "\<forall>j < i + 1. snap_configurations ext' ! j = snap_configurations ext1 ! j"
    and new: "\<forall>j < length cs. \<exists>d. snap_configurations ext' ! (i + 1 + j) = Some d \<and>
        published (ext_speed ext) (cs ! j) d"
    by (auto simp: ext1_def)
  have "snap_configurations ext' ! i = Some d"
    using old Cons.prems(3) by (simp add: ext1_def)
  then have "\<exists>d. snap_configurations ext' ! (i + j) = Some d \<and> published (ext_speed ext) ((c # cs) ! j) d"
    if "j < length (c # cs)" for j
    using new d that by (cases j) auto
  moreover have "\<forall>j < i. snap_configurations ext' ! j = snap_configurations ext ! j"
    using old by (simp add: ext1_def)
  moreover have "check_configurations parse p (length (c # cs)) i seq ext = Some (STATUS_SUCCESS, ext')"
    using c run by (simp add: ext1_def)
  ultimately show ?case using len by blast
qed

lemma check_device_honest:
  assumes search: "descriptor_search parse" and p: "p = load api r tmp"
    and cls_ok: "ud_bDeviceClass udev \<in> {0, 0xEF} \<or>
      is_allowed p (ud_bDeviceClass udev) (ud_bDeviceSubClass udev) (ud_bDeviceProtocol udev)"
    and cnt: "unat (ud_bNumConfigurations udev) = length cs" "cs \<noteq> []"
    and dev: "length dev = 18" "is_valid_device dev" "device_consistent dev udev"
    and acc: "\<forall>c \<in> set cs. \<exists>ds. acceptable (allowed_by p) c ds"
    and env: "honest (Suc (2 * length cs)) (answers dev @ config_answers cs) (Suc (length cs)) (kernel ext)"
  shows "\<exists>ext'. check_device api r tmp parse ext udev = Some (STATUS_SUCCESS, ext') \<and>
    length (snap_configurations ext') = length cs \<and>
    (\<forall>j < length cs. \<exists>d. snap_configurations ext' ! j = Some d \<and> published (ext_speed ext) (cs ! j) d)"
proof -
  obtain env1 where g: "get_descriptor ext 1 1 0 (replicate 18 0) 18 =
      (STATUS_SUCCESS, dev, 18, 2, ext\<lparr>kernel := env1\<rparr>)"
    and h: "honest (2 * length cs) (config_answers cs) (Suc (length cs)) env1"
    using get_descriptor_honest [OF env, where len = 18 and buf = "replicate 18 0" and seq = 1 and
        type = 1 and index = 0] dev(1) by (auto simp: overwrite_def)
  obtain ext1 where snap: "snapshot_device_descriptor ext p udev 1 = (STATUS_SUCCESS, 2, ext1)"
    and ext1: "kernel ext1 = env1" "ext_speed ext1 = ext_speed ext"
    using g dev by (simp add: snapshot_device_descriptor_def Let_def split: if_splits)
  define ext2 where "ext2 = ext1\<lparr>kernel := env1\<lparr>allocs := replicate (length cs) True\<rparr>,
    snap_configurations := replicate (length cs) None, snap_configuration_count := length cs\<rparr>"
  have pa: "pool_alloc env1 = (True, env1\<lparr>allocs := replicate (length cs) True\<rparr>)"
    using h by (simp add: pool_alloc_def honest_def)
  have "honest (2 * length cs) (config_answers cs) (length cs) (kernel ext2)"
    "0 + length cs \<le> length (snap_configurations ext2)"
    using h by (simp_all add: ext2_def honest_def)
  from check_configurations_honest [OF search acc this, of 2]
  obtain ext' where "check_configurations parse p (length cs) 0 2 ext2 = Some (STATUS_SUCCESS, ext')"
    "length (snap_configurations ext') = length cs"
    "\<forall>j < length cs. \<exists>d. snap_configurations ext' ! j = Some d \<and> published (ext_speed ext) (cs ! j) d"
    by (auto simp: ext2_def ext1)
  moreover have "ud_bNumConfigurations udev \<noteq> 0" using cnt by auto
  ultimately show ?thesis
    using snap pa cls_ok ext1(1)
    by (intro exI [of _ "ext'\<lparr>snap_ready := True\<rparr>"])
      (auto simp: check_device_def Let_def snapshot_configurations_def ext2_def cnt(1) simp flip: p)
qed

section \<open>A concrete attach\<close>

text \<open>A keyboard with one configuration, a policy that allows its class, and the server that
  exports it.\<close>

definition sample_device :: bytes where
  "sample_device = [18, 1, 0, 2, 0, 0, 0, 8, 0x34, 0x12, 0x78, 0x56, 0, 1, 0, 0, 0, 1]"

definition sample_config :: bytes where
  "sample_config =
     [9, 2, 25, 0, 1, 1, 0, 128, 50, 9, 4, 0, 0, 1, 3, 1, 1, 0, 7, 5, 129, 3, 8, 0, 10]"

definition sample_udev :: usbip_usb_device where
  "sample_udev = \<lparr>ud_path = replicate 256 0, ud_busid = replicate 32 0, ud_busnum = 1, ud_devnum = 2,
     ud_speed = 2, ud_idVendor = 0x1234, ud_idProduct = 0x5678, ud_bcdDevice = 0x100,
     ud_bDeviceClass = 0, ud_bDeviceSubClass = 0, ud_bDeviceProtocol = 0,
     ud_bConfigurationValue = 0, ud_bNumConfigurations = 1, ud_bNumInterfaces = 1\<rparr>"

definition sample_ext :: device_ext where
  "sample_ext = \<lparr>ext_devid = 0x10002, ext_speed = 2, ext_serial = replicate 16 0, ext_iserial = 0,
     snap_device = [], snap_configurations = [], snap_configuration_count = 0, snap_ready = False,
     kernel = \<lparr>mdl_prepare = [], sends = sent_ok 3,
       receives = answers sample_device @ config_answers [sample_config],
       allocs = [True, True], sent_log = []\<rparr>,
     rejections = []\<rparr>"

definition sample_policy :: policy where
  "sample_policy = zero_policy\<lparr>mode := 1, pol_count := 1,
     entries := \<lparr>bClass = 3, bSubClass = 0, bProtocol = 0, match_flags = 1\<rparr> # replicate 63 zero_entry\<rparr>"

definition sample_registry :: "(u32 \<times> bytes) option" where
  "sample_registry = snd (store mem_registry None sample_policy)"

abbreviation sample_memory :: bytes where "sample_memory \<equiv> replicate sizeof_policy 0"

lemma sample_load: "load mem_registry sample_registry sample_memory = normalized sample_policy"
  by (rule store_load_normalized [OF registry_law_mem, where r = None])
    (simp_all add: wf_policy_def sample_policy_def zero_policy_def MAX_DEVICE_FILTER_ENTRIES_def
      sample_registry_def store_def mem_registry_def Let_def)

lemma sample_allowed: "allowed_by (normalized sample_policy) i \<longleftrightarrow> cls i = 3"
proof -
  have "wf_policy sample_policy"
    by (simp add: wf_policy_def sample_policy_def zero_policy_def MAX_DEVICE_FILTER_ENTRIES_def)
  moreover have "is_allowed sample_policy c s p \<longleftrightarrow> c = 3" for c s p
    by (simp add: is_allowed_def sample_policy_def entry_matches_def FILTER_MATCH_CLASS_def
        FILTER_MATCH_SUBCLASS_def FILTER_MATCH_PROTOCOL_def eq_commute [of 3])
  ultimately show ?thesis by (simp add: allowed_by_def is_allowed_normalized)
qed

lemma sample_acceptable: "\<exists>ds. acceptable (allowed_by (normalized sample_policy)) sample_config ds"
  by (rule exI [of _ "[[9, 2, 25, 0, 1, 1, 0, 128, 50], [9, 4, 0, 0, 1, 3, 1, 1, 0], [7, 5, 129, 3, 8, 0, 10]]"])
    (simp add: acceptable_def valid_header_def well_sized_def descriptor_ok_def is_interface_def
      interface_numbers_def conj_disj_distribR Collect_disj_eq image_Un Collect_conv_if
      sample_allowed sample_config_def interface_at_def)

lemma sample_device_ok: "length sample_device = 18" "is_valid_device sample_device"
  "device_consistent sample_device sample_udev"
  by (simp_all add: sample_device_def sample_udev_def is_valid_device_def device_consistent_def slice_def)

lemma sample_honest:
  "honest (Suc (2 * length [sample_config])) (answers sample_device @ config_answers [sample_config])
     (Suc (length [sample_config])) (kernel sample_ext)"
  by (simp add: honest_def sample_ext_def numeral_3_eq_3)

lemma sample_attach:
  "\<exists>ext'. check_device mem_registry sample_registry sample_memory find_loop sample_ext sample_udev =
     Some (STATUS_SUCCESS, ext')"
  using check_device_honest [OF own_search.descriptor_search_axioms sample_load [symmetric], of sample_udev
      "[sample_config]" sample_device sample_ext] sample_acceptable sample_device_ok sample_honest
  by (auto simp: sample_udev_def)

section \<open>Properties\<close>

text \<open>C1. Whatever the server answers, if the filter lets a device attach then its snapshot is
  published and is exactly what was checked: as many configurations as the import reply declared
  and at least one, each accepted by the parser with every interface class allowed by the loaded
  policy, a device descriptor that agrees with the import identity, and a device class that is
  allowed unless it defers to the interfaces.\<close>

theorem check_device_sound:
  assumes "descriptor_search parse"
    and "check_device api r tmp parse ext udev = Some (STATUS_SUCCESS, ext')"
  shows "snap_ready ext' \<and> device_consistent (snap_device ext') udev \<and>
    ud_bNumConfigurations udev \<noteq> 0 \<and>
    snap_configuration_count ext' = unat (ud_bNumConfigurations udev) \<and>
    length (snap_configurations ext') = unat (ud_bNumConfigurations udev) \<and>
    (\<forall>j < unat (ud_bNumConfigurations udev). \<exists>d ds. snap_configurations ext' ! j = Some d \<and>
       acceptable (\<lambda>i. is_allowed (load api r tmp) (cls i) (subcls i) (protocol i)) d ds) \<and>
    (ud_bDeviceClass udev \<in> {0, 0xEF} \<or>
     is_allowed (load api r tmp) (ud_bDeviceClass udev) (ud_bDeviceSubClass udev) (ud_bDeviceProtocol udev))"
proof -
  have "(\<lambda>i. is_allowed (load api r tmp) (cls i) (subcls i) (protocol i)) = allowed_by (load api r tmp)"
    by (simp add: allowed_by_def fun_eq_iff)
  moreover from check_device_result [OF assms(1), where api = api and r = r and tmp = tmp and
      ext = ext and udev = udev]
  have "snap_ready ext' \<and> device_consistent (snap_device ext') udev \<and>
    ud_bNumConfigurations udev \<noteq> 0 \<and>
    snap_configuration_count ext' = unat (ud_bNumConfigurations udev) \<and>
    length (snap_configurations ext') = unat (ud_bNumConfigurations udev) \<and>
    (\<forall>j < unat (ud_bNumConfigurations udev). \<exists>d ds. snap_configurations ext' ! j = Some d \<and>
       acceptable (allowed_by (load api r tmp)) d ds) \<and>
    (ud_bDeviceClass udev \<in> {0, 0xEF} \<or>
     is_allowed (load api r tmp) (ud_bDeviceClass udev) (ud_bDeviceSubClass udev) (ud_bDeviceProtocol udev))"
  proof cases
    case (2 e)
    then have "e = ext'" using assms(2) by simp
    then show ?thesis using 2 by simp
  qed (use assms(2) in simp)
  ultimately show ?thesis by simp
qed

theorem check_device_sound_witness:
  "\<exists>ext'. check_device mem_registry sample_registry sample_memory find_loop sample_ext sample_udev =
     Some (STATUS_SUCCESS, ext') \<and> snap_ready ext' \<and> snap_configuration_count ext' = 1"
proof -
  obtain ext' where "check_device mem_registry sample_registry sample_memory find_loop sample_ext sample_udev =
     Some (STATUS_SUCCESS, ext')" using sample_attach by blast
  from this check_device_sound [OF own_search.descriptor_search_axioms this] show ?thesis
    by (simp add: sample_udev_def)
qed



text \<open>C36. The filter always comes to a decision, and every decision against a device is reported
  exactly once and leaves the snapshot unpublished; a decision for it is not reported as a
  rejection.\<close>

theorem check_device_decides:
  assumes "descriptor_search parse"
  shows "\<exists>st ext'. check_device api r tmp parse ext udev = Some (st, ext') \<and>
    (st = STATUS_SUCCESS \<and> snap_ready ext' \<and> rejections ext' = rejections ext \<or>
     st = USBIP_ERROR_DEVICE_FILTERED \<and> snap_ready ext' = snap_ready ext \<and>
     length (rejections ext') = Suc (length (rejections ext)))"
  by (rule check_device_result [OF assms, where api = api and r = r and tmp = tmp and ext = ext and udev = udev])
    simp_all

theorem check_device_decides_witness:
  "\<exists>ext'. check_device mem_registry None sample_memory find_loop sample_ext sample_udev =
     Some (USBIP_ERROR_DEVICE_FILTERED, ext') \<and> \<not> snap_ready ext'
   \<or> check_device mem_registry None sample_memory find_loop sample_ext sample_udev =
     Some (STATUS_SUCCESS, ext') \<and> snap_ready ext'"
  using check_device_decides [OF own_search.descriptor_search_axioms, of mem_registry None sample_memory
      sample_ext sample_udev] by (auto simp: sample_ext_def)

text \<open>When the policy cannot be loaded no device attaches at all: the key cannot be opened, or
  the value is missing, has the wrong type or is too short.\<close>

lemma no_policy_no_device:
  assumes "descriptor_search parse"
    and "reg_open api r False \<noteq> STATUS_SUCCESS \<or>
      (case reg_query api r tmp of (st, _, actual, type) \<Rightarrow>
         st \<noteq> STATUS_SUCCESS \<or> type \<noteq> REG_BINARY \<or> unat actual < policy_entries_offset)"
  shows "\<exists>ext'. check_device api r tmp parse ext udev = Some (USBIP_ERROR_DEVICE_FILTERED, ext') \<and>
    snap_ready ext' = snap_ready ext"
proof -
  have deny: "\<not> allowed_by (load api r tmp) i" for i
    using assms(2) by (auto simp: allowed_by_def load_def Let_def sanitize_loaded_policy_def
        fail_closed_denies split: prod.splits)
  have "\<not> acceptable (allowed_by (load api r tmp)) d ds" for d ds
    using deny by (auto simp: acceptable_def is_interface_def descriptor_ok_def)
  moreover have "0 < unat n" if "n \<noteq> 0" for n :: u8
    using that by (simp add: unat_gt_0)
  moreover from check_device_result [OF assms(1), where api = api and r = r and tmp = tmp and
      ext = ext and udev = udev]
  show ?thesis
  proof cases
    case (2 e)
    then show ?thesis using calculation by blast
  qed blast
qed

text \<open>The whitelist text of a rejection report fits its buffer and is never cut inside an
  entry: it consists of the first entries in use, followed by an ellipsis exactly when not all
  of them fit.\<close>

lemma format_whitelist_text:
  assumes "8 \<le> cch"
  shows "length (format_whitelist p cch) < cch \<and>
    (pol_count p \<noteq> 0 \<longrightarrow> (let es = take (unat (pol_count p)) (entries p) in
      \<exists>n \<le> length es. format_whitelist p cch =
        whitelist_items True (take n es) @ (if n < length es then '', ...'' else [])))"
proof (cases "pol_count p = 0")
  case True
  then show ?thesis using assms by (simp add: format_whitelist_def StringCchCat_def)
next
  case False
  have "length [] + 6 < cch" using assms by simp
  from format_whitelist_loop_text [OF this, of "take (unat (pol_count p)) (entries p)" True] False
  show ?thesis unfolding format_whitelist_def Let_def if_not_P [OF False] append_Nil by blast
qed

end
