(* ===== verification/Usbd_Helper.thy ===== *)
theory Usbd_Helper
  imports Protocol
begin

text \<open>
  Translation between Linux and Windows conventions, \<open>drivers/libdrv/usbd_helper.cpp\<close> and
  \<open>usbd_helper.h\<close>: completion statuses, transfer flags and transfer directions.

  USBD statuses are symbolic like NTSTATUS: the code compares them with named constants and with
  the macro \<open>USBD_ERROR\<close>.
\<close>

section \<open>Statuses\<close>

datatype usbd_status =
    USBD_STATUS_SUCCESS
  | USBD_STATUS_PENDING
  | USBD_STATUS_STALL_PID
  | USBD_STATUS_ENDPOINT_HALTED
  | USBD_STATUS_ERROR_SHORT_TRANSFER
  | USBD_STATUS_DEV_NOT_RESPONDING
  | USBD_STATUS_TIMEOUT
  | USBD_STATUS_CANCELED
  | USBD_STATUS_BABBLE_DETECTED
  | USBD_STATUS_DEVICE_GONE
  | USBD_STATUS_CRC
  | USBD_STATUS_DATA_OVERRUN
  | USBD_STATUS_DATA_UNDERRUN
  | USBD_STATUS_INSUFFICIENT_RESOURCES
  | USBD_STATUS_BTSTUFF
  | USBD_STATUS_NO_BANDWIDTH
  | USBD_STATUS_ISO_TD_ERROR
  | USBD_STATUS_ISOCH_REQUEST_FAILED
  | USBD_STATUS_INTERNAL_HC_ERROR
  | USBD_STATUS_HUB_INTERNAL_ERROR
  | USBD_STATUS_ERROR_BUSY
  | USBD_STATUS_INVALID_PARAMETER
  | USBD_STATUS_INVALID_PIPE_HANDLE
  | USBD_OTHER_ERROR nat
  | USBD_OTHER_INFO nat

abbreviation (input) EndpointStalled :: usbd_status where "EndpointStalled \<equiv> USBD_STATUS_STALL_PID"

definition USBD_ERROR :: "usbd_status \<Rightarrow> bool" where
  "USBD_ERROR st =
     (case st of
        USBD_STATUS_SUCCESS \<Rightarrow> False
      | USBD_STATUS_PENDING \<Rightarrow> False
      | USBD_OTHER_INFO _ \<Rightarrow> False
      | _ \<Rightarrow> True)"

abbreviation (input) ENOENT_LNX :: int where "ENOENT_LNX \<equiv> 2"
abbreviation (input) ENXIO_LNX :: int where "ENXIO_LNX \<equiv> 6"
abbreviation (input) ENOMEM_LNX :: int where "ENOMEM_LNX \<equiv> 12"
abbreviation (input) EBUSY_LNX :: int where "EBUSY_LNX \<equiv> 16"
abbreviation (input) EXDEV_LNX :: int where "EXDEV_LNX \<equiv> 18"
abbreviation (input) ENODEV_LNX :: int where "ENODEV_LNX \<equiv> 19"
abbreviation (input) EINVAL_LNX :: int where "EINVAL_LNX \<equiv> 22"
abbreviation (input) ENOSPC_LNX :: int where "ENOSPC_LNX \<equiv> 28"
abbreviation (input) EPIPE_LNX :: int where "EPIPE_LNX \<equiv> 32"
abbreviation (input) ETIME_LNX :: int where "ETIME_LNX \<equiv> 62"
abbreviation (input) ENOSR_LNX :: int where "ENOSR_LNX \<equiv> 63"
abbreviation (input) ECOMM_LNX :: int where "ECOMM_LNX \<equiv> 70"
abbreviation (input) EPROTO_LNX :: int where "EPROTO_LNX \<equiv> 71"
abbreviation (input) EOVERFLOW_LNX :: int where "EOVERFLOW_LNX \<equiv> 75"
abbreviation (input) EILSEQ_LNX :: int where "EILSEQ_LNX \<equiv> 84"
abbreviation (input) ECONNRESET_LNX :: int where "ECONNRESET_LNX \<equiv> 104"
abbreviation (input) ESHUTDOWN_LNX :: int where "ESHUTDOWN_LNX \<equiv> 108"
abbreviation (input) ETIMEDOUT_LNX :: int where "ETIMEDOUT_LNX \<equiv> 110"
abbreviation (input) EHOSTUNREACH_LNX :: int where "EHOSTUNREACH_LNX \<equiv> 113"
abbreviation (input) EINPROGRESS_LNX :: int where "EINPROGRESS_LNX \<equiv> 115"
abbreviation (input) EREMOTEIO_LNX :: int where "EREMOTEIO_LNX \<equiv> 121"

definition to_windows_status_ex :: "int \<Rightarrow> bool \<Rightarrow> usbd_status" where
  "to_windows_status_ex usbip_status isoch =
     (let e = (if usbip_status \<ge> 0 then usbip_status else - usbip_status) in
      if e = 0 then USBD_STATUS_SUCCESS
      else if e = EPIPE_LNX then EndpointStalled
      else if e = EREMOTEIO_LNX then USBD_STATUS_ERROR_SHORT_TRANSFER
      else if e = ETIME_LNX then USBD_STATUS_DEV_NOT_RESPONDING
      else if e = ETIMEDOUT_LNX then USBD_STATUS_TIMEOUT
      else if e = ENOENT_LNX \<or> e = ECONNRESET_LNX then USBD_STATUS_CANCELED
      else if e = EOVERFLOW_LNX then USBD_STATUS_BABBLE_DETECTED
      else if e = ENODEV_LNX \<or> e = ESHUTDOWN_LNX \<or> e = EHOSTUNREACH_LNX then USBD_STATUS_DEVICE_GONE
      else if e = EILSEQ_LNX then USBD_STATUS_CRC
      else if e = ECOMM_LNX then USBD_STATUS_DATA_OVERRUN
      else if e = ENOSR_LNX then USBD_STATUS_DATA_UNDERRUN
      else if e = ENOMEM_LNX then USBD_STATUS_INSUFFICIENT_RESOURCES
      else if e = EPROTO_LNX then USBD_STATUS_BTSTUFF
      else if e = ENOSPC_LNX then USBD_STATUS_NO_BANDWIDTH
      else if e = EXDEV_LNX then (if isoch then USBD_STATUS_ISO_TD_ERROR else USBD_STATUS_ISOCH_REQUEST_FAILED)
      else if e = ENXIO_LNX then USBD_STATUS_INTERNAL_HC_ERROR
      else if e = EBUSY_LNX then USBD_STATUS_ERROR_BUSY
      else USBD_STATUS_INVALID_PARAMETER)"

definition to_windows_status :: "int \<Rightarrow> usbd_status" where
  "to_windows_status usbip_status = to_windows_status_ex usbip_status False"

definition to_windows_status_isoch :: "int \<Rightarrow> usbd_status" where
  "to_windows_status_isoch usbip_status = to_windows_status_ex usbip_status True"

definition to_linux_status :: "usbd_status \<Rightarrow> int" where
  "to_linux_status status =
     (let err =
        (case status of
           USBD_STATUS_SUCCESS \<Rightarrow> 0
         | USBD_STATUS_STALL_PID \<Rightarrow> EPIPE_LNX
         | USBD_STATUS_ENDPOINT_HALTED \<Rightarrow> EPIPE_LNX
         | USBD_STATUS_ERROR_SHORT_TRANSFER \<Rightarrow> EREMOTEIO_LNX
         | USBD_STATUS_TIMEOUT \<Rightarrow> ETIMEDOUT_LNX
         | USBD_STATUS_CANCELED \<Rightarrow> ECONNRESET_LNX
         | USBD_STATUS_PENDING \<Rightarrow> EINPROGRESS_LNX
         | USBD_STATUS_BABBLE_DETECTED \<Rightarrow> EOVERFLOW_LNX
         | USBD_STATUS_DEVICE_GONE \<Rightarrow> ENODEV_LNX
         | USBD_STATUS_CRC \<Rightarrow> EILSEQ_LNX
         | USBD_STATUS_DATA_OVERRUN \<Rightarrow> ECOMM_LNX
         | USBD_STATUS_DATA_UNDERRUN \<Rightarrow> ENOSR_LNX
         | USBD_STATUS_INSUFFICIENT_RESOURCES \<Rightarrow> ENOMEM_LNX
         | USBD_STATUS_BTSTUFF \<Rightarrow> EPROTO_LNX
         | USBD_STATUS_INTERNAL_HC_ERROR \<Rightarrow> EPROTO_LNX
         | USBD_STATUS_HUB_INTERNAL_ERROR \<Rightarrow> EPROTO_LNX
         | USBD_STATUS_DEV_NOT_RESPONDING \<Rightarrow> EPROTO_LNX
         | USBD_STATUS_ERROR_BUSY \<Rightarrow> EBUSY_LNX
         | USBD_STATUS_INVALID_PIPE_HANDLE \<Rightarrow> ENOENT_LNX
         | _ \<Rightarrow> (if USBD_ERROR status then EINVAL_LNX else 0))
      in - err)"

section \<open>Flags and directions\<close>

definition USBD_TRANSFER_DIRECTION_IN :: u32 where "USBD_TRANSFER_DIRECTION_IN = 1"
definition USBD_TRANSFER_DIRECTION_OUT :: u32 where "USBD_TRANSFER_DIRECTION_OUT = 0"
definition USBD_SHORT_TRANSFER_OK :: u32 where "USBD_SHORT_TRANSFER_OK = 2"
definition USBD_START_ISO_TRANSFER_ASAP :: u32 where "USBD_START_ISO_TRANSFER_ASAP = 4"
definition USBD_DEFAULT_PIPE_TRANSFER :: u32 where "USBD_DEFAULT_PIPE_TRANSFER = 8"

definition URB_SHORT_NOT_OK :: u32 where "URB_SHORT_NOT_OK = 1"
definition URB_ISO_ASAP :: u32 where "URB_ISO_ASAP = 2"

lemmas usbd_flag_defs = USBD_TRANSFER_DIRECTION_IN_def USBD_TRANSFER_DIRECTION_OUT_def
  USBD_SHORT_TRANSFER_OK_def USBD_START_ISO_TRANSFER_ASAP_def USBD_DEFAULT_PIPE_TRANSFER_def
  URB_SHORT_NOT_OK_def URB_ISO_ASAP_def

definition to_windows_flags :: "u32 \<Rightarrow> bool \<Rightarrow> u32" where
  "to_windows_flags flags dir_in =
     (let f = (if dir_in then USBD_TRANSFER_DIRECTION_IN else USBD_TRANSFER_DIRECTION_OUT);
          f = (if dir_in \<and> flags AND URB_SHORT_NOT_OK = 0 then f OR USBD_SHORT_TRANSFER_OK else f)
      in if flags AND URB_ISO_ASAP \<noteq> 0 then f OR USBD_START_ISO_TRANSFER_ASAP else f)"

definition to_linux_flags :: "u32 \<Rightarrow> bool \<Rightarrow> u32" where
  "to_linux_flags TransferFlags dir_in =
     (if TransferFlags AND USBD_START_ISO_TRANSFER_ASAP \<noteq> 0 then URB_ISO_ASAP
      else if dir_in \<and> TransferFlags AND USBD_SHORT_TRANSFER_OK = 0 then URB_SHORT_NOT_OK
      else 0)"

definition IsTransferDirectionIn :: "u32 \<Rightarrow> bool" where
  "IsTransferDirectionIn f \<longleftrightarrow> USBD_TRANSFER_DIRECTION_IN = f AND USBD_TRANSFER_DIRECTION_IN"

definition IsTransferDirectionOut :: "u32 \<Rightarrow> bool" where
  "IsTransferDirectionOut f \<longleftrightarrow> USBD_TRANSFER_DIRECTION_OUT = f AND USBD_TRANSFER_DIRECTION_IN"

text \<open>The direction bit of \<open>bmRequestType\<close> in a setup packet, and the direction of a header.\<close>

definition is_transfer_dir_in :: "bytes \<Rightarrow> bool" where
  "is_transfer_dir_in packet \<longleftrightarrow> bit (packet ! 0) 7"

definition is_transfer_dir_out :: "bytes \<Rightarrow> bool" where
  "is_transfer_dir_out packet \<longleftrightarrow> \<not> bit (packet ! 0) 7"

definition is_hdr_dir_in :: "header \<Rightarrow> bool" where
  "is_hdr_dir_in h \<longleftrightarrow> direction h = direction_in"

definition is_hdr_dir_out :: "header \<Rightarrow> bool" where
  "is_hdr_dir_out h \<longleftrightarrow> direction h = direction_out"

section \<open>Lemmas\<close>

lemma u32_flag_bits: "(w :: u32) AND 1 = 0 \<longleftrightarrow> \<not> bit w 0" "w AND 2 = 0 \<longleftrightarrow> \<not> bit w 1"
  "w AND 4 = 0 \<longleftrightarrow> \<not> bit w 2" "w AND 8 = 0 \<longleftrightarrow> \<not> bit w 3"
  using and_exp_eq_0_iff_not_bit [of w 0] and_exp_eq_0_iff_not_bit [of w 1]
    and_exp_eq_0_iff_not_bit [of w 2] and_exp_eq_0_iff_not_bit [of w 3] by simp_all

lemma u32_and_one: "(f :: u32) AND 1 = of_bool (bit f 0)"
  by (simp only: and_one_eq mod_2_eq_odd bit_0)

lemma IsTransferDirectionOut_bit: "IsTransferDirectionOut f \<longleftrightarrow> \<not> bit f 0"
  unfolding IsTransferDirectionOut_def usbd_flag_defs u32_and_one by (cases "bit f 0") simp_all

lemma IsTransferDirectionIn_bit: "IsTransferDirectionIn f \<longleftrightarrow> bit f 0"
  unfolding IsTransferDirectionIn_def usbd_flag_defs u32_and_one by (cases "bit f 0") simp_all

section \<open>Properties\<close>

text \<open>A completion that the server reports as failed is never presented to Windows as a
  success, with whatever sign the server sent the code, and a success is never presented as an
  error.\<close>

lemma to_windows_status_success:
  "(to_windows_status_ex st isoch = USBD_STATUS_SUCCESS \<longleftrightarrow> st = 0) \<and>
   (USBD_ERROR (to_windows_status_ex st isoch) \<longleftrightarrow> st \<noteq> 0) \<and>
   to_windows_status_ex (- st) isoch = to_windows_status_ex st isoch"
  by (auto simp: to_windows_status_ex_def Let_def USBD_ERROR_def)

text \<open>Converting a status that Windows produced to a Linux code and back is the identity on
  the statuses that have a Linux code of their own, and the Linux code is zero or negative as the
  protocol requires.\<close>

lemma usbd_status_roundtrip:
  "to_linux_status st \<le> 0 \<and>
   (st \<in> {USBD_STATUS_SUCCESS, USBD_STATUS_STALL_PID, USBD_STATUS_ERROR_SHORT_TRANSFER,
      USBD_STATUS_TIMEOUT, USBD_STATUS_CANCELED, USBD_STATUS_BABBLE_DETECTED,
      USBD_STATUS_DEVICE_GONE, USBD_STATUS_CRC, USBD_STATUS_DATA_OVERRUN, USBD_STATUS_DATA_UNDERRUN,
      USBD_STATUS_INSUFFICIENT_RESOURCES, USBD_STATUS_BTSTUFF, USBD_STATUS_ERROR_BUSY,
      USBD_STATUS_INVALID_PARAMETER} \<longleftrightarrow>
    to_windows_status (to_linux_status st) = st)"
  by (cases st) (simp_all add: to_linux_status_def to_windows_status_def to_windows_status_ex_def
      USBD_ERROR_def Let_def)

end
