(* ===== verification/Headers.thy ===== *)
theory Headers
  imports Usbd_Helper Descriptor_Patch
begin

text \<open>
  Sequence numbers and command headers: \<open>next_seqnum\<close> and the helpers of
  \<open>drivers/ude/context.cpp\<close> and \<open>context.h\<close>, and \<open>drivers/ude/proto.cpp\<close>.

  The counter of a device is shared by all its queues; \<open>InterlockedIncrement\<close> makes each
  increment one step, and a call of \<open>next_seqnum\<close> is modelled on the value it finds.
\<close>

section \<open>Sequence numbers\<close>

definition extract_num :: "u32 \<Rightarrow> u32" where
  "extract_num seq = drop_bit 1 seq"

definition extract_dir :: "u32 \<Rightarrow> u32" where
  "extract_dir seq = seq AND 1"

definition is_valid_seqnum :: "u32 \<Rightarrow> bool" where
  "is_valid_seqnum seq \<longleftrightarrow> extract_num seq \<noteq> 0"

definition make_devid :: "u16 \<Rightarrow> u16 \<Rightarrow> u32" where
  "make_devid busnum devnum = push_bit 16 (ucast busnum) OR ucast devnum"

lemma unat_times_2: "unat ((s :: u32) * 2) = 2 * (unat s mod 2 ^ 31)"
proof -
  have "unat (s * 2) = (unat s * 2) mod 2 ^ 32"
    using unat_word_ariths(2) [of s 2] by simp
  also have "\<dots> = (unat s mod 2 ^ 31) * 2"
    using mult_mod_left [of "unat s" "2 ^ 31" 2] by simp
  finally show ?thesis by simp
qed

lemma times_2_eq_0: "(s :: u32) * 2 = 0 \<longleftrightarrow> unat s mod 2 ^ 31 = 0"
  using unat_times_2 [of s] by (simp add: word_eq_iff_unsigned [where 'a = nat])

text \<open>\<open>while (true)\<close> with the increment in its condition. Two consecutive counter values cannot both
  be multiples of \<open>2 ^ 31\<close>, so there are at most two rounds.\<close>

lemma unat_succ_mod: "unat (s + 1 :: u32) mod 2 ^ 31 = (unat s + 1) mod 2 ^ 31"
proof -
  have "unat (s + 1) = (unat s + 1) mod 2 ^ 32"
    using unat_word_ariths(1) [of s 1] by simp
  then show ?thesis by (simp add: mod_mod_cancel)
qed

function next_seqnum :: "u32 \<Rightarrow> bool \<Rightarrow> u32 \<times> u32" where
  "next_seqnum counter dir_in =
     (let counter = counter + 1; num = push_bit 1 counter in
      if num \<noteq> 0 then (num OR of_bool dir_in, counter) else next_seqnum counter dir_in)"
  by pat_completeness auto
termination
proof (relation "measure (\<lambda>(c, _). if push_bit 1 (c + 1) = 0 then 1 else 0)")
  fix counter x y :: u32 and dir_in :: bool
  assume x: "x = counter + 1" and y: "y = push_bit 1 x" "\<not> y \<noteq> 0"
  have "unat x mod 2 ^ 31 = 0" using y by (simp add: times_2_eq_0)
  then have "unat (x + 1) mod 2 ^ 31 \<noteq> 0"
    unfolding unat_succ_mod by (simp add: mod_Suc)
  then show "((x, dir_in), counter, dir_in) \<in> measure (\<lambda>(c, _). if push_bit 1 (c + 1) = 0 then 1 else 0)"
    using x y by (simp add: times_2_eq_0)
qed simp

declare next_seqnum.simps [simp del]

text \<open>The numbers that \<open>n\<close> successive calls return, with the directions given.\<close>

primrec seqnums :: "u32 \<Rightarrow> bool list \<Rightarrow> u32 list" where
  "seqnums counter [] = []"
| "seqnums counter (d # ds) =
     (case next_seqnum counter d of (num, counter) \<Rightarrow> num # seqnums counter ds)"

section \<open>Command headers\<close>

definition fix_transfer_flags :: "u32 \<Rightarrow> bool \<Rightarrow> u32" where
  "fix_transfer_flags TransferFlags dir_out =
     (if IsTransferDirectionOut TransferFlags = dir_out then TransferFlags
      else
        let in_flags = USBD_SHORT_TRANSFER_OK OR USBD_TRANSFER_DIRECTION_IN in
        if dir_out then TransferFlags AND NOT in_flags else TransferFlags OR in_flags)"

record device_ctx =
  dev_seqnum :: u32
  dev_devid :: u32

text \<open>The header is written field by field; what was in it before stays where it is not written.\<close>

definition set_cmd_submit_usbip_header ::
  "header \<Rightarrow> device_ctx \<Rightarrow> bytes \<Rightarrow> u32 \<Rightarrow> u32 \<Rightarrow> bool option \<Rightarrow> ntstatus \<times> header \<times> device_ctx" where
  "set_cmd_submit_usbip_header hdr dev epd TransferFlags TransferBufferLength setup_out =
     (if TransferFlags AND USBD_DEFAULT_PIPE_TRANSFER \<noteq> 0 \<and> \<not> usb_default_control_pipe epd
      then (STATUS_INVALID_PARAMETER, hdr, dev)
      else
        let dir_out = (case setup_out of Some b \<Rightarrow> b | None \<Rightarrow> usb_endpoint_dir_out (epd ! 2));
            TransferFlags = fix_transfer_flags TransferFlags dir_out;
            (seq, counter) = next_seqnum (dev_seqnum dev) (\<not> dir_out)
        in (STATUS_SUCCESS,
            hdr\<lparr>command := request_type_code CMD_SUBMIT, seqnum := seq, devid := dev_devid dev,
                direction := (if dir_out then direction_out else direction_in),
                ep := ucast (usb_endpoint_num (epd ! 2)),
                un0 := to_linux_flags TransferFlags (\<not> dir_out), un1 := TransferBufferLength,
                un2 := 0, un3 := word_of_int number_of_packets_non_isoch, un4 := ucast (epd ! 6),
                setup_pkt := replicate 8 0\<rparr>,
            dev\<lparr>dev_seqnum := counter\<rparr>))"

definition set_cmd_unlink_usbip_header :: "header \<Rightarrow> device_ctx \<Rightarrow> u32 \<Rightarrow> header \<times> device_ctx" where
  "set_cmd_unlink_usbip_header hdr dev seqnum_unlink =
     (case next_seqnum (dev_seqnum dev) (direction_out \<noteq> (0 :: u32)) of
        (seq, counter) \<Rightarrow>
          (hdr\<lparr>command := request_type_code CMD_UNLINK, devid := dev_devid dev,
               direction := direction_out, seqnum := seq, ep := 0, un0 := seqnum_unlink\<rparr>,
           dev\<lparr>dev_seqnum := counter\<rparr>))"

section \<open>Lemmas\<close>

text \<open>The low 31 bits of the counter, which are the number without its direction.\<close>

abbreviation low31 :: "u32 \<Rightarrow> nat" where "low31 c \<equiv> unat c mod 2147483648"

lemma low31_succ: "low31 (c + 1) = (if low31 c = 2147483647 then 0 else low31 c + 1)"
  using unat_succ_mod [of c] by (simp add: mod_Suc)

lemma next_seqnum_eq:
  "next_seqnum c d =
     (let c' = (if low31 c = 2147483647 then c + 2 else c + 1) in (push_bit 1 c' OR of_bool d, c'))"
proof (cases "low31 c = 2147483647")
  case True
  then have one: "low31 (c + 1) = 0" by (simp add: low31_succ)
  then have "low31 (c + 1 + 1) = 1" by (subst low31_succ) simp
  then have two: "low31 (c + 2) = 1" by (simp add: add.assoc)
  have "(c + 1) * 2 = 0" "(c + 2) * 2 \<noteq> 0" unfolding times_2_eq_0 using one two by simp_all
  then show ?thesis
    using True by (simp add: next_seqnum.simps [of c] next_seqnum.simps [of "c + 1"] add.assoc)
next
  case False
  then have "(c + 1) * 2 \<noteq> 0" unfolding times_2_eq_0 by (simp add: low31_succ)
  then show ?thesis using False by (simp add: next_seqnum.simps [of c])
qed

lemma next_seqnum_counter:
  assumes "next_seqnum c d = (num, c')"
  shows "low31 c' = low31 c mod 2147483647 + 1"
proof (cases "low31 c = 2147483647")
  case True
  then have "low31 (c + 1) = 0" by (simp add: low31_succ)
  then have "low31 (c + 1 + 1) = 1" by (subst low31_succ) simp
  then show ?thesis using True assms by (auto simp: next_seqnum_eq add.assoc)
next
  case False
  moreover have "low31 c < 2147483648" by simp
  ultimately have "low31 c < 2147483647" by linarith
  then show ?thesis using False low31_succ [of c] assms by (auto simp: next_seqnum_eq)
qed

lemma seqnum_fields:
  assumes "num = push_bit 1 c OR of_bool d"
  shows "unat (extract_num num) = low31 c" "extract_dir num = of_bool d"
proof -
  have bits: "bit num n \<longleftrightarrow> (if n = 0 then d else n < 32 \<and> bit c (n - 1))" for n
    unfolding assms bit_or_iff bit_push_bit_iff
    by (cases d) (auto simp: bit_1_iff dest: bit_imp_le_length)
  have "extract_num num = take_bit 31 c"
    unfolding extract_num_def by (rule bit_word_eqI) (auto simp: bit_drop_bit_eq bit_take_bit_iff bits)
  then have "unat (extract_num num) = take_bit 31 (unat c)"
    by (simp only: unsigned_take_bit_eq)
  then show "unat (extract_num num) = low31 c" by (simp add: take_bit_eq_mod)
  show "extract_dir num = of_bool d"
    unfolding extract_dir_def by (rule bit_word_eqI) (auto simp: bit_and_iff bits bit_1_iff)
qed

lemma seqnums_nth:
  "i < length ds \<Longrightarrow>
    unat (extract_num (seqnums c ds ! i)) = (low31 c + i) mod 2147483647 + 1 \<and>
    extract_dir (seqnums c ds ! i) = of_bool (ds ! i)"
proof (induction ds arbitrary: c i)
  case (Cons d ds)
  obtain num c' where n: "next_seqnum c d = (num, c')" by (metis surj_pair)
  have "num = push_bit 1 c' OR of_bool d" using n by (auto simp: next_seqnum_eq Let_def)
  note num = seqnum_fields [OF this] and c' = next_seqnum_counter [OF n]
  show ?case
  proof (cases i)
    case 0
    then show ?thesis using n num c' by simp
  next
    case (Suc j)
    have "(low31 c mod 2147483647 + 1 + j) mod 2147483647 = (low31 c + Suc j) mod 2147483647"
      using mod_add_left_eq [of "low31 c" 2147483647 "1 + j"] by (simp add: add.assoc)
    then show ?thesis using Cons.IH [of j c'] Cons.prems Suc n c' by simp
  qed
qed simp

lemma length_seqnums [simp]: "length (seqnums c ds) = length ds"
  by (induction ds arbitrary: c) (simp_all split: prod.splits)

lemma mod_offset_eq:
  assumes "(a + i) mod m = (a + j) mod m" "i < m" "j < (m :: nat)"
  shows "i = j"
proof -
  have *: "i = j" if "i \<le> j" "(a + j) mod m = (a + i) mod m" "j < m" for i j
  proof (rule ccontr)
    assume "i \<noteq> j"
    have "m dvd (a + j) - (a + i)"
      using that(1,2) mod_eq_dvd_iff_nat [of "a + i" "a + j" m] by linarith
    then have "m \<le> j - i" using that(1) \<open>i \<noteq> j\<close> by (intro dvd_imp_le) simp_all
    then show False using that(3) \<open>i \<noteq> j\<close> that(1) by linarith
  qed
  show ?thesis using * [of i j] * [of j i] assms by (metis linear)
qed

section \<open>Properties\<close>

text \<open>C16. Among any \<open>2 ^ 31 - 1\<close> successive sequence numbers of a device, from any counter value and
  across its wrap-around, none is used twice, none is zero without its direction bit, and each
  carries the direction it was asked for.\<close>

theorem seqnums_unique:
  assumes "length ds \<le> 2 ^ 31 - 1"
  shows "distinct (seqnums counter ds) \<and>
    (\<forall>i < length ds. is_valid_seqnum (seqnums counter ds ! i) \<and>
       extract_dir (seqnums counter ds ! i) = of_bool (ds ! i))"
proof -
  have "i = j" if "i < length ds" "j < length ds" "seqnums counter ds ! i = seqnums counter ds ! j" for i j
    using that seqnums_nth [of i ds counter] seqnums_nth [of j ds counter] assms
      mod_offset_eq [of "low31 counter" i 2147483647 j] by simp
  then have "distinct (seqnums counter ds)" by (auto simp: distinct_conv_nth)
  moreover have "is_valid_seqnum (seqnums counter ds ! i)" if "i < length ds" for i
    using seqnums_nth [OF that, of counter]
    by (auto simp: is_valid_seqnum_def)
  ultimately show ?thesis using seqnums_nth by blast
qed

theorem seqnums_unique_witness:
  "distinct (seqnums 0x7FFFFFFF [True, False, True])"
  using seqnums_unique [of "[True, False, True]" "0x7FFFFFFF"] by simp

text \<open>The direction of a transfer is forced into the flags: afterwards the flags have the
  direction of the pipe, an OUT transfer has no short-transfer flag when its direction had to be
  corrected, and all the other flags are as they were.\<close>

lemma fix_transfer_flags_direction:
  "IsTransferDirectionOut (fix_transfer_flags flags dir_out) = dir_out \<and>
   (\<forall>n. n \<noteq> 0 \<and> n \<noteq> 1 \<longrightarrow> bit (fix_transfer_flags flags dir_out) n = bit flags n) \<and>
   (IsTransferDirectionOut flags \<noteq> dir_out \<longrightarrow> bit (fix_transfer_flags flags dir_out) 1 = (\<not> dir_out))"
proof -
  define f where "f = USBD_SHORT_TRANSFER_OK OR USBD_TRANSFER_DIRECTION_IN"
  have bits: "bit f n \<longleftrightarrow> n = 0 \<or> n = 1" for n
    unfolding f_def usbd_flag_defs bit_or_iff by (auto simp: bit_1_iff bit_2_iff)
  have "bit (fix_transfer_flags flags dir_out) n =
      (if IsTransferDirectionOut flags = dir_out then bit flags n
       else if n = 0 \<or> n = 1 then \<not> dir_out else bit flags n)" for n
    unfolding fix_transfer_flags_def f_def [symmetric] Let_def
    using bit_imp_le_length [of flags n]
    by (auto simp: bit_and_iff bit_or_iff bit_not_iff bits)
  then show ?thesis by (auto simp: IsTransferDirectionOut_bit)
qed

lemma submit_header:
  assumes "set_cmd_submit_usbip_header hdr dev epd flags len setup_out = (st, hdr', dev')"
    and "unat len < 2 ^ 31"
  shows "if flags AND USBD_DEFAULT_PIPE_TRANSFER \<noteq> 0 \<and> \<not> usb_default_control_pipe epd
    then st = STATUS_INVALID_PARAMETER \<and> hdr' = hdr \<and> dev' = dev
    else st = STATUS_SUCCESS \<and> command hdr' = request_type_code CMD_SUBMIT \<and>
      is_valid_seqnum (seqnum hdr') \<and> extract_dir (seqnum hdr') = direction hdr' \<and>
      devid hdr' = dev_devid dev \<and> unat (ep hdr') < 16 \<and> length (setup_pkt hdr') = 8 \<and>
      unat (get_payload_size hdr') = (if direction hdr' = direction_out then unat len else 0)"
proof -
  define dir_out where "dir_out = (case setup_out of Some b \<Rightarrow> b | None \<Rightarrow> usb_endpoint_dir_out (epd ! 2))"
  obtain num c where n: "next_seqnum (dev_seqnum dev) (\<not> dir_out) = (num, c)" by (metis surj_pair)
  then have num: "num = push_bit 1 c OR of_bool (\<not> dir_out)" by (auto simp: next_seqnum_eq Let_def)
  note fields = seqnum_fields [OF num] and c = next_seqnum_counter [OF n]
  have "is_valid_seqnum num" using fields(1) c by (auto simp: is_valid_seqnum_def)
  moreover have "unat (ucast (usb_endpoint_num (epd ! 2)) :: u32) < 16"
  proof -
    have "usb_endpoint_num (epd ! 2) = take_bit 4 (epd ! 2)"
      unfolding usb_endpoint_num_def take_bit_eq_mask by (simp add: mask_eq_exp_minus_1)
    then have "unat (ucast (usb_endpoint_num (epd ! 2)) :: u32) = take_bit 4 (unat (epd ! 2))"
      by (simp only: unsigned_ucast_eq unsigned_take_bit_eq) simp
    then show ?thesis using take_bit_nat_less_exp [of 4 "unat (epd ! 2)"] by simp
  qed
  moreover have "unat (get_payload_size hdr') = (if direction hdr' = direction_out then unat len else 0)"
    if hdr': "command hdr' = 1" "un1 hdr' = len" "un3 hdr' = - 1"
  proof -
    have "sint len = int (unat len)"
      using assms(2) sint_of_nat_u32 [of "unat len"] by simp
    then show ?thesis
      using payload_size_eq [of CMD_SUBMIT hdr'] hdr'
      by (simp add: isoc_count_def number_of_packets_non_isoch_def)
  qed
  ultimately show ?thesis
    using assms(1) n fields(2) by (cases dir_out) (auto simp: set_cmd_submit_usbip_header_def Let_def number_of_packets_non_isoch_def
        simp flip: dir_out_def)
qed

text \<open>A submit header that is built without error is a well formed command of this device: its
  sequence number is valid and carries the same direction as the header, the endpoint number is
  below 16, it is not isochronous, and its payload is the transfer buffer for OUT and nothing
  for IN. An inconsistent default pipe flag is refused before anything is changed.\<close>

lemma submit_header_wf:
  assumes "set_cmd_submit_usbip_header hdr dev epd flags len setup_out = (st, hdr', dev')"
    and "unat len < 2 ^ 31"
  shows "if flags AND USBD_DEFAULT_PIPE_TRANSFER \<noteq> 0 \<and> \<not> usb_default_control_pipe epd
    then st = STATUS_INVALID_PARAMETER \<and> hdr' = hdr \<and> dev' = dev
    else st = STATUS_SUCCESS \<and> command hdr' = request_type_code CMD_SUBMIT \<and>
      is_valid_seqnum (seqnum hdr') \<and> extract_dir (seqnum hdr') = direction hdr' \<and>
      devid hdr' = dev_devid dev \<and> unat (ep hdr') < 16 \<and> length (setup_pkt hdr') = 8 \<and>
      unat (get_payload_size hdr') = (if direction hdr' = direction_out then unat len else 0)"
  using assms by (rule submit_header)

end
