(* ===== verification/Request_List.thy ===== *)
theory Request_List
  imports Prelude
begin

text \<open>
  Requests that wait for the server, \<open>drivers/ude/request_list.cpp\<close> and \<open>request_list.h\<close>, the
  purge of an endpoint in \<open>drivers/ude/device.cpp\<close>, and the race between the server's answer, the completion of the send, the
  purge and the cancellation of a request (\<open>send_complete\<close>, \<open>ret_command\<close>, \<open>cancel_request\<close>).

  \<open>WdfRequestMarkCancelableEx\<close> and \<open>WdfRequestUnmarkCancelable\<close> belong to the framework: their
  results are arguments of the functions. The step relation of the second half adds the
  framework's documented behaviour: the cancel routine is called at most once, marking a cancelled
  request fails, and unmarking fails with \<open>STATUS_CANCELLED\<close> exactly when the routine was called.
\<close>

section \<open>The list of requests\<close>

record request_ctx =
  re_request :: nat
  re_endpoint :: nat
  re_seqnum :: u32
  re_cancelable :: bool

datatype request_search = SEQNUM u32 | REQUEST nat | ENDPOINT nat

fun multimatch :: "request_search \<Rightarrow> bool" where
  "multimatch (ENDPOINT _) = True"
| "multimatch _ = False"

fun matches :: "request_ctx \<Rightarrow> request_search \<Rightarrow> bool" where
  "matches req (SEQNUM s) = (s = re_seqnum req)"
| "matches req (REQUEST r) = (r = re_request req)"
| "matches req (ENDPOINT e) = (e = re_endpoint req)"

definition append_request :: "request_ctx list \<Rightarrow> nat \<Rightarrow> u32 \<Rightarrow> nat \<Rightarrow> request_ctx list" where
  "append_request requests request seq endpoint =
     requests @ [\<lparr>re_request = request, re_endpoint = endpoint, re_seqnum = seq, re_cancelable = False\<rparr>]"

text \<open>The loop of \<open>mark_request_cancelable\<close>: the status, the list and how many requests were
  marked. \<open>mark\<close> is the result of \<open>WdfRequestMarkCancelableEx\<close>.\<close>

fun mark_request_cancelable ::
  "(nat \<Rightarrow> ntstatus) \<Rightarrow> request_ctx list \<Rightarrow> u32 \<Rightarrow> ntstatus \<times> request_ctx list \<times> nat" where
  "mark_request_cancelable mark [] seq = (STATUS_SUCCESS, [], 0)"
| "mark_request_cancelable mark (req # reqs) seq =
     (if re_seqnum req \<noteq> seq then
        case mark_request_cancelable mark reqs seq of (st, reqs, n) \<Rightarrow> (st, req # reqs, n)
      else let err = mark (re_request req) in
        if err \<noteq> STATUS_SUCCESS then (err, reqs, 0)
        else (STATUS_SUCCESS, req\<lparr>re_cancelable := True\<rparr> # reqs, 1))"

text \<open>The loop of \<open>remove_request\<close>: the request to complete, \<open>None\<close> for \<open>WDF_NO_HANDLE\<close>, and the
  list. \<open>unmark\<close> is the result of \<open>WdfRequestUnmarkCancelable\<close>.\<close>

fun remove_request ::
  "(nat \<Rightarrow> ntstatus) \<Rightarrow> request_ctx list \<Rightarrow> request_search \<Rightarrow> bool \<Rightarrow> nat option \<times> request_ctx list" where
  "remove_request unmark [] crit unmark_cancelable = (None, [])"
| "remove_request unmark (req # reqs) crit unmark_cancelable =
     (if \<not> matches req crit then
        case remove_request unmark reqs crit unmark_cancelable of (r, reqs) \<Rightarrow> (r, req # reqs)
      else if \<not> (unmark_cancelable \<and> re_cancelable req) then (Some (re_request req), reqs)
      else let ret = unmark (re_request req) in
        if ret = STATUS_SUCCESS then (Some (re_request req), reqs)
        else if ret \<noteq> STATUS_CANCELLED then (Some (re_request req), reqs)
        else if multimatch crit then remove_request unmark reqs crit unmark_cancelable
        else (None, reqs))"

lemma remove_request_shorter:
  "remove_request unmark reqs crit flag = (Some r, reqs') \<Longrightarrow> length reqs' < length reqs"
proof (induction reqs arbitrary: reqs')
  case (Cons req reqs)
  then show ?case by (fastforce simp: Let_def less_Suc_eq split: if_splits prod.splits)
qed simp

text \<open>The loop of \<open>endpoint_purge\<close>: the requests that are unlinked and completed with
  \<open>STATUS_CANCELLED\<close>, and the list.\<close>

function endpoint_purge ::
  "(nat \<Rightarrow> ntstatus) \<Rightarrow> request_ctx list \<Rightarrow> nat \<Rightarrow> nat list \<times> request_ctx list" where
  "endpoint_purge unmark reqs endpoint =
     (case remove_request unmark reqs (ENDPOINT endpoint) True of
        (None, reqs) \<Rightarrow> ([], reqs)
      | (Some r, reqs) \<Rightarrow>
          case endpoint_purge unmark reqs endpoint of (rs, reqs) \<Rightarrow> (r # rs, reqs))"
  by pat_completeness auto
termination
  by (relation "measure (\<lambda>(_, reqs, _). length reqs)") (auto elim: remove_request_shorter [OF sym])

declare endpoint_purge.simps [simp del]

section \<open>Lemmas\<close>

text \<open>What \<open>remove_request\<close> takes out of a list without duplicates: the request it returns, and
  with \<open>unmark_cancelable\<close> also requests whose cancel routine was called.\<close>

definition taken :: "(nat \<Rightarrow> ntstatus) \<Rightarrow> bool \<Rightarrow> request_search \<Rightarrow> nat option \<Rightarrow> request_ctx \<Rightarrow> bool" where
  "taken unmark flag crit res e \<longleftrightarrow> matches e crit \<and>
     (res = Some (re_request e) \<or> flag \<and> re_cancelable e \<and> unmark (re_request e) = STATUS_CANCELLED)"

lemma remove_request_ConsE:
  assumes "remove_request unmark (req # reqs) crit flag = (res, reqs')"
  obtains (skip) reqs1 where "\<not> matches req crit" "remove_request unmark reqs crit flag = (res, reqs1)"
      "reqs' = req # reqs1"
  | (found) "matches req crit" "res = Some (re_request req)" "reqs' = reqs"
      "flag \<and> re_cancelable req \<longrightarrow> unmark (re_request req) \<noteq> STATUS_CANCELLED"
  | (cancelled) "matches req crit" "flag" "re_cancelable req"
      "unmark (re_request req) = STATUS_CANCELLED" "\<not> multimatch crit" "res = None" "reqs' = reqs"
  | (more) "matches req crit" "flag" "re_cancelable req"
      "unmark (re_request req) = STATUS_CANCELLED" "multimatch crit"
      "remove_request unmark reqs crit flag = (res, reqs')"
  using assms by (auto simp: Let_def split: if_splits prod.splits)

lemma remove_request_filter:
  assumes "remove_request unmark reqs crit flag = (res, reqs')" "distinct (map re_request reqs)"
  shows "\<exists>P. reqs' = filter P reqs"
  using assms
proof (induction reqs arbitrary: reqs')
  case (Cons req reqs)
  have notin: "req \<notin> set reqs" and dist: "distinct (map re_request reqs)" using Cons.prems(2) by auto
  have ext: "\<exists>Q. b @ filter P reqs = filter Q (req # reqs)" if "b = [] \<or> b = [req]" for b P
  proof -
    have "filter (\<lambda>e. if e = req then b \<noteq> [] else P e) reqs = filter P reqs"
      by (rule filter_cong) (use notin in auto)
    then show ?thesis
      using that by (intro exI [of _ "\<lambda>e. if e = req then b \<noteq> [] else P e"]) auto
  qed
  have tl: "\<exists>P. reqs = filter P (req # reqs)" using ext [of "[]" "\<lambda>_. True"] by simp
  from Cons.prems(1) show ?case
  proof (cases rule: remove_request_ConsE)
    case (skip reqs1)
    from Cons.IH [OF skip(2) dist] obtain P where "reqs1 = filter P reqs" ..
    then show ?thesis using ext [of "[req]" P] unfolding skip(3) append_Cons append_Nil by blast
  next
    case more
    from Cons.IH [OF more(6) dist] obtain P where "reqs' = filter P reqs" ..
    then show ?thesis using ext [of "[]" P] unfolding append_Nil by blast
  next
    case found
    then show ?thesis using tl by (simp only:)
  next
    case cancelled
    then show ?thesis using tl by (simp only:)
  qed
qed simp

lemma remove_request_spec:
  assumes "remove_request unmark reqs crit flag = (res, reqs')" "distinct (map re_request reqs)"
  shows "\<forall>e \<in> set reqs - set reqs'. taken unmark flag crit res e"
    and "\<forall>r. res = Some r \<longrightarrow> (\<exists>e \<in> set reqs - set reqs'. re_request e = r \<and> matches e crit \<and>
       (flag \<and> re_cancelable e \<longrightarrow> unmark r \<noteq> STATUS_CANCELLED))"
    and "res = None \<longrightarrow> multimatch crit \<longrightarrow> (\<forall>e \<in> set reqs'. \<not> matches e crit)"
proof -
  have "(\<forall>e \<in> set reqs - set reqs'. taken unmark flag crit res e) \<and>
    (\<forall>r. res = Some r \<longrightarrow> (\<exists>e \<in> set reqs - set reqs'. re_request e = r \<and> matches e crit \<and>
       (flag \<and> re_cancelable e \<longrightarrow> unmark r \<noteq> STATUS_CANCELLED))) \<and>
    (res = None \<longrightarrow> multimatch crit \<longrightarrow> (\<forall>e \<in> set reqs'. \<not> matches e crit))"
    using assms
  proof (induction reqs arbitrary: reqs')
    case (Cons req reqs)
    have notin: "req \<notin> set reqs" and dist: "distinct (map re_request reqs)"
      using Cons.prems(2) by auto
    from Cons.prems(1) show ?case
    proof (cases rule: remove_request_ConsE)
      case (skip reqs1)
      obtain P where "reqs1 = filter P reqs" using remove_request_filter [OF skip(2) dist] by blast
      then have "set (req # reqs) - set reqs' = set reqs - set reqs1"
        using notin by (auto simp: skip(3))
      then show ?thesis using Cons.IH [OF skip(2) dist] skip by simp
    next
      case found
      then have "set (req # reqs) - set reqs' = {req}" using notin by auto
      then show ?thesis using found by (simp add: taken_def)
    next
      case cancelled
      then have "set (req # reqs) - set reqs' = {req}" using notin by auto
      then show ?thesis using cancelled by (simp add: taken_def)
    next
      case more
      obtain P where "reqs' = filter P reqs" using remove_request_filter [OF more(6) dist] by blast
      then have "set (req # reqs) - set reqs' = insert req (set reqs - set reqs')"
        using notin by auto
      moreover have "taken unmark flag crit res req" using more by (simp add: taken_def)
      ultimately show ?thesis using Cons.IH [OF more(6) dist] by simp
    qed
  qed simp
  then show "\<forall>e \<in> set reqs - set reqs'. taken unmark flag crit res e"
    and "\<forall>r. res = Some r \<longrightarrow> (\<exists>e \<in> set reqs - set reqs'. re_request e = r \<and> matches e crit \<and>
       (flag \<and> re_cancelable e \<longrightarrow> unmark r \<noteq> STATUS_CANCELLED))"
    and "res = None \<longrightarrow> multimatch crit \<longrightarrow> (\<forall>e \<in> set reqs'. \<not> matches e crit)"
    by blast+
qed

lemma endpoint_purge_skip:
  "re_endpoint req \<noteq> endpoint \<Longrightarrow>
    endpoint_purge unmark (req # reqs) endpoint =
      (case endpoint_purge unmark reqs endpoint of (rs, reqs) \<Rightarrow> (rs, req # reqs))"
proof (induction unmark reqs endpoint rule: endpoint_purge.induct)
  case (1 unmark reqs endpoint)
  then show ?case
    by (auto simp: endpoint_purge.simps [of unmark "req # _"] endpoint_purge.simps [of unmark reqs]
        split: prod.splits option.splits)
qed

lemma endpoint_purge_Cons:
  "re_endpoint req = endpoint \<Longrightarrow>
    endpoint_purge unmark (req # reqs) endpoint =
      (if re_cancelable req \<and> unmark (re_request req) = STATUS_CANCELLED then endpoint_purge unmark reqs endpoint
       else case endpoint_purge unmark reqs endpoint of (rs, reqs) \<Rightarrow> (re_request req # rs, reqs))"
  by (auto simp: endpoint_purge.simps [of unmark "req # reqs"] endpoint_purge.simps [of unmark reqs] Let_def
      split: prod.splits option.splits)

section \<open>The race for a request\<close>

text \<open>
  The state of one device: the list; for each request handle whether it is alive (given to the
  driver and not yet completed), whether its issuer cancelled it, what the framework knows of its
  cancel routine, and how many code paths have taken it and are about to complete it; and the
  sends whose completion routine has not run yet, in the order in which they complete. Handles are
  reused after completion, also while an old send is still in flight.
\<close>

datatype fw_state = NotMarked | Marked | CancelCalled

record race =
  lst :: "request_ctx list"
  fw :: "nat \<Rightarrow> fw_state"
  cancelled :: "nat \<Rightarrow> bool"
  live :: "nat \<Rightarrow> bool"
  pend :: "nat \<Rightarrow> nat"
  inflight :: "(nat \<times> u32) list"

definition unmark_result :: "race \<Rightarrow> nat \<Rightarrow> ntstatus" where
  "unmark_result \<sigma> r = (if fw \<sigma> r = CancelCalled then STATUS_CANCELLED else STATUS_SUCCESS)"

definition mark_result :: "race \<Rightarrow> nat \<Rightarrow> ntstatus" where
  "mark_result \<sigma> r = (if cancelled \<sigma> r then STATUS_CANCELLED else STATUS_SUCCESS)"

text \<open>A code path has got a request from the list and will complete it.\<close>

definition take_over :: "nat option \<Rightarrow> race \<Rightarrow> race" where
  "take_over res \<sigma> =
     (case res of
        None \<Rightarrow> \<sigma>
      | Some r \<Rightarrow> \<sigma>\<lparr>fw := (fw \<sigma>)(r := NotMarked), pend := (pend \<sigma>)(r := pend \<sigma> r + 1)\<rparr>)"

definition remove_step :: "request_search \<Rightarrow> bool \<Rightarrow> race \<Rightarrow> race" where
  "remove_step crit flag \<sigma> =
     (case remove_request (unmark_result \<sigma>) (lst \<sigma>) crit flag of
        (res, reqs) \<Rightarrow> take_over res (\<sigma>\<lparr>lst := reqs\<rparr>))"

text \<open>\<open>send\<close> puts the request in the list and starts the send.\<close>

definition submit_step :: "nat \<Rightarrow> nat \<Rightarrow> u32 \<Rightarrow> race \<Rightarrow> race" where
  "submit_step r endpoint s \<sigma> =
     \<sigma>\<lparr>lst := append_request (lst \<sigma>) r s endpoint, live := (live \<sigma>)(r := True),
       cancelled := (cancelled \<sigma>)(r := False), inflight := inflight \<sigma> @ [(r, s)]\<rparr>"

definition user_cancel_step :: "nat \<Rightarrow> race \<Rightarrow> race" where
  "user_cancel_step r \<sigma> =
     \<sigma>\<lparr>cancelled := (cancelled \<sigma>)(r := True),
       fw := (if fw \<sigma> r = Marked then (fw \<sigma>)(r := CancelCalled) else fw \<sigma>)\<rparr>"

text \<open>\<open>send_complete\<close> for a successful and for a failed send.\<close>

definition send_ok_step :: "nat \<Rightarrow> u32 \<Rightarrow> race \<Rightarrow> race" where
  "send_ok_step r s \<sigma> =
     (case mark_request_cancelable (mark_result \<sigma>) (lst \<sigma>) s of
        (err, reqs, marked) \<Rightarrow>
          if err \<noteq> STATUS_SUCCESS
          then \<sigma>\<lparr>lst := reqs, pend := (pend \<sigma>)(r := pend \<sigma> r + 1), inflight := tl (inflight \<sigma>)\<rparr>
          else \<sigma>\<lparr>lst := reqs, fw := (if marked = 0 then fw \<sigma> else (fw \<sigma>)(r := Marked)),
                 inflight := tl (inflight \<sigma>)\<rparr>)"

definition send_failed_step :: "nat \<Rightarrow> race \<Rightarrow> race" where
  "send_failed_step r \<sigma> = remove_step (REQUEST r) False \<sigma>\<lparr>inflight := tl (inflight \<sigma>)\<rparr>"

text \<open>\<open>cancel_request\<close>, the cancel routine.\<close>

definition cancel_step :: "nat \<Rightarrow> race \<Rightarrow> race" where
  "cancel_step r \<sigma> =
     \<sigma>\<lparr>lst := snd (remove_request (unmark_result \<sigma>) (lst \<sigma>) (REQUEST r) False),
       fw := (fw \<sigma>)(r := NotMarked), pend := (pend \<sigma>)(r := pend \<sigma> r + 1)\<rparr>"

definition complete_step :: "nat \<Rightarrow> race \<Rightarrow> race" where
  "complete_step r \<sigma> = \<sigma>\<lparr>pend := (pend \<sigma>)(r := pend \<sigma> r - 1), live := (live \<sigma>)(r := False)\<rparr>"

inductive race_step :: "race \<Rightarrow> race \<Rightarrow> bool" where
  submit: "\<not> live \<sigma> r \<Longrightarrow> s \<notin> re_seqnum ` set (lst \<sigma>) \<Longrightarrow> s \<notin> snd ` set (inflight \<sigma>) \<Longrightarrow>
    race_step \<sigma> (submit_step r endpoint s \<sigma>)"
| user_cancel: "live \<sigma> r \<Longrightarrow> race_step \<sigma> (user_cancel_step r \<sigma>)"
| send_ok: "inflight \<sigma> = (r, s) # rest \<Longrightarrow> race_step \<sigma> (send_ok_step r s \<sigma>)"
| send_failed: "inflight \<sigma> = (r, s) # rest \<Longrightarrow> race_step \<sigma> (send_failed_step r \<sigma>)"
| ret_submit: "race_step \<sigma> (remove_step (SEQNUM s) True \<sigma>)"
| purge: "race_step \<sigma> (remove_step (ENDPOINT endpoint) True \<sigma>)"
| cancel: "fw \<sigma> r = CancelCalled \<Longrightarrow> race_step \<sigma> (cancel_step r \<sigma>)"
| complete: "pend \<sigma> r > 0 \<Longrightarrow> race_step \<sigma> (complete_step r \<sigma>)"

definition race_init :: race where
  "race_init = \<lparr>lst = [], fw = (\<lambda>_. NotMarked), cancelled = (\<lambda>_. False), live = (\<lambda>_. False),
     pend = (\<lambda>_. 0), inflight = []\<rparr>"

inductive race_reachable :: "race \<Rightarrow> bool" where
  reach_init: "race_reachable race_init"
| reach_step: "race_reachable \<sigma> \<Longrightarrow> race_step \<sigma> \<sigma>' \<Longrightarrow> race_reachable \<sigma>'"

section \<open>The invariant\<close>

text \<open>Requests in the list: alive, not taken, and marked exactly when the framework knows it.\<close>

definition inv_list :: "race \<Rightarrow> bool" where
  "inv_list \<sigma> \<longleftrightarrow> distinct (map re_request (lst \<sigma>)) \<and> distinct (map re_seqnum (lst \<sigma>)) \<and>
     (\<forall>e \<in> set (lst \<sigma>). live \<sigma> (re_request e) \<and> pend \<sigma> (re_request e) = 0 \<and>
        (re_cancelable e \<longleftrightarrow> fw \<sigma> (re_request e) \<noteq> NotMarked))"

text \<open>Every request alive has exactly one party that will complete it.\<close>

definition inv_owner :: "race \<Rightarrow> bool" where
  "inv_owner \<sigma> \<longleftrightarrow> (\<forall>r.
     pend \<sigma> r \<le> 1 \<and> (pend \<sigma> r = 1 \<longrightarrow> live \<sigma> r) \<and>
     (fw \<sigma> r = Marked \<longrightarrow> r \<in> re_request ` set (lst \<sigma>)) \<and>
     (fw \<sigma> r \<noteq> NotMarked \<longrightarrow> live \<sigma> r \<and> pend \<sigma> r = 0) \<and>
     (live \<sigma> r \<longrightarrow> r \<in> re_request ` set (lst \<sigma>) \<or> pend \<sigma> r = 1 \<or> fw \<sigma> r = CancelCalled))"

text \<open>A request is not marked before its own send has completed, and the entry of a handle
  belongs to its latest send.\<close>

definition inv_sends :: "race \<Rightarrow> bool" where
  "inv_sends \<sigma> \<longleftrightarrow> distinct (map snd (inflight \<sigma>)) \<and>
     (\<forall>e \<in> set (lst \<sigma>). \<forall>(r, s) \<in> set (inflight \<sigma>).
        s = re_seqnum e \<longrightarrow> r = re_request e \<and> \<not> re_cancelable e) \<and>
     (\<forall>e \<in> set (lst \<sigma>). \<forall>xs s ys. inflight \<sigma> = xs @ (re_request e, s) # ys \<longrightarrow>
        re_seqnum e = s \<or> (re_request e, re_seqnum e) \<in> set ys)"

definition race_inv :: "race \<Rightarrow> bool" where
  "race_inv \<sigma> \<longleftrightarrow> inv_list \<sigma> \<and> inv_owner \<sigma> \<and> inv_sends \<sigma>"

lemma inv_sends_shrink:
  assumes "inv_sends \<sigma>" "set (lst \<sigma>') \<subseteq> set (lst \<sigma>)"
    and "inflight \<sigma>' = inflight \<sigma> \<or> inflight \<sigma>' = tl (inflight \<sigma>)"
  shows "inv_sends \<sigma>'"
proof -
  obtain zs where zs: "inflight \<sigma> = zs @ inflight \<sigma>'"
    using assms(3) by (metis append_Nil append_Cons list.exhaust_sel tl_Nil)
  have "distinct (map snd (inflight \<sigma>'))" using assms(1) by (simp add: inv_sends_def zs)
  moreover have "\<forall>e \<in> set (lst \<sigma>'). \<forall>(r, s) \<in> set (inflight \<sigma>').
      s = re_seqnum e \<longrightarrow> r = re_request e \<and> \<not> re_cancelable e"
    using assms(1,2) unfolding inv_sends_def zs by fastforce
  moreover have "re_seqnum e = s \<or> (re_request e, re_seqnum e) \<in> set ys"
    if "e \<in> set (lst \<sigma>')" "inflight \<sigma>' = xs @ (re_request e, s) # ys" for e xs s ys
  proof -
    have "inflight \<sigma> = (zs @ xs) @ (re_request e, s) # ys" by (simp add: zs that(2))
    then show ?thesis using assms(1,2) that(1) unfolding inv_sends_def by blast
  qed
  ultimately show ?thesis unfolding inv_sends_def by blast
qed

lemma inv_list_entry:
  assumes "inv_list \<sigma>" "e \<in> set (lst \<sigma>)"
  shows "live \<sigma> (re_request e)" "pend \<sigma> (re_request e) = 0"
    "re_cancelable e \<longleftrightarrow> fw \<sigma> (re_request e) \<noteq> NotMarked"
  using assms by (simp_all add: inv_list_def)

lemma inv_list_unique:
  "inv_list \<sigma> \<Longrightarrow> e \<in> set (lst \<sigma>) \<Longrightarrow> e' \<in> set (lst \<sigma>) \<Longrightarrow> re_request e = re_request e' \<Longrightarrow> e = e'"
  by (auto simp: inv_list_def distinct_map dest: inj_onD)

text \<open>What \<open>remove_request\<close> does to a list that satisfies the invariant.\<close>

lemma remove_request_inv:
  assumes inv: "inv_list \<sigma>"
    and plain: "flag \<or> (\<forall>e \<in> set (lst \<sigma>). matches e crit \<longrightarrow> \<not> re_cancelable e)"
    and r: "remove_request (unmark_result \<sigma>) (lst \<sigma>) crit flag = (res, l)"
  shows "inv_list (\<sigma>\<lparr>lst := l\<rparr>)" "set l \<subseteq> set (lst \<sigma>)"
    and "\<forall>e \<in> set (lst \<sigma>) - set l. res = Some (re_request e) \<or> fw \<sigma> (re_request e) = CancelCalled"
    and "res = Some q \<Longrightarrow> q \<notin> re_request ` set l \<and> fw \<sigma> q \<noteq> CancelCalled \<and> live \<sigma> q \<and> pend \<sigma> q = 0"
proof -
  have dist: "distinct (map re_request (lst \<sigma>))" using inv by (simp add: inv_list_def)
  note rspec = remove_request_spec [OF r dist]
  obtain P where P: "l = filter P (lst \<sigma>)" using remove_request_filter [OF r dist] by blast
  show sub: "set l \<subseteq> set (lst \<sigma>)" by (auto simp: P)
  show "inv_list (\<sigma>\<lparr>lst := l\<rparr>)"
    using inv by (auto simp: P inv_list_def distinct_map_filter)
  show "\<forall>e \<in> set (lst \<sigma>) - set l. res = Some (re_request e) \<or> fw \<sigma> (re_request e) = CancelCalled"
    using rspec(1) by (auto simp: taken_def unmark_result_def split: if_splits)
  assume res: "res = Some q"
  obtain e where e: "e \<in> set (lst \<sigma>)" "e \<notin> set l" "re_request e = q" "matches e crit"
    "flag \<and> re_cancelable e \<longrightarrow> unmark_result \<sigma> q \<noteq> STATUS_CANCELLED"
    using rspec(2) [rule_format, OF res] by auto
  have "q \<notin> re_request ` set l"
  proof
    assume "q \<in> re_request ` set l"
    then obtain f where "f \<in> set l" "re_request f = re_request e" using e(3) by auto
    then show False using inv_list_unique [OF inv _ e(1), of f] e(2) sub by auto
  qed
  moreover have "fw \<sigma> q \<noteq> CancelCalled"
  proof
    assume called: "fw \<sigma> q = CancelCalled"
    then have c: "re_cancelable e" using inv_list_entry(3) [OF inv e(1)] e(3) by simp
    then have "flag" using plain e(1,4) by blast
    then show False using e(5) c called by (simp add: unmark_result_def)
  qed
  ultimately show "q \<notin> re_request ` set l \<and> fw \<sigma> q \<noteq> CancelCalled \<and> live \<sigma> q \<and> pend \<sigma> q = 0"
    using inv_list_entry [OF inv e(1)] e(3) by simp
qed

lemma race_inv_remove:
  assumes inv: "inv_list \<sigma>" "inv_owner \<sigma>"
    and plain: "flag \<or> (\<forall>e \<in> set (lst \<sigma>). matches e crit \<longrightarrow> \<not> re_cancelable e)"
  shows "inv_list (remove_step crit flag \<sigma>)" "inv_owner (remove_step crit flag \<sigma>)"
    "set (lst (remove_step crit flag \<sigma>)) \<subseteq> set (lst \<sigma>)" "inflight (remove_step crit flag \<sigma>) = inflight \<sigma>"
proof -
  obtain res l where r: "remove_request (unmark_result \<sigma>) (lst \<sigma>) crit flag = (res, l)" by (metis surj_pair)
  have step: "remove_step crit flag \<sigma> = take_over res (\<sigma>\<lparr>lst := l\<rparr>)" by (simp add: remove_step_def r)
  note l = remove_request_inv(1) [OF inv(1) plain r] and sub = remove_request_inv(2) [OF inv(1) plain r]
    and gone = remove_request_inv(3) [OF inv(1) plain r] and result = remove_request_inv(4) [OF inv(1) plain r]
  show "inv_list (remove_step crit flag \<sigma>)"
  proof (cases res)
    case None
    then show ?thesis using l by (simp add: step take_over_def)
  next
    case (Some q)
    have "\<forall>e \<in> set l. re_request e \<noteq> q" using result [OF Some] by blast
    then show ?thesis using l by (simp add: step take_over_def Some inv_list_def)
  qed
  have stay: "r \<in> re_request ` set l \<or> res = Some r \<or> fw \<sigma> r = CancelCalled"
    if "r \<in> re_request ` set (lst \<sigma>)" for r
  proof -
    from that obtain e where "e \<in> set (lst \<sigma>)" "re_request e = r" by auto
    then show ?thesis using gone by (cases "e \<in> set l") auto
  qed
  show "inv_owner (remove_step crit flag \<sigma>)"
    unfolding inv_owner_def
  proof (rule allI)
    fix r
    have own: "pend \<sigma> r \<le> 1 \<and> (pend \<sigma> r = 1 \<longrightarrow> live \<sigma> r) \<and>
     (fw \<sigma> r = Marked \<longrightarrow> r \<in> re_request ` set (lst \<sigma>)) \<and>
     (fw \<sigma> r \<noteq> NotMarked \<longrightarrow> live \<sigma> r \<and> pend \<sigma> r = 0) \<and>
     (live \<sigma> r \<longrightarrow> r \<in> re_request ` set (lst \<sigma>) \<or> pend \<sigma> r = 1 \<or> fw \<sigma> r = CancelCalled)"
      using inv(2) unfolding inv_owner_def by (rule spec)
    let ?\<tau> = "remove_step crit flag \<sigma>"
    show "pend ?\<tau> r \<le> 1 \<and> (pend ?\<tau> r = 1 \<longrightarrow> live ?\<tau> r) \<and>
     (fw ?\<tau> r = Marked \<longrightarrow> r \<in> re_request ` set (lst ?\<tau>)) \<and>
     (fw ?\<tau> r \<noteq> NotMarked \<longrightarrow> live ?\<tau> r \<and> pend ?\<tau> r = 0) \<and>
     (live ?\<tau> r \<longrightarrow> r \<in> re_request ` set (lst ?\<tau>) \<or> pend ?\<tau> r = 1 \<or> fw ?\<tau> r = CancelCalled)"
    proof (cases "res = Some r")
      case True
      show ?thesis using result [OF True] by (simp add: step take_over_def True)
    next
      case False
      have same: "pend ?\<tau> r = pend \<sigma> r" "fw ?\<tau> r = fw \<sigma> r" "live ?\<tau> r = live \<sigma> r" "lst ?\<tau> = l"
        using False by (auto simp: step take_over_def split: option.splits)
      have "r \<in> re_request ` set l \<or> fw \<sigma> r = CancelCalled" if "r \<in> re_request ` set (lst \<sigma>)"
        using stay [OF that] False by simp
      with own show ?thesis unfolding same by (cases "fw \<sigma> r") auto
    qed
  qed
  show "set (lst (remove_step crit flag \<sigma>)) \<subseteq> set (lst \<sigma>)" "inflight (remove_step crit flag \<sigma>) = inflight \<sigma>"
    using sub by (auto simp: step take_over_def split: option.splits)
qed

lemma remove_by_handle:
  "distinct (map re_request reqs) \<Longrightarrow>
    snd (remove_request unmark reqs (REQUEST r) False) = filter (\<lambda>e. re_request e \<noteq> r) reqs"
proof (induction reqs)
  case (Cons req reqs)
  have "filter (\<lambda>e. re_request e \<noteq> r) reqs = reqs" if "r = re_request req"
    using that Cons.prems by (intro filter_True) (auto simp: image_iff)
  then show ?case using Cons by (auto split: prod.splits)
qed simp

lemma mark_request_cancelable_spec:
  assumes "mark_request_cancelable mark reqs s = (st, reqs', n)" "distinct (map re_seqnum reqs)"
  shows "(s \<notin> re_seqnum ` set reqs \<and> st = STATUS_SUCCESS \<and> reqs' = reqs \<and> n = 0) \<or>
    (\<exists>xs e ys. reqs = xs @ e # ys \<and> re_seqnum e = s \<and>
      (if mark (re_request e) = STATUS_SUCCESS
       then st = STATUS_SUCCESS \<and> reqs' = xs @ e\<lparr>re_cancelable := True\<rparr> # ys \<and> n = 1
       else st = mark (re_request e) \<and> reqs' = xs @ ys \<and> n = 0))"
  using assms
proof (induction reqs arbitrary: reqs')
  case (Cons req reqs)
  show ?case
  proof (cases "re_seqnum req = s")
    case True
    then have "if mark (re_request req) = STATUS_SUCCESS
       then st = STATUS_SUCCESS \<and> reqs' = [] @ req\<lparr>re_cancelable := True\<rparr> # reqs \<and> n = 1
       else st = mark (re_request req) \<and> reqs' = [] @ reqs \<and> n = 0"
      using Cons.prems(1) by (auto simp: Let_def split: if_splits)
    then show ?thesis using True by (metis append_Nil)
  next
    case False
    then obtain reqs1 where "mark_request_cancelable mark reqs s = (st, reqs1, n)" "reqs' = req # reqs1"
      using Cons.prems(1) by (auto split: prod.splits)
    with Cons.IH [OF this(1)] Cons.prems(2) False show ?thesis
      by (auto split: if_splits) (metis append_Cons)+
  qed
qed simp

lemma inv_sends_submit:
  assumes inv: "inv_sends \<sigma>" and new: "\<And>e. e \<in> set (lst \<sigma>) \<Longrightarrow> re_request e \<noteq> r"
    and s: "s \<notin> re_seqnum ` set (lst \<sigma>)" "s \<notin> snd ` set (inflight \<sigma>)"
  shows "inv_sends (submit_step r endpoint s \<sigma>)"
proof -
  let ?e = "\<lparr>re_request = r, re_endpoint = endpoint, re_seqnum = s, re_cancelable = False\<rparr>"
  have lst: "lst (submit_step r endpoint s \<sigma>) = lst \<sigma> @ [?e]"
    and infl: "inflight (submit_step r endpoint s \<sigma>) = inflight \<sigma> @ [(r, s)]"
    by (simp_all add: submit_step_def append_request_def)
  have "distinct (map snd (inflight \<sigma> @ [(r, s)]))" using inv s(2) by (simp add: inv_sends_def)
  moreover have "\<forall>e \<in> set (lst \<sigma> @ [?e]). \<forall>(q, t) \<in> set (inflight \<sigma> @ [(r, s)]).
      t = re_seqnum e \<longrightarrow> q = re_request e \<and> \<not> re_cancelable e"
    using inv s unfolding inv_sends_def by (force simp: image_iff)
  moreover have "re_seqnum e = t \<or> (re_request e, re_seqnum e) \<in> set ys"
    if e: "e \<in> set (lst \<sigma> @ [?e])" and split: "inflight \<sigma> @ [(r, s)] = xs @ (re_request e, t) # ys" for e xs t ys
  proof (cases "e = ?e")
    case True
    show ?thesis using split by (cases ys rule: rev_cases) (auto simp: True)
  next
    case False
    then have in_list: "e \<in> set (lst \<sigma>)" using e by simp
    show ?thesis
    proof (cases ys rule: rev_cases)
      case Nil
      then show ?thesis using split new [OF in_list] by simp
    next
      case (snoc zs z)
      then have "inflight \<sigma> = xs @ (re_request e, t) # zs" using split by simp
      then have "re_seqnum e = t \<or> (re_request e, re_seqnum e) \<in> set zs"
        using inv in_list unfolding inv_sends_def by blast
      then show ?thesis using snoc by auto
    qed
  qed
  ultimately show ?thesis unfolding inv_sends_def lst infl by blast
qed

lemma race_inv_init: "race_inv race_init"
  by (simp add: race_inv_def inv_list_def inv_owner_def inv_sends_def race_init_def)

lemma race_inv_submit:
  assumes "race_inv \<sigma>" "\<not> live \<sigma> r" "s \<notin> re_seqnum ` set (lst \<sigma>)" "s \<notin> snd ` set (inflight \<sigma>)"
  shows "race_inv (submit_step r endpoint s \<sigma>)"
proof -
  have inv: "inv_list \<sigma>" "inv_owner \<sigma>" "inv_sends \<sigma>" using assms(1) by (simp_all add: race_inv_def)
  have new: "re_request e \<noteq> r" if "e \<in> set (lst \<sigma>)" for e
    using inv_list_entry(1) [OF inv(1) that] assms(2) by auto
  have idle: "pend \<sigma> r = 0" "fw \<sigma> r = NotMarked"
    using inv(2) assms(2) unfolding inv_owner_def by (metis le_SucE le_zero_eq One_nat_def)+
  have "inv_list (submit_step r endpoint s \<sigma>)"
    using inv(1) new idle assms(3)
    by (auto simp: inv_list_def submit_step_def append_request_def)
  moreover have "inv_owner (submit_step r endpoint s \<sigma>)"
    using inv(2) idle by (auto simp: inv_owner_def submit_step_def append_request_def)
  moreover have "inv_sends (submit_step r endpoint s \<sigma>)"
    using inv(3) new assms(3,4) by (rule inv_sends_submit)
  ultimately show ?thesis by (simp add: race_inv_def)
qed

lemma race_inv_user_cancel:
  assumes "race_inv \<sigma>" "live \<sigma> r"
  shows "race_inv (user_cancel_step r \<sigma>)"
proof -
  have inv: "inv_list \<sigma>" "inv_owner \<sigma>" "inv_sends \<sigma>" using assms(1) by (simp_all add: race_inv_def)
  have "inv_list (user_cancel_step r \<sigma>)"
    using inv(1) by (auto simp: inv_list_def user_cancel_step_def)
  moreover have "inv_owner (user_cancel_step r \<sigma>)"
    using inv(2) by (auto simp: inv_owner_def user_cancel_step_def)
  moreover have "inv_sends (user_cancel_step r \<sigma>)"
    by (rule inv_sends_shrink [OF inv(3)]) (simp_all add: user_cancel_step_def)
  ultimately show ?thesis by (simp add: race_inv_def)
qed

lemma race_inv_drop:
  assumes inv: "inv_list \<sigma>" "inv_owner \<sigma>" "inv_sends \<sigma>"
    and e: "lst \<sigma> = xs @ e # ys" "r = re_request e" "\<not> re_cancelable e"
  shows "race_inv (\<sigma>\<lparr>lst := xs @ ys, pend := (pend \<sigma>)(r := pend \<sigma> r + 1), inflight := tl (inflight \<sigma>)\<rparr>)"
    (is "race_inv ?\<tau>")
proof -
  have idle: "live \<sigma> r" "pend \<sigma> r = 0" "fw \<sigma> r = NotMarked"
    using inv_list_entry [OF inv(1)] e by simp_all
  have "inv_list ?\<tau>" using inv(1) e by (auto simp: inv_list_def image_iff)
  moreover have "inv_owner ?\<tau>" using inv(2) e idle by (auto simp: inv_owner_def)
  moreover have "inv_sends ?\<tau>" by (rule inv_sends_shrink [OF inv(3)]) (auto simp: e)
  ultimately show ?thesis by (simp add: race_inv_def)
qed

lemma race_inv_mark:
  assumes inv: "inv_list \<sigma>" "inv_owner \<sigma>" "inv_sends \<sigma>"
    and e: "lst \<sigma> = xs @ e # ys" "r = re_request e" "\<not> re_cancelable e"
    and s: "re_seqnum e = s" "inflight \<sigma> = (r, s) # rest"
  shows "race_inv (\<sigma>\<lparr>lst := xs @ e\<lparr>re_cancelable := True\<rparr> # ys, fw := (fw \<sigma>)(r := Marked),
    inflight := tl (inflight \<sigma>)\<rparr>)" (is "race_inv ?\<tau>")
proof -
  have idle: "live \<sigma> r" "pend \<sigma> r = 0" "fw \<sigma> r = NotMarked"
    using inv_list_entry [OF inv(1)] e by simp_all
  have popped: "s \<notin> snd ` set rest" and dist: "distinct (map snd rest)"
    using inv(3) s(2) by (auto simp: inv_sends_def)
  have "inv_list ?\<tau>" using inv(1) e idle by (auto simp: inv_list_def image_iff)
  moreover have "inv_owner ?\<tau>" using inv(2) e idle by (auto simp: inv_owner_def)
  moreover have "inv_sends ?\<tau>"
  proof -
    have small: "inv_sends (\<sigma>\<lparr>inflight := rest\<rparr>)"
      by (rule inv_sends_shrink [OF inv(3)]) (simp_all add: s(2))
    have latest: "re_request e \<notin> fst ` set rest"
    proof
      assume "re_request e \<in> fst ` set rest"
      then obtain us t vs where split: "rest = us @ (re_request e, t) # vs"
        by (metis imageE prod.collapse split_list)
      have "re_seqnum e = t \<or> (re_request e, re_seqnum e) \<in> set vs"
        using small e(1) split unfolding inv_sends_def by auto
      then show False using popped split s(1) by force
    qed
    show ?thesis using small popped latest dist s(1)
      unfolding inv_sends_def e(1) by (auto simp: s(2) e(1)) (force simp: image_iff)+
  qed
  ultimately show ?thesis by (simp add: race_inv_def)
qed

lemma race_inv_send_ok:
  assumes "race_inv \<sigma>" "inflight \<sigma> = (r, s) # rest"
  shows "race_inv (send_ok_step r s \<sigma>)"
proof -
  have inv: "inv_list \<sigma>" "inv_owner \<sigma>" "inv_sends \<sigma>" using assms(1) by (simp_all add: race_inv_def)
  obtain st l n where m: "mark_request_cancelable (mark_result \<sigma>) (lst \<sigma>) s = (st, l, n)" by (metis prod_cases3)
  have seqs: "distinct (map re_seqnum (lst \<sigma>))" using inv(1) by (simp add: inv_list_def)
  from mark_request_cancelable_spec [OF m seqs] consider
      (absent) "s \<notin> re_seqnum ` set (lst \<sigma>)" "st = STATUS_SUCCESS" "l = lst \<sigma>" "n = 0"
    | (present) xs e ys where "lst \<sigma> = xs @ e # ys" "re_seqnum e = s"
       "if mark_result \<sigma> (re_request e) = STATUS_SUCCESS
        then st = STATUS_SUCCESS \<and> l = xs @ e\<lparr>re_cancelable := True\<rparr> # ys \<and> n = 1
        else st = mark_result \<sigma> (re_request e) \<and> l = xs @ ys \<and> n = 0"
    by blast
  then show ?thesis
  proof cases
    case absent
    have eq: "send_ok_step r s \<sigma> = \<sigma>\<lparr>inflight := tl (inflight \<sigma>)\<rparr>"
      by (simp add: send_ok_step_def m absent)
    have "inv_sends (send_ok_step r s \<sigma>)"
      by (rule inv_sends_shrink [OF inv(3)]) (simp_all add: eq)
    then show ?thesis using inv by (simp add: race_inv_def eq inv_list_def inv_owner_def)
  next
    case present
    have e: "e \<in> set (lst \<sigma>)" using present(1) by simp
    have re: "r = re_request e" and nc: "\<not> re_cancelable e"
      using inv(3) e assms(2) present(2) unfolding inv_sends_def by auto
    have "race_inv (\<sigma>\<lparr>lst := xs @ ys, pend := (pend \<sigma>)(r := pend \<sigma> r + 1), inflight := tl (inflight \<sigma>)\<rparr>)"
      by (rule race_inv_drop [OF inv present(1) re nc])
    moreover have "race_inv (\<sigma>\<lparr>lst := xs @ e\<lparr>re_cancelable := True\<rparr> # ys, fw := (fw \<sigma>)(r := Marked),
        inflight := tl (inflight \<sigma>)\<rparr>)"
      by (rule race_inv_mark [OF inv present(1) re nc, where s = s and rest = rest])
         (simp_all add: assms(2) present(2))
    ultimately show ?thesis using present(3) by (simp add: send_ok_step_def m re split: if_splits)
  qed
qed

lemma race_inv_send_failed:
  assumes "race_inv \<sigma>" "inflight \<sigma> = (r, s) # rest"
  shows "race_inv (send_failed_step r \<sigma>)"
proof -
  have inv: "inv_list \<sigma>" "inv_owner \<sigma>" "inv_sends \<sigma>" using assms(1) by (simp_all add: race_inv_def)
  have "\<not> re_cancelable e" if "e \<in> set (lst \<sigma>)" "re_request e = r" for e
  proof -
    have "(r, re_seqnum e) \<in> set (inflight \<sigma>)"
      using inv(3) that assms(2) unfolding inv_sends_def
      by (metis append_Nil list.set_intros(1) list.set_intros(2))
    then show ?thesis using inv(3) that unfolding inv_sends_def by fastforce
  qed
  then have plain: "False \<or> (\<forall>e \<in> set (lst \<sigma>). matches e (REQUEST r) \<longrightarrow> \<not> re_cancelable e)" by auto
  note rem = race_inv_remove [OF inv(1,2) plain]
  have "inv_list (send_failed_step r \<sigma>)" "inv_owner (send_failed_step r \<sigma>)"
    using rem(1,2) by (simp_all add: send_failed_step_def inv_list_def inv_owner_def)
  moreover have "inv_sends (send_failed_step r \<sigma>)"
    by (rule inv_sends_shrink [OF inv(3)]) (use rem(3,4) in \<open>simp_all add: send_failed_step_def\<close>)
  ultimately show ?thesis by (simp add: race_inv_def)
qed

lemma race_inv_cancel:
  assumes "race_inv \<sigma>" "fw \<sigma> r = CancelCalled"
  shows "race_inv (cancel_step r \<sigma>)"
proof -
  have inv: "inv_list \<sigma>" "inv_owner \<sigma>" "inv_sends \<sigma>" using assms(1) by (simp_all add: race_inv_def)
  have l: "lst (cancel_step r \<sigma>) = filter (\<lambda>e. re_request e \<noteq> r) (lst \<sigma>)"
    using inv(1) by (simp add: cancel_step_def remove_by_handle inv_list_def)
  have "inv_list (cancel_step r \<sigma>)"
    using inv(1) unfolding inv_list_def l by (auto simp: cancel_step_def distinct_map_filter)
  moreover have "inv_owner (cancel_step r \<sigma>)"
    using inv(2) assms(2) unfolding inv_owner_def l by (auto simp: cancel_step_def image_iff)
  moreover have "inv_sends (cancel_step r \<sigma>)"
    by (rule inv_sends_shrink [OF inv(3)]) (simp_all add: l, simp add: cancel_step_def)
  ultimately show ?thesis by (simp add: race_inv_def)
qed

lemma race_inv_complete:
  assumes "race_inv \<sigma>" "pend \<sigma> r > 0"
  shows "race_inv (complete_step r \<sigma>)"
proof -
  have inv: "inv_list \<sigma>" "inv_owner \<sigma>" "inv_sends \<sigma>" using assms(1) by (simp_all add: race_inv_def)
  have one: "pend \<sigma> r = 1" "fw \<sigma> r = NotMarked"
    using inv(2) assms(2) unfolding inv_owner_def by (metis One_nat_def le_antisym less_one not_le less_numeral_extra(3))+
  have "r \<noteq> re_request e" if "e \<in> set (lst \<sigma>)" for e
    using inv_list_entry(2) [OF inv(1) that] one by auto
  then have "inv_list (complete_step r \<sigma>)"
    using inv(1) by (auto simp: inv_list_def complete_step_def)
  moreover have "inv_owner (complete_step r \<sigma>)"
    using inv(2) one unfolding inv_owner_def by (simp add: complete_step_def)
  moreover have "inv_sends (complete_step r \<sigma>)"
    by (rule inv_sends_shrink [OF inv(3)]) (simp_all add: complete_step_def)
  ultimately show ?thesis by (simp add: race_inv_def)
qed

inductive_cases race_stepE: "race_step \<sigma> \<sigma>'"

lemma race_inv_step: "race_step \<sigma> \<sigma>' \<Longrightarrow> race_inv \<sigma> \<Longrightarrow> race_inv \<sigma>'"
proof (erule race_stepE)
  have taken_over: "race_inv (remove_step crit True \<sigma>)" if "race_inv \<sigma>" for crit
    using that race_inv_remove [of \<sigma> True crit] inv_sends_shrink [of \<sigma> "remove_step crit True \<sigma>"]
    by (simp add: race_inv_def)
  then show "race_inv \<sigma> \<Longrightarrow> \<sigma>' = remove_step (SEQNUM s) True \<sigma> \<Longrightarrow> race_inv \<sigma>'" for s by blast
  from taken_over show "race_inv \<sigma> \<Longrightarrow> \<sigma>' = remove_step (ENDPOINT e) True \<sigma> \<Longrightarrow> race_inv \<sigma>'" for e by blast
qed (auto intro: race_inv_submit race_inv_user_cancel race_inv_send_ok race_inv_send_failed
       race_inv_cancel race_inv_complete)

lemma race_inv_reachable: "race_reachable \<sigma> \<Longrightarrow> race_inv \<sigma>"
  by (induction rule: race_reachable.induct) (auto intro: race_inv_init race_inv_step)

section \<open>Properties\<close>



text \<open>The purge of an endpoint ends. It completes, in the order of the list, exactly the requests of
  that endpoint whose cancel routine was not called (the routine completes the others), and leaves
  exactly the requests of the other endpoints, in their order.\<close>

lemma endpoint_purge_empties:
  "endpoint_purge unmark reqs endpoint =
    (map re_request (filter (\<lambda>e. re_endpoint e = endpoint \<and>
       \<not> (re_cancelable e \<and> unmark (re_request e) = STATUS_CANCELLED)) reqs),
     filter (\<lambda>e. re_endpoint e \<noteq> endpoint) reqs)"
proof (induction reqs)
  case Nil
  show ?case by (simp add: endpoint_purge.simps)
next
  case (Cons req reqs)
  then show ?case
    by (cases "re_endpoint req = endpoint") (simp_all add: endpoint_purge_Cons endpoint_purge_skip)
qed

end
