(* ===== verification/Filter_Request.thy ===== *)
theory Filter_Request
  imports Usbd_Helper
begin

text \<open>
  The upper filter driver \<open>drivers/ude_filter\<close> and its peer in the UDE client driver. UdeCx handles
  SET_CONFIGURATION, SET_INTERFACE and the reset of pipes itself, so the filter sits above it and,
  when such an URB has completed, sends the client driver a copy of it in disguise: a control
  transfer with an impossible GET_FIRMWARE_STATUS packet (\<open>ude_filter/request.h\<close>, \<open>request.cpp\<close>,
  \<open>int_dev_ctrl.cpp\<close>). The client driver recognises it, turns it back into the setup packet
  for the server and learns the pipe handles (\<open>ude/filter_request.cpp\<close>, \<open>ude/endpoint_list.cpp\<close>).
  The filter also passes vendor and class URBs as plain control transfers and restores them on
  completion.

  Setup packets are their eight bytes. Memory allocation is an argument: whether it succeeds.
\<close>

section \<open>Setup packets\<close>

abbreviation (input) USB_DIR_OUT :: u8 where "USB_DIR_OUT \<equiv> 0"
abbreviation (input) USB_DIR_IN :: u8 where "USB_DIR_IN \<equiv> 0x80"
abbreviation (input) USB_TYPE_STANDARD :: u8 where "USB_TYPE_STANDARD \<equiv> 0"
abbreviation (input) USB_TYPE_CLASS :: u8 where "USB_TYPE_CLASS \<equiv> 0x20"
abbreviation (input) USB_TYPE_VENDOR :: u8 where "USB_TYPE_VENDOR \<equiv> 0x40"
abbreviation (input) USB_RECIP_DEVICE :: u8 where "USB_RECIP_DEVICE \<equiv> 0"
abbreviation (input) USB_RECIP_INTERFACE :: u8 where "USB_RECIP_INTERFACE \<equiv> 1"
abbreviation (input) USB_RECIP_ENDPOINT :: u8 where "USB_RECIP_ENDPOINT \<equiv> 2"
abbreviation (input) USB_RECIP_OTHER :: u8 where "USB_RECIP_OTHER \<equiv> 3"

abbreviation (input) USB_REQUEST_CLEAR_FEATURE :: u8 where "USB_REQUEST_CLEAR_FEATURE \<equiv> 1"
abbreviation (input) USB_REQUEST_SET_FEATURE :: u8 where "USB_REQUEST_SET_FEATURE \<equiv> 3"
abbreviation (input) USB_REQUEST_SET_CONFIGURATION :: u8 where "USB_REQUEST_SET_CONFIGURATION \<equiv> 9"
abbreviation (input) USB_REQUEST_SET_INTERFACE :: u8 where "USB_REQUEST_SET_INTERFACE \<equiv> 11"
abbreviation (input) USB_REQUEST_GET_FIRMWARE_STATUS :: u8 where "USB_REQUEST_GET_FIRMWARE_STATUS \<equiv> 0x1A"

definition packet :: "u8 \<Rightarrow> u8 \<Rightarrow> u16 \<Rightarrow> u16 \<Rightarrow> u16 \<Rightarrow> bytes" where
  "packet bmRequestType bRequest wValue wIndex wLength =
     [bmRequestType, bRequest] @ le16 wValue @ le16 wIndex @ le16 wLength"

definition make_set_configuration :: "u8 \<Rightarrow> bytes" where
  "make_set_configuration ConfigurationValue =
     packet (USB_DIR_OUT OR USB_TYPE_STANDARD OR USB_RECIP_DEVICE) USB_REQUEST_SET_CONFIGURATION
       (ucast ConfigurationValue) 0 0"

definition make_set_interface :: "u8 \<Rightarrow> u8 \<Rightarrow> bytes" where
  "make_set_interface InterfaceNumber AlternateSetting =
     packet (USB_DIR_OUT OR USB_TYPE_STANDARD OR USB_RECIP_INTERFACE) USB_REQUEST_SET_INTERFACE
       (ucast AlternateSetting) (ucast InterfaceNumber) 0"

definition make_clear_endpoint_stall :: "u8 \<Rightarrow> bytes" where
  "make_clear_endpoint_stall EndpointAddress =
     packet (USB_DIR_OUT OR USB_TYPE_STANDARD OR USB_RECIP_ENDPOINT) USB_REQUEST_CLEAR_FEATURE
       0 (ucast EndpointAddress) 0"

definition make_reset_port :: "u16 \<Rightarrow> bytes" where
  "make_reset_port port =
     packet (USB_TYPE_CLASS OR USB_RECIP_OTHER) USB_REQUEST_SET_FEATURE 4 port 0"

section \<open>The list of endpoints\<close>

text \<open>An endpoint is known by its object; the handle of its pipe and its address are the fields
  that searches read.\<close>

record endpoint_ctx =
  ep_object :: nat
  PipeHandle :: nat
  bEndpointAddress :: u8

datatype endpoint_search = HANDLE nat | ADDRESS u8

fun endpoint_matches :: "endpoint_ctx \<Rightarrow> endpoint_search \<Rightarrow> bool" where
  "endpoint_matches endp (HANDLE h) = (h = PipeHandle endp)"
| "endpoint_matches endp (ADDRESS a) = (a = bEndpointAddress endp)"

text \<open>New endpoints go to the head, so that outdated ones are found last.\<close>

definition insert_endpoint_list :: "endpoint_ctx list \<Rightarrow> endpoint_ctx \<Rightarrow> endpoint_ctx list" where
  "insert_endpoint_list endps endp = endp # endps"

definition remove_endpoint_list :: "endpoint_ctx list \<Rightarrow> endpoint_ctx \<Rightarrow> endpoint_ctx list" where
  "remove_endpoint_list endps endp = filter (\<lambda>e. ep_object e \<noteq> ep_object endp) endps"

fun find_endpoint :: "endpoint_ctx list \<Rightarrow> endpoint_search \<Rightarrow> endpoint_ctx option" where
  "find_endpoint [] crit = None"
| "find_endpoint (endp # endps) crit =
     (if endpoint_matches endp crit then Some endp else find_endpoint endps crit)"

text \<open>A store through the pointer that \<open>find_endpoint\<close> returned.\<close>

definition store_handle :: "nat \<Rightarrow> nat \<Rightarrow> endpoint_ctx list \<Rightarrow> endpoint_ctx list" where
  "store_handle obj h endps =
     map (\<lambda>e. if ep_object e = obj then e\<lparr>PipeHandle := h\<rparr> else e) endps"

section \<open>Requests\<close>

abbreviation (input) URB_FUNCTION_SELECT_CONFIGURATION :: u16 where "URB_FUNCTION_SELECT_CONFIGURATION \<equiv> 0"
abbreviation (input) URB_FUNCTION_SELECT_INTERFACE :: u16 where "URB_FUNCTION_SELECT_INTERFACE \<equiv> 1"
abbreviation (input) URB_FUNCTION_CONTROL_TRANSFER :: u16 where "URB_FUNCTION_CONTROL_TRANSFER \<equiv> 8"
abbreviation (input) URB_FUNCTION_VENDOR_DEVICE :: u16 where "URB_FUNCTION_VENDOR_DEVICE \<equiv> 0x17"
abbreviation (input) URB_FUNCTION_VENDOR_INTERFACE :: u16 where "URB_FUNCTION_VENDOR_INTERFACE \<equiv> 0x18"
abbreviation (input) URB_FUNCTION_VENDOR_ENDPOINT :: u16 where "URB_FUNCTION_VENDOR_ENDPOINT \<equiv> 0x19"
abbreviation (input) URB_FUNCTION_CLASS_DEVICE :: u16 where "URB_FUNCTION_CLASS_DEVICE \<equiv> 0x1A"
abbreviation (input) URB_FUNCTION_CLASS_INTERFACE :: u16 where "URB_FUNCTION_CLASS_INTERFACE \<equiv> 0x1B"
abbreviation (input) URB_FUNCTION_CLASS_ENDPOINT :: u16 where "URB_FUNCTION_CLASS_ENDPOINT \<equiv> 0x1C"
abbreviation (input) URB_FUNCTION_SYNC_RESET_PIPE_AND_CLEAR_STALL :: u16
  where "URB_FUNCTION_SYNC_RESET_PIPE_AND_CLEAR_STALL \<equiv> 0x1E"
abbreviation (input) URB_FUNCTION_CLASS_OTHER :: u16 where "URB_FUNCTION_CLASS_OTHER \<equiv> 0x1F"
abbreviation (input) URB_FUNCTION_VENDOR_OTHER :: u16 where "URB_FUNCTION_VENDOR_OTHER \<equiv> 0x20"
abbreviation (input) URB_FUNCTION_SYNC_RESET_PIPE :: u16 where "URB_FUNCTION_SYNC_RESET_PIPE \<equiv> 0x30"
abbreviation (input) URB_FUNCTION_SYNC_CLEAR_STALL :: u16 where "URB_FUNCTION_SYNC_CLEAR_STALL \<equiv> 0x31"
abbreviation (input) URB_FUNCTION_CONTROL_TRANSFER_EX :: u16 where "URB_FUNCTION_CONTROL_TRANSFER_EX \<equiv> 0x32"

record usbd_pipe_information =
  pi_EndpointAddress :: u8
  pi_PipeHandle :: nat

record usbd_interface_information =
  InterfaceNumber :: u8
  AlternateSetting :: u8
  Pipes :: "usbd_pipe_information list"

text \<open>The members of the configuration descriptor that are read.\<close>

record select_configuration_cd =
  cd_bConfigurationValue :: u8
  cd_bNumInterfaces :: u8

text \<open>\<open>_URB_CONTROL_VENDOR_OR_CLASS_REQUEST\<close>: \<open>RequestTypeReservedBits\<close> up to \<open>Reserved1\<close> lie
  where the setup packet of \<open>_URB_CONTROL_TRANSFER\<close> does.\<close>

record vendor_class_request =
  vc_Function :: u16
  vc_TransferFlags :: u32
  vc_TransferBufferLength :: u32
  vc_RequestTypeReservedBits :: u8
  vc_Request :: u8
  vc_Value :: u16
  vc_Index :: u16
  vc_Reserved1 :: u16

definition control_setup_packet :: "vendor_class_request \<Rightarrow> bytes" where
  "control_setup_packet r =
     packet (vc_RequestTypeReservedBits r) (vc_Request r) (vc_Value r) (vc_Index r) (vc_Reserved1 r)"

text \<open>URBs by the structure that their function gives them.\<close>

datatype urb =
    UrbPipeRequest u16 nat usbd_status
  | UrbSelectInterface usbd_interface_information
  | UrbSelectConfiguration "select_configuration_cd option" "usbd_interface_information list"
  | UrbVendorClass vendor_class_request
  | UrbOther u16

fun urb_function :: "urb \<Rightarrow> u16" where
  "urb_function (UrbPipeRequest f _ _) = f"
| "urb_function (UrbSelectInterface _) = URB_FUNCTION_SELECT_INTERFACE"
| "urb_function (UrbSelectConfiguration _ _) = URB_FUNCTION_SELECT_CONFIGURATION"
| "urb_function (UrbVendorClass r) = vc_Function r"
| "urb_function (UrbOther f) = f"

definition is_request_function :: "u16 \<Rightarrow> bool" where
  "is_request_function f \<longleftrightarrow>
     f \<in> {URB_FUNCTION_SYNC_RESET_PIPE_AND_CLEAR_STALL, URB_FUNCTION_SYNC_RESET_PIPE,
          URB_FUNCTION_SYNC_CLEAR_STALL, URB_FUNCTION_SELECT_INTERFACE, URB_FUNCTION_SELECT_CONFIGURATION}"

text \<open>\<open>_URB_CONTROL_TRANSFER_EX\<close> with the URB in its transfer buffer.\<close>

record control_transfer_ex =
  cx_Function :: u16
  cx_Status :: usbd_status
  cx_TransferFlags :: u32
  cx_TransferBuffer :: "urb option"
  cx_TransferBufferLength :: u32
  cx_Timeout :: u32
  cx_SetupPacket :: bytes

definition const_part :: u32 where "const_part = 0xFFFF0000"

definition setup_packet :: bytes where
  "setup_packet = packet (USB_DIR_IN OR USB_TYPE_STANDARD OR USB_RECIP_DEVICE)
     USB_REQUEST_GET_FIRMWARE_STATUS 0 0xFFFF 0"

definition is_request :: "control_transfer_ex \<Rightarrow> bool" where
  "is_request r \<longleftrightarrow> cx_Timeout r AND const_part = const_part \<and>
     cx_TransferFlags r = USBD_DEFAULT_PIPE_TRANSFER OR USBD_TRANSFER_DIRECTION_IN \<and>
     cx_SetupPacket r = setup_packet"

definition get_function :: "control_transfer_ex \<Rightarrow> bool \<Rightarrow> u16 \<times> control_transfer_ex" where
  "get_function r clear = (ucast (cx_Timeout r AND 0xFFFF), if clear then r\<lparr>cx_Timeout := 0\<rparr> else r)"

definition pack_request :: "control_transfer_ex \<Rightarrow> urb \<Rightarrow> u16 \<Rightarrow> control_transfer_ex" where
  "pack_request r TransferBuffer function =
     r\<lparr>cx_Function := URB_FUNCTION_CONTROL_TRANSFER_EX, cx_TransferBuffer := Some TransferBuffer,
       cx_TransferFlags := USBD_DEFAULT_PIPE_TRANSFER OR USBD_TRANSFER_DIRECTION_IN,
       cx_Timeout := const_part OR ucast function, cx_SetupPacket := setup_packet\<rparr>"

section \<open>The filter driver\<close>

text \<open>A fresh URB is zeroed. What the filter sends is a list of such transfers.\<close>

definition zeroed_urb :: control_transfer_ex where
  "zeroed_urb = \<lparr>cx_Function = 0, cx_Status = USBD_STATUS_SUCCESS, cx_TransferFlags = 0,
     cx_TransferBuffer = None, cx_TransferBufferLength = 0, cx_Timeout = 0, cx_SetupPacket = replicate 8 0\<rparr>"

definition send_request :: "bool \<Rightarrow> urb \<Rightarrow> u16 \<Rightarrow> control_transfer_ex list" where
  "send_request alloc buf function = (if alloc then [pack_request zeroed_urb buf function] else [])"

definition post_process_urb :: "bool \<Rightarrow> urb \<Rightarrow> control_transfer_ex list" where
  "post_process_urb alloc u =
     (if urb_function u \<in> {URB_FUNCTION_SYNC_RESET_PIPE_AND_CLEAR_STALL, URB_FUNCTION_SYNC_RESET_PIPE,
           URB_FUNCTION_SYNC_CLEAR_STALL, URB_FUNCTION_SELECT_INTERFACE}
      then send_request alloc u (urb_function u)
      else if urb_function u = URB_FUNCTION_SELECT_CONFIGURATION
      then send_request alloc u (urb_function u)
      else [])"

definition request_type_base :: "u16 \<Rightarrow> u8 option" where
  "request_type_base f =
     (if f = URB_FUNCTION_VENDOR_DEVICE then Some (USB_TYPE_VENDOR OR USB_RECIP_DEVICE)
      else if f = URB_FUNCTION_VENDOR_INTERFACE then Some (USB_TYPE_VENDOR OR USB_RECIP_INTERFACE)
      else if f = URB_FUNCTION_VENDOR_ENDPOINT then Some (USB_TYPE_VENDOR OR USB_RECIP_ENDPOINT)
      else if f = URB_FUNCTION_VENDOR_OTHER then Some (USB_TYPE_VENDOR OR USB_RECIP_OTHER)
      else if f = URB_FUNCTION_CLASS_DEVICE then Some (USB_TYPE_CLASS OR USB_RECIP_DEVICE)
      else if f = URB_FUNCTION_CLASS_INTERFACE then Some (USB_TYPE_CLASS OR USB_RECIP_INTERFACE)
      else if f = URB_FUNCTION_CLASS_ENDPOINT then Some (USB_TYPE_CLASS OR USB_RECIP_ENDPOINT)
      else if f = URB_FUNCTION_CLASS_OTHER then Some (USB_TYPE_CLASS OR USB_RECIP_OTHER)
      else None)"

definition get_request_type :: "vendor_class_request \<Rightarrow> u8" where
  "get_request_type r =
     (case request_type_base (vc_Function r) of
        None \<Rightarrow> 0
      | Some bmRequestType \<Rightarrow>
          bmRequestType OR (if IsTransferDirectionIn (vc_TransferFlags r) then USB_DIR_IN else USB_DIR_OUT))"

definition vendor_class_to_control :: "vendor_class_request \<Rightarrow> u8 \<Rightarrow> vendor_class_request" where
  "vendor_class_to_control r bmRequestType =
     r\<lparr>vc_Function := URB_FUNCTION_CONTROL_TRANSFER,
       vc_TransferFlags := vc_TransferFlags r OR USBD_DEFAULT_PIPE_TRANSFER,
       vc_RequestTypeReservedBits := bmRequestType,
       vc_Reserved1 := ucast (vc_TransferBufferLength r)\<rparr>"

definition control_to_vendor_class :: "vendor_class_request \<Rightarrow> u16 \<Rightarrow> vendor_class_request" where
  "control_to_vendor_class r function =
     r\<lparr>vc_Function := function, vc_TransferFlags := vc_TransferFlags r AND NOT USBD_DEFAULT_PIPE_TRANSFER,
       vc_RequestTypeReservedBits := 0, vc_Reserved1 := 0\<rparr>"

text \<open>The completion context is the function of a converted URB, or null (0).\<close>

definition try_legacy_ctrl :: "urb \<Rightarrow> u16 \<times> urb" where
  "try_legacy_ctrl u =
     (case u of
        UrbVendorClass r \<Rightarrow>
          let bmRequestType = get_request_type r in
          if bmRequestType = 0 then (0, u)
          else (vc_Function r, UrbVendorClass (vendor_class_to_control r bmRequestType))
      | _ \<Rightarrow> (0, u))"

definition post_process_irp :: "bool \<Rightarrow> ntstatus \<Rightarrow> urb option \<Rightarrow> usbd_status \<Rightarrow> control_transfer_ex list" where
  "post_process_irp alloc status uo urb_status =
     (case uo of
        None \<Rightarrow> []
      | Some u \<Rightarrow> if NT_ERROR status \<or> USBD_ERROR urb_status then [] else post_process_urb alloc u)"

text \<open>The way down and the way up of an IRP, with its URB if it carries one. The lower drivers
  may change the length of the transfer.\<close>

definition int_dev_ctrl :: "bool \<Rightarrow> urb option \<Rightarrow> u16 \<times> urb option" where
  "int_dev_ctrl is_hub uo =
     (if is_hub then (0, uo)
      else case uo of None \<Rightarrow> (0, None) | Some u \<Rightarrow> (case try_legacy_ctrl u of (ctx, u) \<Rightarrow> (ctx, Some u)))"

definition irp_complete ::
  "bool \<Rightarrow> u16 \<Rightarrow> ntstatus \<Rightarrow> urb option \<Rightarrow> usbd_status \<Rightarrow> urb option \<times> control_transfer_ex list" where
  "irp_complete alloc ctx status uo urb_status =
     (if ctx \<noteq> 0 then
        (case uo of
           Some (UrbVendorClass r) \<Rightarrow> (Some (UrbVendorClass (control_to_vendor_class r ctx)), [])
         | _ \<Rightarrow> (uo, []))
      else (uo, post_process_irp alloc status uo urb_status))"

section \<open>The client driver\<close>

definition update_pipe :: "usbd_pipe_information \<Rightarrow> endpoint_ctx list \<Rightarrow> endpoint_ctx list" where
  "update_pipe pipe endps =
     (case find_endpoint endps (ADDRESS (pi_EndpointAddress pipe)) of
        None \<Rightarrow> endps
      | Some endp \<Rightarrow> store_handle (ep_object endp) (pi_PipeHandle pipe) endps)"

definition update_pipe_properties :: "endpoint_ctx list \<Rightarrow> usbd_interface_information \<Rightarrow> endpoint_ctx list" where
  "update_pipe_properties endps intf = fold update_pipe (Pipes intf) endps"

definition clear_endpoint_stall :: "endpoint_ctx list \<Rightarrow> nat \<Rightarrow> ntstatus \<times> usbd_status option \<times> bytes option" where
  "clear_endpoint_stall endps h =
     (case find_endpoint endps (HANDLE h) of
        Some endp \<Rightarrow> (STATUS_SUCCESS, None, Some (make_clear_endpoint_stall (bEndpointAddress endp)))
      | None \<Rightarrow> (STATUS_INVALID_HANDLE, Some USBD_STATUS_INVALID_PIPE_HANDLE, None))"

text \<open>The loop over the interfaces trusts \<open>bNumInterfaces\<close>: with fewer interfaces it reads past the
  URB, \<open>None\<close>.\<close>

fun update_interfaces :: "nat \<Rightarrow> usbd_interface_information list \<Rightarrow> endpoint_ctx list \<Rightarrow> endpoint_ctx list option" where
  "update_interfaces 0 intfs endps = Some endps"
| "update_interfaces (Suc n) [] endps = None"
| "update_interfaces (Suc n) (intf # intfs) endps =
     update_interfaces n intfs (update_pipe_properties endps intf)"

definition select_configuration ::
  "endpoint_ctx list \<Rightarrow> select_configuration_cd option \<Rightarrow> usbd_interface_information list \<Rightarrow> (endpoint_ctx list \<times> bytes) option" where
  "select_configuration endps cdo intfs =
     (case cdo of
        None \<Rightarrow> Some (endps, make_set_configuration 0)
      | Some cd \<Rightarrow>
          map_option (\<lambda>endps. (endps, make_set_configuration (cd_bConfigurationValue cd)))
            (update_interfaces (unat (cd_bNumInterfaces cd)) intfs endps))"

definition select_interface :: "endpoint_ctx list \<Rightarrow> usbd_interface_information \<Rightarrow> endpoint_ctx list \<times> bytes" where
  "select_interface endps i =
     (update_pipe_properties endps i, make_set_interface (InterfaceNumber i) (AlternateSetting i))"

text \<open>\<open>unpack_request\<close> flips the direction and dispatches on the function; \<open>None\<close> is undefined
  behaviour: a read past the URB, or a buffer that is not the structure of the function.\<close>

definition unpack_request ::
  "endpoint_ctx list \<Rightarrow> control_transfer_ex \<Rightarrow> u16 \<Rightarrow> (ntstatus \<times> endpoint_ctx list \<times> control_transfer_ex) option" where
  "unpack_request endps r function =
     (let r = r\<lparr>cx_TransferFlags := cx_TransferFlags r XOR USBD_TRANSFER_DIRECTION_IN\<rparr> in
      if function \<in> {URB_FUNCTION_SYNC_RESET_PIPE_AND_CLEAR_STALL, URB_FUNCTION_SYNC_RESET_PIPE,
           URB_FUNCTION_SYNC_CLEAR_STALL} then
        (case cx_TransferBuffer r of
           Some (UrbPipeRequest f h s) \<Rightarrow>
             (case clear_endpoint_stall endps h of
                (st, us, pkt) \<Rightarrow>
                  Some (st, endps,
                    (case pkt of None \<Rightarrow> r | Some pkt \<Rightarrow> r\<lparr>cx_SetupPacket := pkt\<rparr>)
                      \<lparr>cx_TransferBuffer := Some (UrbPipeRequest f h (case us of None \<Rightarrow> s | Some us \<Rightarrow> us))\<rparr>))
         | _ \<Rightarrow> None)
      else if function = URB_FUNCTION_SELECT_INTERFACE then
        (case cx_TransferBuffer r of
           Some (UrbSelectInterface i) \<Rightarrow>
             (case select_interface endps i of
                (endps, pkt) \<Rightarrow> Some (STATUS_SUCCESS, endps, r\<lparr>cx_SetupPacket := pkt\<rparr>))
         | _ \<Rightarrow> None)
      else if function = URB_FUNCTION_SELECT_CONFIGURATION then
        (case cx_TransferBuffer r of
           Some (UrbSelectConfiguration cdo intfs) \<Rightarrow>
             map_option (\<lambda>(endps, pkt). (STATUS_SUCCESS, endps, r\<lparr>cx_SetupPacket := pkt\<rparr>))
               (select_configuration endps cdo intfs)
         | _ \<Rightarrow> None)
      else Some (STATUS_INVALID_PARAMETER, endps, r\<lparr>cx_Status := USBD_STATUS_INVALID_PARAMETER\<rparr>))"

text \<open>The beginning of \<open>control_transfer\<close> in \<open>device_ioctl.cpp\<close>: a disguised request is unpacked,
  any other transfer is left alone.\<close>

definition receive_request ::
  "endpoint_ctx list \<Rightarrow> control_transfer_ex \<Rightarrow> (ntstatus \<times> endpoint_ctx list \<times> control_transfer_ex) option" where
  "receive_request endps r =
     (if \<not> is_request r then Some (STATUS_SUCCESS, endps, r)
      else case get_function r True of (func, r) \<Rightarrow> unpack_request endps r func)"

section \<open>Lemmas\<close>

lemma const_part_bits: "(const_part OR ucast (f :: u16)) AND const_part = const_part"
  "ucast ((const_part OR ucast f) AND (0xFFFF :: u32)) = f"
proof -
  have mask: "(0xFFFF :: u32) = mask 16" by (simp add: mask_eq_exp_minus_1)
  have hi: "const_part = push_bit 16 (mask 16)" by (simp add: const_part_def mask_eq_exp_minus_1 push_bit_eq_mult)
  show "(const_part OR ucast f) AND const_part = const_part"
    by (rule bit_word_eqI) (auto simp: bit_simps)
  show "ucast ((const_part OR ucast f) AND (0xFFFF :: u32)) = f"
    unfolding mask hi by (rule bit_word_eqI) (auto simp: bit_simps)
qed

lemma is_request_pack [simp]: "is_request (pack_request r u f)"
  by (simp add: is_request_def pack_request_def const_part_bits)

lemma get_function_pack [simp]: "get_function (pack_request r u f) True = (f, (pack_request r u f)\<lparr>cx_Timeout := 0\<rparr>)"
  by (simp add: get_function_def pack_request_def const_part_bits)

lemma receive_packed: "receive_request endps (pack_request r u f) = unpack_request endps ((pack_request r u f)\<lparr>cx_Timeout := 0\<rparr>) f"
  by (simp add: receive_request_def)

text \<open>The endpoint a pipe belongs to: found by its address, which stores of handles do not change.\<close>

definition target :: "endpoint_ctx list \<Rightarrow> usbd_pipe_information \<Rightarrow> nat option" where
  "target endps p = map_option ep_object (find_endpoint endps (ADDRESS (pi_EndpointAddress p)))"

lemma find_endpoint_Some: "find_endpoint endps crit = Some e \<Longrightarrow> e \<in> set endps \<and> endpoint_matches e crit"
  by (induction endps) (auto split: if_splits)

lemma find_endpoint_None: "find_endpoint endps crit = None \<longleftrightarrow> (\<forall>e \<in> set endps. \<not> endpoint_matches e crit)"
  by (induction endps) auto

lemma target_set_handles: "target (map (\<lambda>e. e\<lparr>PipeHandle := g e\<rparr>) endps) p = target endps p"
  by (induction endps) (auto simp: target_def)

lemma update_pipe_map:
  "update_pipe p endps =
    map (\<lambda>e. e\<lparr>PipeHandle := if target endps p = Some (ep_object e) then pi_PipeHandle p else PipeHandle e\<rparr>) endps"
  by (auto simp: update_pipe_def target_def store_handle_def split: option.splits)

definition handle_of :: "endpoint_ctx list \<Rightarrow> usbd_pipe_information list \<Rightarrow> endpoint_ctx \<Rightarrow> nat" where
  "handle_of endps pipes e =
     (case find (\<lambda>p. target endps p = Some (ep_object e)) pipes of
        None \<Rightarrow> PipeHandle e | Some p \<Rightarrow> pi_PipeHandle p)"

lemma target_address:
  assumes "target endps p = Some (ep_object e)" "e \<in> set endps" "distinct (map ep_object endps)"
  shows "bEndpointAddress e = pi_EndpointAddress p"
proof -
  obtain e' where e': "find_endpoint endps (ADDRESS (pi_EndpointAddress p)) = Some e'" "ep_object e' = ep_object e"
    using assms(1) by (auto simp: target_def)
  have "e' = e" using find_endpoint_Some [OF e'(1)] e'(2) assms(2,3) by (auto simp: distinct_map dest: inj_onD)
  then show ?thesis using find_endpoint_Some [OF e'(1)] by simp
qed

lemma fold_update_pipe:
  assumes "distinct (map pi_EndpointAddress pipes)" "distinct (map ep_object endps)"
  shows "fold update_pipe pipes endps = map (\<lambda>e. e\<lparr>PipeHandle := handle_of endps pipes e\<rparr>) endps"
  using assms
proof (induction pipes arbitrary: endps)
  case Nil
  then show ?case by (simp add: handle_of_def)
next
  case (Cons p ps)
  let ?f = "\<lambda>e. e\<lparr>PipeHandle := if target endps p = Some (ep_object e) then pi_PipeHandle p else PipeHandle e\<rparr>"
  have objs: "map ep_object (map ?f endps) = map ep_object endps" by simp
  have step: "update_pipe p endps = map ?f endps" by (rule update_pipe_map)
  have tgt: "target (map ?f endps) q = target endps q" for q by (rule target_set_handles)
  have IH: "fold update_pipe ps (map ?f endps) =
      map (\<lambda>e. e\<lparr>PipeHandle := handle_of (map ?f endps) ps e\<rparr>) (map ?f endps)"
    by (rule Cons.IH) (use Cons.prems in simp, simp only: objs Cons.prems(2))
  have "handle_of (map ?f endps) ps (?f e) = handle_of endps (p # ps) e" if e: "e \<in> set endps" for e
  proof (cases "target endps p = Some (ep_object e)")
    case True
    have "target endps q \<noteq> Some (ep_object e)" if "q \<in> set ps" for q
      using target_address [OF True e] target_address [OF _ e, of q] Cons.prems that by auto
    then have "find (\<lambda>q. target endps q = Some (ep_object e)) ps = None" by (simp add: find_None_iff)
    then show ?thesis using True unfolding handle_of_def tgt by simp
  next
    case False
    then show ?thesis unfolding handle_of_def tgt by (simp split: option.splits)
  qed
  then show ?case unfolding fold_Cons comp_apply step IH by simp
qed

lemma update_interfaces_fold:
  "n \<le> length intfs \<Longrightarrow> update_interfaces n intfs endps = Some (fold update_pipe (concat (map Pipes (take n intfs))) endps)"
  by (induction n intfs endps rule: update_interfaces.induct) (auto simp: update_pipe_properties_def)

lemma update_interfaces_None: "length intfs < n \<Longrightarrow> update_interfaces n intfs endps = None"
  by (induction n intfs endps rule: update_interfaces.induct) auto

lemma clear_stall_after_update:
  assumes pipes: "distinct (map pi_EndpointAddress pipes)" "distinct (map pi_PipeHandle pipes)"
    and endps: "distinct (map ep_object endps)"
    and fresh: "\<forall>e \<in> set endps. PipeHandle e \<notin> pi_PipeHandle ` set pipes"
    and p: "p \<in> set pipes" "pi_EndpointAddress p \<in> bEndpointAddress ` set endps"
  shows "clear_endpoint_stall (fold update_pipe pipes endps) (pi_PipeHandle p) =
    (STATUS_SUCCESS, None, Some (make_clear_endpoint_stall (pi_EndpointAddress p)))"
proof -
  let ?endps = "map (\<lambda>e. e\<lparr>PipeHandle := handle_of endps pipes e\<rparr>) endps"
  have only: "bEndpointAddress e = pi_EndpointAddress p"
    if e: "e \<in> set endps" "handle_of endps pipes e = pi_PipeHandle p" for e
  proof -
    obtain q where q: "q \<in> set pipes" "target endps q = Some (ep_object e)" "pi_PipeHandle q = pi_PipeHandle p"
    proof (cases "find (\<lambda>p. target endps p = Some (ep_object e)) pipes")
      case None
      then show ?thesis using e fresh p(1) by (auto simp: handle_of_def)
    next
      case (Some q)
      then have "q \<in> set pipes" "target endps q = Some (ep_object e)" by (auto simp: find_Some_iff)
      then show ?thesis using that e(2) by (simp add: handle_of_def Some)
    qed
    then have "q = p" using pipes(2) p(1) by (auto simp: distinct_map dest: inj_onD)
    then show ?thesis using target_address [OF q(2) e(1) endps] by simp
  qed
  obtain e where e: "find_endpoint endps (ADDRESS (pi_EndpointAddress p)) = Some e"
    using p(2) find_endpoint_None [of endps] by (cases "find_endpoint endps (ADDRESS (pi_EndpointAddress p))") auto
  then have in_list: "e \<in> set endps" and tgt: "target endps p = Some (ep_object e)"
    using find_endpoint_Some by (auto simp: target_def)
  have "handle_of endps pipes e = pi_PipeHandle p"
  proof (cases "find (\<lambda>p. target endps p = Some (ep_object e)) pipes")
    case None
    then show ?thesis using tgt p(1) by (simp add: find_None_iff)
  next
    case (Some q)
    then have q: "q \<in> set pipes" "target endps q = Some (ep_object e)" by (auto simp: find_Some_iff)
    then have "pi_EndpointAddress q = pi_EndpointAddress p"
      using target_address [OF q(2) in_list endps] target_address [OF tgt in_list endps] by simp
    then have "q = p" using q(1) p(1) pipes(1) by (auto simp: distinct_map dest: inj_onD)
    then show ?thesis using Some by (simp add: handle_of_def)
  qed
  then have "find_endpoint ?endps (HANDLE (pi_PipeHandle p)) \<noteq> None"
    using in_list by (auto simp: find_endpoint_None intro!: bexI [of _ e])
  then obtain e' where e': "find_endpoint ?endps (HANDLE (pi_PipeHandle p)) = Some e'" by auto
  then have "bEndpointAddress e' = pi_EndpointAddress p" using find_endpoint_Some [OF e'] only by auto
  then show ?thesis unfolding fold_update_pipe [OF pipes(1) endps] by (simp add: clear_endpoint_stall_def e')
qed

section \<open>Properties\<close>



text \<open>Vendor and class requests pass as control transfers and come back unchanged: on the way down
  the URB becomes a control transfer whose setup packet has the request, value and index of the
  URB, the direction of its flags and the low 16 bits of its length; on the way up, whatever length
  the lower drivers reported, the caller gets its own URB back with that length and nothing is sent.\<close>

lemma vendor_class_restored:
  assumes legacy: "request_type_base (vc_Function v) \<noteq> None"
    and reserved: "vc_RequestTypeReservedBits v = 0" "vc_Reserved1 v = 0"
      "vc_TransferFlags v AND USBD_DEFAULT_PIPE_TRANSFER = 0"
  shows "\<exists>c. int_dev_ctrl False (Some (UrbVendorClass v)) = (vc_Function v, Some (UrbVendorClass c)) \<and>
    vc_Function c = URB_FUNCTION_CONTROL_TRANSFER \<and>
    drop 1 (control_setup_packet c) =
      [vc_Request v] @ le16 (vc_Value v) @ le16 (vc_Index v) @ le16 (ucast (vc_TransferBufferLength v)) \<and>
    is_transfer_dir_in (control_setup_packet c) = IsTransferDirectionIn (vc_TransferFlags v) \<and>
    (\<forall>n. irp_complete alloc (vc_Function v) status (Some (UrbVendorClass (c\<lparr>vc_TransferBufferLength := n\<rparr>))) urb_status =
      (Some (UrbVendorClass (v\<lparr>vc_TransferBufferLength := n\<rparr>)), []))"
proof -
  let ?t = "get_request_type v"
  obtain b where b: "request_type_base (vc_Function v) = Some b" using legacy by auto
  have fnz: "vc_Function v \<noteq> 0" using b by (auto simp: request_type_base_def split: if_splits)
  have "b \<noteq> 0 \<and> \<not> bit b 7" using b by (auto simp: request_type_base_def bit_simps split: if_splits)
  then have t: "?t \<noteq> 0" "bit ?t 7 = IsTransferDirectionIn (vc_TransferFlags v)"
    by (auto simp: get_request_type_def b bit_simps or_eq_0_iff)
  have flags: "(vc_TransferFlags v OR USBD_DEFAULT_PIPE_TRANSFER) AND NOT USBD_DEFAULT_PIPE_TRANSFER = vc_TransferFlags v"
  proof -
    have "\<not> bit (vc_TransferFlags v) 3"
      using reserved(3) and_exp_eq_0_iff_not_bit [of "vc_TransferFlags v" 3] by (simp add: usbd_flag_defs)
    moreover have "bit USBD_DEFAULT_PIPE_TRANSFER n \<Longrightarrow> n = 3" for n
      using bit_exp_iff [of 3 n, where 'a = "32 word"] by (simp add: usbd_flag_defs)
    ultimately show ?thesis by (intro bit_word_eqI) (auto simp: bit_and_iff bit_or_iff bit_not_iff)
  qed
  show ?thesis
    using t fnz flags reserved
    by (intro exI [of _ "vendor_class_to_control v ?t"])
       (simp add: int_dev_ctrl_def try_legacy_ctrl_def Let_def vendor_class_to_control_def control_setup_packet_def
         packet_def is_transfer_dir_in_def irp_complete_def control_to_vendor_class_def)
qed

end
