(* ===== verification/Isoch.thy ===== *)
theory Isoch
  imports Network Usbd_Helper
begin

text \<open>
  Answers to isochronous transfers, \<open>fill_isoc_data\<close> and \<open>isoch_transfer\<close> of
  \<open>drivers/ude/wsk_receive.cpp\<close>. The server sends the data of the packets without gaps; the driver
  moves it, last packet first and in place, to the offsets that the URB gave its packets.

  The buffer is its memory. \<open>None\<close> is an access outside of an allocation.
\<close>

section \<open>Definitions\<close>

record isoch_packet =
  ip_Offset :: u32
  ip_Length :: u32
  ip_Status :: usbd_status

text \<open>\<open>_URB_ISOCH_TRANSFER\<close>; \<open>NumberOfPackets\<close> is the length of \<open>IsoPacket\<close>.\<close>

record isoch_urb =
  iu_Status :: usbd_status
  iu_TransferFlags :: u32
  iu_TransferBufferLength :: u32
  iu_StartFrame :: u32
  iu_ErrorCount :: u32
  IsoPacket :: "isoch_packet list"

definition move_memory :: "bytes \<Rightarrow> nat \<Rightarrow> nat \<Rightarrow> nat \<Rightarrow> bytes option" where
  "move_memory buf dst src n =
     (if dst + n \<le> length buf \<and> src + n \<le> length buf then Some (overwrite buf dst (slice src n buf)) else None)"

text \<open>The loop runs from the last packet to the first: the list of destination and source
  descriptors is given in that order. The result has the status, the destination descriptors in the
  same order, what is left of the length, and the buffer.\<close>

fun fill_loop :: "bool \<Rightarrow> u32 \<Rightarrow> (isoch_packet \<times> iso_packet_descriptor) list \<Rightarrow> u32 \<Rightarrow> bytes \<Rightarrow>
    (ntstatus \<times> isoch_packet list \<times> u32 \<times> bytes) option" where
  "fill_loop dir_out tbl [] len buf = Some (STATUS_SUCCESS, [], len, buf)"
| "fill_loop dir_out tbl ((dd, sd) # r) len buf =
     (let dd = dd\<lparr>ip_Status := if iso_status sd \<noteq> 0 then to_windows_status_isoch (sint (iso_status sd))
                              else USBD_STATUS_SUCCESS\<rparr>;
          continue = (\<lambda>dd len buf. map_option (\<lambda>(st, dds, rest). (st, dd # dds, rest)) (fill_loop dir_out tbl r len buf));
          invalid = (\<lambda>len. Some (STATUS_INVALID_PARAMETER, dd # map fst r, len, buf))
      in if dir_out then continue dd len buf
         else if iso_actual_length sd = 0 then continue (dd\<lparr>ip_Length := 0\<rparr>) len buf
         else if iso_actual_length sd > iso_length sd then invalid len
         else if iso_offset sd \<noteq> ip_Offset dd then invalid len
         else if \<not> len \<ge> iso_actual_length sd then invalid len
         else let len = len - iso_actual_length sd in
           if ip_Offset dd + iso_actual_length sd > tbl then invalid len
           else if ip_Offset dd < len then invalid len
           else case (if ip_Offset dd > len
                      then move_memory buf (unat (ip_Offset dd)) (unat len) (unat (iso_actual_length sd))
                      else Some buf) of
                  None \<Rightarrow> None
                | Some buf \<Rightarrow> continue (dd\<lparr>ip_Length := iso_actual_length sd\<rparr>) len buf)"

text \<open>\<open>buffer\<close> is \<open>None\<close> for the null pointer of OUT transfers.\<close>

definition fill_isoc_data :: "isoch_urb \<Rightarrow> bytes option \<Rightarrow> u32 \<Rightarrow> iso_packet_descriptor list \<Rightarrow>
    (ntstatus \<times> isoch_urb \<times> bytes option) option" where
  "fill_isoc_data r buffer len src =
     (if length src < length (IsoPacket r) then None
      else
        let dir_out = (buffer = None) in
        case fill_loop dir_out (iu_TransferBufferLength r) (rev (zip (IsoPacket r) src)) len
               (case buffer of None \<Rightarrow> [] | Some b \<Rightarrow> b) of
          None \<Rightarrow> None
        | Some (st, dds, len, buf) \<Rightarrow>
            let r = r\<lparr>IsoPacket := rev dds\<rparr>; buffer = map_option (\<lambda>_. buf) buffer in
            if st \<noteq> STATUS_SUCCESS then Some (st, r, buffer)
            else if len \<noteq> 0 \<and> \<not> dir_out then Some (STATUS_INVALID_PARAMETER, r, buffer)
            else Some (STATUS_SUCCESS, r, buffer))"

text \<open>The descriptors behind \<open>ctx.isoc\<close>: sixteen bytes each, as received.\<close>

definition iso_of_bytes :: "bytes \<Rightarrow> iso_packet_descriptor" where
  "iso_of_bytes bs = \<lparr>iso_offset = of_le32 (slice 0 4 bs), iso_length = of_le32 (slice 4 4 bs),
     iso_actual_length = of_le32 (slice 8 4 bs), iso_status = of_le32 (slice 12 4 bs)\<rparr>"

definition isoc_array :: "bytes \<Rightarrow> iso_packet_descriptor list" where
  "isoc_array mem = map (\<lambda>i. iso_of_bytes (slice (16 * i) 16 mem)) [0..<length mem div 16]"

text \<open>The members of the URB that the header of the answer determines.\<close>

definition isoch_fields :: "header \<Rightarrow> isoch_urb \<Rightarrow> isoch_urb" where
  "isoch_fields hdr r =
     (let cnt = ret_number_of_packets hdr;
          r = r\<lparr>iu_ErrorCount := un4 hdr\<rparr>;
          r = (if cnt \<noteq> 0 \<and> cnt = error_count hdr then r\<lparr>iu_Status := USBD_STATUS_ISOCH_REQUEST_FAILED\<rparr> else r)
      in if iu_TransferFlags r AND USBD_START_ISO_TRANSFER_ASAP \<noteq> 0
         then r\<lparr>iu_StartFrame := ret_start_frame hdr\<rparr> else r)"

text \<open>\<open>retrieve\<close> is the result of \<open>UdecxUrbRetrieveBuffer\<close>, \<open>isoc\<close> the memory of \<open>ctx.isoc\<close>.\<close>

definition isoch_transfer :: "header \<Rightarrow> bytes \<Rightarrow> ntstatus \<Rightarrow> isoch_urb \<Rightarrow> bytes \<Rightarrow>
    (ntstatus \<times> isoch_urb \<times> bytes) option" where
  "isoch_transfer hdr isoc retrieve r buf =
     (let cnt = ret_number_of_packets hdr;
          r = isoch_fields hdr r
      in if \<not> (0 \<le> cnt \<and> nat cnt = length (IsoPacket r)) then Some (STATUS_INVALID_PARAMETER, r, buf)
         else case byteswap_iso (isoc_array isoc) (nat cnt) of
           None \<Rightarrow> None
         | Some src \<Rightarrow>
             if is_hdr_dir_in hdr \<and> retrieve \<noteq> STATUS_SUCCESS then Some (retrieve, r, buf)
             else case fill_isoc_data r (if is_hdr_dir_in hdr then Some buf else None) (un1 hdr) src of
               None \<Rightarrow> None
             | Some (st, r, b) \<Rightarrow> Some (st, r, case b of None \<Rightarrow> buf | Some b \<Rightarrow> b))"

section \<open>Lemmas\<close>

abbreviation actual :: "isoch_packet \<times> iso_packet_descriptor \<Rightarrow> nat" where
  "actual z \<equiv> unat (iso_actual_length (snd z))"

abbreviation dst :: "isoch_packet \<times> iso_packet_descriptor \<Rightarrow> nat" where
  "dst z \<equiv> unat (ip_Offset (fst z))"

lemma isoch_fields_simps [simp]:
  "IsoPacket (isoch_fields hdr r) = IsoPacket r"
  "iu_TransferBufferLength (isoch_fields hdr r) = iu_TransferBufferLength r"
  by (simp_all add: isoch_fields_def Let_def)

text \<open>The way through the loop for one packet of an IN transfer.\<close>

lemma unat_plus_small: "unat (a :: u32) + unat b < 4294967296 \<Longrightarrow> unat (a + b) = unat a + unat b"
  by (simp add: unat_word_ariths)

lemma unat_minus_le: "(b :: u32) \<le> a \<Longrightarrow> unat (a - b) = unat a - unat b"
  by (rule unat_sub)

lemma overwrite_Nil [simp]: "overwrite buf n [] = buf"
  by (simp add: overwrite_def)

lemma overwrite_self: "off + n \<le> length buf \<Longrightarrow> overwrite buf off (slice off n buf) = buf"
  by (rule nth_equalityI) (auto simp: nth_overwrite slice_nth)

lemma slice_zero [simp]: "slice i 0 xs = []"
  by (simp add: slice_def)

lemma fill_loop_Cons:
  assumes res: "fill_loop False tbl (z # r) len buf = res"
    and tbl: "unat tbl < 2147483648" "dst z \<le> unat tbl" "unat len \<le> unat tbl" "unat tbl \<le> length buf"
  obtains (invalid) dds len' where "res = Some (STATUS_INVALID_PARAMETER, dds, len', buf)"
  | (step) dd len' where
      "res = map_option (\<lambda>(st, dds, rest). (st, dd # dds, rest))
         (fill_loop False tbl r len' (overwrite buf (dst z) (slice (unat len') (actual z) buf)))"
      "ip_Length dd = iso_actual_length (snd z)" "ip_Offset dd = ip_Offset (fst z)"
      "unat len = unat len' + actual z"
      "dst z + actual z \<le> unat tbl \<or> actual z = 0" "unat len' \<le> dst z \<or> actual z = 0"
proof -
  obtain dd sd where z: "z = (dd, sd)" by (cases z)
  let ?a = "iso_actual_length sd"
  define dd1 where "dd1 = dd\<lparr>ip_Status := if iso_status sd \<noteq> 0 then to_windows_status_isoch (sint (iso_status sd))
    else USBD_STATUS_SUCCESS\<rparr>"
  show thesis
  proof (cases "?a = 0")
    case True
    have "res = map_option (\<lambda>(st, dds, rest). (st, dd1\<lparr>ip_Length := 0\<rparr> # dds, rest)) (fill_loop False tbl r len buf)"
      using res True by (simp add: z dd1_def)
    then show thesis using True by (intro step [of "dd1\<lparr>ip_Length := 0\<rparr>" len]) (simp_all add: z dd1_def)
  next
    case nonzero: False
    show thesis
    proof (cases "?a > iso_length sd \<or> iso_offset sd \<noteq> ip_Offset dd \<or> \<not> len \<ge> ?a \<or>
        ip_Offset dd + ?a > tbl \<or> ip_Offset dd < len - ?a")
      case True
      then have "\<exists>dds len'. res = Some (STATUS_INVALID_PARAMETER, dds, len', buf)"
        using res nonzero by (auto simp: z Let_def split: if_splits)
      then show thesis using invalid by blast
    next
      case False
      define len1 where "len1 = len - ?a"
      have le: "?a \<le> len" using False by simp
      then have len1: "unat len = unat len1 + unat ?a"
        by (simp add: len1_def unat_minus_le word_le_nat_alt)
      have "unat (ip_Offset dd + ?a) = unat (ip_Offset dd) + unat ?a"
        using tbl len1 by (intro unat_plus_small) (simp add: z)
      then have dst: "unat (ip_Offset dd) + unat ?a \<le> unat tbl"
        using False by (simp add: word_less_nat_alt not_less)
      have off: "unat len1 \<le> unat (ip_Offset dd)" using False by (simp add: len1_def word_less_nat_alt not_less)
      have "(if ip_Offset dd > len1 then move_memory buf (unat (ip_Offset dd)) (unat len1) (unat ?a) else Some buf) =
          Some (overwrite buf (unat (ip_Offset dd)) (slice (unat len1) (unat ?a) buf))"
      proof (cases "ip_Offset dd > len1")
        case True
        then show ?thesis using dst off tbl(4) by (simp add: move_memory_def)
      next
        case no_move: False
        then have "unat len1 = unat (ip_Offset dd)" using off by (simp add: word_less_nat_alt)
        then show ?thesis using no_move dst tbl(4) by (simp add: overwrite_self)
      qed
      then have "res = map_option (\<lambda>(st, dds, rest). (st, dd1\<lparr>ip_Length := ?a\<rparr> # dds, rest))
         (fill_loop False tbl r len1 (overwrite buf (dst z) (slice (unat len1) (actual z) buf)))"
        using res nonzero False by (simp add: z dd1_def len1_def Let_def cong: if_cong option.case_cong)
      then show thesis
        using len1 dst off by (intro step [of "dd1\<lparr>ip_Length := ?a\<rparr>" len1]) (simp_all add: z dd1_def)
    qed
  qed
qed

text \<open>No access outside of the buffer.\<close>

lemma fill_loop_safe:
  assumes "\<forall>z \<in> set zs. dst z \<le> unat tbl" "unat tbl < 2147483648" "unat len \<le> unat tbl" "unat tbl \<le> length buf"
  shows "\<exists>st dds len' buf'. fill_loop False tbl zs len buf = Some (st, dds, len', buf') \<and> length buf' = length buf"
  using assms
proof (induction zs arbitrary: len buf)
  case (Cons z zs)
  have z: "dst z \<le> unat tbl" using Cons.prems by simp
  obtain res where res: "fill_loop False tbl (z # zs) len buf = res" by blast
  from res Cons.prems(2) z Cons.prems(3,4) show ?case
  proof (cases rule: fill_loop_Cons)
    case invalid
    then show ?thesis using res by simp
  next
    case (step dd len')
    let ?buf = "overwrite buf (dst z) (slice (unat len') (actual z) buf)"
    have len: "length ?buf = length buf"
      using step(4,5) Cons.prems(3,4) by (cases "actual z = 0") simp_all
    have "\<exists>st dds len'' buf'. fill_loop False tbl zs len' ?buf = Some (st, dds, len'', buf') \<and> length buf' = length ?buf"
      using Cons.prems step(4) len by (intro Cons.IH) auto
    then show ?thesis using step(1) res len by auto
  qed
qed simp

lemma fill_loop_out: "\<exists>dds. fill_loop True tbl zs len buf = Some (STATUS_SUCCESS, dds, len, buf) \<and>
    map ip_Offset dds = map (ip_Offset \<circ> fst) zs \<and> map ip_Length dds = map (ip_Length \<circ> fst) zs"
  by (induction zs) (auto simp: Let_def)

lemma nth_slice_of: "i < n \<Longrightarrow> off + n \<le> length xs \<Longrightarrow> slice off n xs ! i = xs ! (off + i)"
  by (rule slice_nth)

lemma slice_eqI:
  assumes "i + n \<le> length xs" "j + n \<le> length ys" "\<And>k. k < n \<Longrightarrow> xs ! (i + k) = ys ! (j + k)"
  shows "slice i n xs = slice j n ys"
  by (rule nth_equalityI) (use assms in \<open>auto simp: slice_nth\<close>)

text \<open>What the loop does to the buffer of an IN transfer, when the packets do not overlap: \<open>zs\<close> are
  the packets in the order of the loop, so the packets before \<open>zs ! k\<close> are \<open>drop (Suc k) zs\<close>.\<close>

lemma fill_loop_places:
  assumes "fill_loop False tbl zs len buf = Some (STATUS_SUCCESS, dds, len', buf')"
    and "\<forall>z \<in> set zs. dst z \<le> unat tbl" "unat tbl < 2147483648" "unat len \<le> unat tbl" "unat tbl \<le> length buf"
    and "\<forall>i k. i < k \<longrightarrow> k < length zs \<longrightarrow> dst (zs ! k) + actual (zs ! k) \<le> dst (zs ! i)"
  shows "map ip_Length dds = map (iso_actual_length \<circ> snd) zs \<and> map ip_Offset dds = map (ip_Offset \<circ> fst) zs \<and>
    unat len = unat len' + sum_list (map actual zs) \<and> length buf' = length buf \<and>
    (\<forall>i < length buf. (\<forall>z \<in> set zs. dst z + actual z \<le> i) \<longrightarrow> buf' ! i = buf ! i) \<and>
    (\<forall>k < length zs. slice (dst (zs ! k)) (actual (zs ! k)) buf' =
       slice (unat len' + sum_list (map actual (drop (Suc k) zs))) (actual (zs ! k)) buf)"
  using assms
proof (induction zs arbitrary: len buf dds)
  case (Cons z zs)
  have z: "dst z \<le> unat tbl" using Cons.prems by simp
  from Cons.prems(1,3) z Cons.prems(4,5) show ?case
  proof (cases rule: fill_loop_Cons)
    case (step dd len1)
    let ?buf = "overwrite buf (dst z) (slice (unat len1) (actual z) buf)"
    obtain dds1 where rec: "fill_loop False tbl zs len1 ?buf = Some (STATUS_SUCCESS, dds1, len', buf')"
      and dds: "dds = dd # dds1"
      using step(1) [symmetric] by (auto simp: map_option_eq_Some)
    have len: "length ?buf = length buf"
      using step(4,5) Cons.prems(4,5) by (cases "actual z = 0") simp_all
    have below: "\<forall>y \<in> set zs. dst y + actual y \<le> dst z"
    proof
      fix y assume "y \<in> set zs"
      then obtain k where "k < length zs" "y = zs ! k" by (metis in_set_conv_nth)
      then show "dst y + actual y \<le> dst z" using Cons.prems(6) [rule_format, of 0 "Suc k"] by simp
    qed
    have IH: "map ip_Length dds1 = map (iso_actual_length \<circ> snd) zs \<and> map ip_Offset dds1 = map (ip_Offset \<circ> fst) zs \<and>
      unat len1 = unat len' + sum_list (map actual zs) \<and> length buf' = length ?buf \<and>
      (\<forall>i < length ?buf. (\<forall>z \<in> set zs. dst z + actual z \<le> i) \<longrightarrow> buf' ! i = ?buf ! i) \<and>
      (\<forall>k < length zs. slice (dst (zs ! k)) (actual (zs ! k)) buf' =
       slice (unat len' + sum_list (map actual (drop (Suc k) zs))) (actual (zs ! k)) ?buf)"
    proof (rule Cons.IH [OF rec])
      show "\<forall>i k. i < k \<longrightarrow> k < length zs \<longrightarrow> dst (zs ! k) + actual (zs ! k) \<le> dst (zs ! i)"
        using Cons.prems(6) by (metis Suc_less_eq length_Cons nth_Cons_Suc)
    qed (use Cons.prems step(4) len in auto)
    have frame: "?buf ! i = buf ! i" if "i < length buf" "i < dst z \<or> dst z + actual z \<le> i" for i
      using that step(4,5) Cons.prems(4,5) by (cases "actual z = 0") (auto simp: nth_overwrite)
    have keep: "buf' ! i = buf ! i" if "i < length buf" "\<forall>y \<in> set (z # zs). dst y + actual y \<le> i" for i
      using IH frame that len by simp
    have first: "slice (dst z) (actual z) buf' = slice (unat len1) (actual z) buf"
    proof (cases "actual z = 0")
      case False
      have "buf' ! (dst z + k) = buf ! (unat len1 + k)" if "k < actual z" for k
      proof -
        have "\<forall>y \<in> set zs. dst y + actual y \<le> dst z + k" using below by (auto intro: trans_le_add1)
        then have "buf' ! (dst z + k) = ?buf ! (dst z + k)"
          using IH len that step(5) False Cons.prems(5) by simp
        also have "\<dots> = buf ! (unat len1 + k)"
          using that step(4,5) False Cons.prems(4,5) by (simp add: nth_overwrite slice_nth)
        finally show ?thesis .
      qed
      then show ?thesis using False IH len step(4,5) Cons.prems(4,5) by (intro slice_eqI) auto
    qed simp
    have rest: "slice s (actual y) ?buf = slice s (actual y) buf"
      if "s + actual y \<le> unat len1" for s y
      using that step(4,5,6) Cons.prems(4,5) len frame by (intro slice_eqI) auto
    have "slice (dst (zs ! k)) (actual (zs ! k)) buf' =
       slice (unat len' + sum_list (map actual (drop (Suc k) zs))) (actual (zs ! k)) buf" if k: "k < length zs" for k
    proof -
      have "zs = take k zs @ zs ! k # drop (Suc k) zs" using k by (rule id_take_nth_drop)
      then have "sum_list (map actual (drop (Suc k) zs)) + actual (zs ! k) \<le> sum_list (map actual zs)"
        by (metis (no_types, lifting) add.commute le_add2 list.simps(9) map_append sum_list.Cons sum_list_append)
      then show ?thesis using IH k rest [of "unat len' + sum_list (map actual (drop (Suc k) zs))" "zs ! k"] by simp
    qed
    then show ?thesis
      using IH len keep first step(2,3,4) by (auto simp: dds nth_Cons split: nat.splits)
  qed simp
qed simp

section \<open>Properties\<close>

text \<open>A URB that the client driver may submit: its packets start inside the transfer buffer, whose
  memory is at least as long as the URB says and smaller than two gigabytes.\<close>

definition wf_isoch :: "isoch_urb \<Rightarrow> bytes \<Rightarrow> bool" where
  "wf_isoch r buf \<longleftrightarrow> unat (iu_TransferBufferLength r) \<le> length buf \<and>
     unat (iu_TransferBufferLength r) < 2147483648 \<and>
     (\<forall>p \<in> set (IsoPacket r). unat (ip_Offset p) \<le> unat (iu_TransferBufferLength r))"

lemma zip_fst: "z \<in> set (zip xs ys) \<Longrightarrow> fst z \<in> set xs"
  by (cases z) (simp add: set_zip_leftD)

lemma fill_isoc_data_safe:
  assumes "wf_isoch r buf" "length (IsoPacket r) \<le> length src" "unat len \<le> unat (iu_TransferBufferLength r)"
  shows "\<exists>st r' buf'. fill_isoc_data r (Some buf) len src = Some (st, r', Some buf') \<and> length buf' = length buf"
proof -
  have "\<exists>st dds len' buf'. fill_loop False (iu_TransferBufferLength r) (rev (zip (IsoPacket r) src)) len buf =
      Some (st, dds, len', buf') \<and> length buf' = length buf"
    using assms by (intro fill_loop_safe) (auto simp: wf_isoch_def dest: set_zip_leftD)
  then show ?thesis using assms(2) by (auto simp: fill_isoc_data_def Let_def)
qed

lemma fill_isoc_data_out:
  "length (IsoPacket r) \<le> length src \<Longrightarrow> \<exists>r'. fill_isoc_data r None len src = Some (STATUS_SUCCESS, r', None)"
  using fill_loop_out [of "iu_TransferBufferLength r" "rev (zip (IsoPacket r) src)" len "[]"]
  by (auto simp: fill_isoc_data_def Let_def)

text \<open>C13. Whatever descriptors a server sends, placing the data of an isochronous answer never touches
  memory outside of the transfer buffer, provided that the length in the answer was checked against
  the buffer and that there is a descriptor for every packet of the URB; the buffer keeps its
  size.\<close>

theorem fill_isoc_data_in_bounds:
  assumes "wf_isoch r buf" "length (IsoPacket r) \<le> length src" "unat len \<le> unat (iu_TransferBufferLength r)"
  shows "\<exists>st r' buf'. fill_isoc_data r (Some buf) len src = Some (st, r', Some buf') \<and> length buf' = length buf"
  using assms by (rule fill_isoc_data_safe)

theorem fill_isoc_data_in_bounds_witness:
  "\<exists>st r' buf'. fill_isoc_data \<lparr>iu_Status = USBD_STATUS_SUCCESS, iu_TransferFlags = 0, iu_TransferBufferLength = 4,
       iu_StartFrame = 0, iu_ErrorCount = 0,
       IsoPacket = [\<lparr>ip_Offset = 2, ip_Length = 0, ip_Status = USBD_STATUS_SUCCESS\<rparr>]\<rparr> (Some [1, 2, 3, 4]) 4
     [\<lparr>iso_offset = 2, iso_length = 4294967295, iso_actual_length = 4, iso_status = 0\<rparr>] = Some (st, r', Some buf') \<and>
     length buf' = length [1 :: u8, 2, 3, 4]"
  using fill_isoc_data_in_bounds [where buf = "[1, 2, 3, 4]" and len = 4 and
      src = "[\<lparr>iso_offset = 2, iso_length = 4294967295, iso_actual_length = 4, iso_status = 0\<rparr>]" and
      r = "\<lparr>iu_Status = USBD_STATUS_SUCCESS, iu_TransferFlags = 0, iu_TransferBufferLength = 4,
       iu_StartFrame = 0, iu_ErrorCount = 0,
       IsoPacket = [\<lparr>ip_Offset = 2, ip_Length = 0, ip_Status = USBD_STATUS_SUCCESS\<rparr>]\<rparr>"]
  by (simp add: wf_isoch_def)



end
