(* ===== verification/Receive.thy ===== *)
theory Receive
  imports Isoch Headers Request_List
begin

text \<open>
  The receive thread of a device, \<open>drivers/ude/wsk_receive.cpp\<close> and \<open>wsk_context.cpp\<close>: the server's
  answers are read, matched with the waiting requests, their payload is scattered to the transfer
  buffer and the array of isochronous descriptors, and the requests are completed.

  The environment is the script of \<open>Network\<close>, with a script for the flag \<open>unplugged\<close>, which other
  threads set. The results of the framework's calls for a URB are fields of the URB. Results are
  outcomes: an access outside of an allocation while the answer with that header is processed is
  \<open>Fault\<close>, and \<open>Hang\<close> stands for a search of \<open>patch_configuration_for_udecx\<close> that does not end within
  its fuel.
\<close>

section \<open>State\<close>

datatype 'a outcome = Ok 'a | Fault header | Hang

datatype urb_kind = ControlTransfer | BulkOrInterruptTransfer | IsochTransfer

text \<open>The URB of a request, with its memory and what \<open>UdecxUrbRetrieveBuffer\<close>,
  \<open>MmGetSystemAddressForMdlSafe\<close> and the partial MDL give for it.\<close>

record urb_ctx =
  uc_kind :: urb_kind
  uc_status :: usbd_status
  uc_flags :: u32
  uc_setup :: bytes
  uc_buf :: urb_buffer
  uc_mem :: bytes
  uc_start_frame :: u32
  uc_error_count :: u32
  uc_packets :: "isoch_packet list"
  uc_retrieve :: ntstatus
  uc_mapped :: bool
  uc_alloc :: bool

abbreviation uc_length :: "urb_ctx \<Rightarrow> u32" where
  "uc_length u \<equiv> TransferBufferLength (uc_buf u)"

text \<open>\<open>UdecxUrbSetBytesCompleted\<close> stores the count in the URB.\<close>

definition set_bytes_completed :: "u32 \<Rightarrow> urb_ctx \<Rightarrow> urb_ctx" where
  "set_bytes_completed n u = u\<lparr>uc_buf := uc_buf u\<lparr>TransferBufferLength := n\<rparr>\<rparr>"

text \<open>The context of the thread. \<open>wc_isoc\<close> is the memory of \<open>isoc\<close>, so \<open>isoc_alloc_cnt\<close> is its
  length divided by sixteen; MDLs are their sizes, 0 for none.\<close>

record wsk_context =
  wc_hdr :: header
  wc_is_isoc :: bool
  wc_isoc :: bytes
  wc_mdl_isoc :: nat
  wc_buf_tail :: bool
  wc_mdl_buf_tail :: nat

datatype completion = RequestComplete ntstatus | UrbComplete usbd_status | UrbCompleteWithNtStatus ntstatus

record receiver =
  rx_requests :: "request_ctx list"
  rx_urbs :: "nat \<Rightarrow> urb_ctx option"
  rx_ctx :: wsk_context
  rx_env :: kenv
  rx_unplugged :: "bool list"
  rx_has_serial :: bool
  rx_iserial :: u8
  rx_done :: "(nat \<times> completion) list"

section \<open>Contexts\<close>

definition prepare_isoc :: "kenv \<Rightarrow> wsk_context \<Rightarrow> u32 \<Rightarrow> ntstatus \<times> wsk_context \<times> kenv" where
  "prepare_isoc env ctx NumberOfPackets =
     (let ctx = ctx\<lparr>wc_is_isoc := NumberOfPackets \<noteq> 0\<rparr> in
      if \<not> wc_is_isoc ctx then (STATUS_SUCCESS, ctx, env)
      else
        let isoc_len = NumberOfPackets * of_nat sizeof_iso_packet_descriptor;
            grow = (length (wc_isoc ctx) div sizeof_iso_packet_descriptor < unat NumberOfPackets);
            (ok, env) = (if grow then pool_alloc env else (True, env))
        in if \<not> ok then (STATUS_INSUFFICIENT_RESOURCES, ctx, env)
           else
             let ctx = (if grow then ctx\<lparr>wc_isoc := replicate (unat isoc_len) 0, wc_mdl_isoc := 0\<rparr> else ctx)
             in if wc_mdl_isoc ctx \<noteq> unat isoc_len
                then case prepare_mdl env of
                       (err, env) \<Rightarrow>
                         (err, ctx\<lparr>wc_mdl_isoc := if err \<noteq> STATUS_SUCCESS then 0 else unat isoc_len\<rparr>, env)
                else (STATUS_SUCCESS, ctx, env))"

definition BUF_TAIL_MAXLEN :: nat where "BUF_TAIL_MAXLEN = 2048"

definition alloc_buf_tail :: "kenv \<Rightarrow> wsk_context \<Rightarrow> nat \<Rightarrow> ntstatus \<times> wsk_context \<times> kenv" where
  "alloc_buf_tail env ctx len =
     (if len > BUF_TAIL_MAXLEN then (STATUS_BUFFER_TOO_SMALL, ctx, env)
      else if wc_buf_tail ctx then (STATUS_SUCCESS, ctx, env)
      else case pool_alloc env of
        (ok, env) \<Rightarrow>
          if \<not> ok then (STATUS_INSUFFICIENT_RESOURCES, ctx, env)
          else (STATUS_SUCCESS, ctx\<lparr>wc_buf_tail := True\<rparr>, env))"

definition alloc_mdl_buf_tail :: "kenv \<Rightarrow> wsk_context \<Rightarrow> nat \<Rightarrow> ntstatus \<times> wsk_context \<times> kenv" where
  "alloc_mdl_buf_tail env ctx len =
     (case alloc_buf_tail env ctx len of
        (err, ctx, env) \<Rightarrow>
          if err \<noteq> STATUS_SUCCESS then (err, ctx, env)
          else if wc_mdl_buf_tail ctx = len then (STATUS_SUCCESS, ctx, env)
          else case prepare_mdl env of
            (st, env) \<Rightarrow> (st, ctx\<lparr>wc_mdl_buf_tail := if st \<noteq> STATUS_SUCCESS then 0 else len\<rparr>, env))"

section \<open>Transfer buffers\<close>

definition check :: "u32 \<Rightarrow> int \<Rightarrow> ntstatus" where
  "check tbl actual_len =
     (if 0 \<le> actual_len \<and> (word_of_int actual_len :: u32) \<le> tbl then STATUS_SUCCESS else STATUS_INVALID_BUFFER_SIZE)"

definition assign :: "u32 \<Rightarrow> int \<Rightarrow> ntstatus \<times> u32" where
  "assign tbl actual_len =
     (let err = check tbl actual_len in (err, if err \<noteq> STATUS_SUCCESS then 0 else word_of_int actual_len))"

text \<open>The pieces of a chain of MDLs: the transfer buffer, the tail beyond it, the descriptors.\<close>

datatype piece = BufPiece nat | TailPiece nat | IsocPiece nat

fun piece_size :: "piece \<Rightarrow> nat" where
  "piece_size (BufPiece n) = n"
| "piece_size (TailPiece n) = n"
| "piece_size (IsocPiece n) = n"

fun mdl_pieces :: "made_mdl \<Rightarrow> piece list" where
  "mdl_pieces no_mdl = []"
| "mdl_pieces (partial_mdl n) = [BufPiece n]"
| "mdl_pieces (buffer_mdl n) = [BufPiece n]"

definition chain_size :: "piece list \<Rightarrow> nat" where
  "chain_size ps = sum_list (map piece_size ps)"

definition make_mdl_chain :: "wsk_context \<Rightarrow> piece list \<Rightarrow> piece list" where
  "make_mdl_chain ctx buf = (if \<not> wc_is_isoc ctx then buf else buf @ [IsocPiece (wc_mdl_isoc ctx)])"

text \<open>The second half of \<open>prepare_wsk_mdl\<close>: the chain for a transfer whose lengths were checked.\<close>

definition prepare_chain :: "kenv \<Rightarrow> wsk_context \<Rightarrow> urb_ctx \<Rightarrow> ntstatus \<times> piece list \<times> wsk_context \<times> kenv" where
  "prepare_chain env ctx u =
     (let hdr = wc_hdr ctx in
      if is_hdr_dir_out hdr then (STATUS_SUCCESS, make_mdl_chain ctx [], ctx, env)
      else case make_transfer_buffer_mdl env (un1 hdr) IoWriteAccess (uc_buf u) (uc_mapped u) (uc_alloc u) of
        (err, m, env) \<Rightarrow>
          if err \<noteq> STATUS_SUCCESS then (err, [], ctx, env)
          else
            let buf = mdl_pieces m; len = chain_size buf in
            if int len < actual_length hdr
            then let gap = nat (actual_length hdr) - len in
              case alloc_mdl_buf_tail env ctx gap of
                (err, ctx, env) \<Rightarrow>
                  if err \<noteq> STATUS_SUCCESS then (err, [], ctx, env)
                  else (STATUS_SUCCESS, make_mdl_chain ctx (buf @ [TailPiece gap]), ctx, env)
            else (STATUS_SUCCESS, make_mdl_chain ctx buf, ctx, env))"

definition prepare_wsk_mdl ::
  "kenv \<Rightarrow> wsk_context \<Rightarrow> urb_ctx \<Rightarrow> ntstatus \<times> piece list \<times> wsk_context \<times> urb_ctx \<times> kenv" where
  "prepare_wsk_mdl env ctx u =
     (case prepare_isoc env ctx (un3 (wc_hdr ctx)) of
        (err, ctx, env) \<Rightarrow>
          if err \<noteq> STATUS_SUCCESS then (err, [], ctx, u, env)
          else if uc_retrieve u \<noteq> STATUS_SUCCESS then (uc_retrieve u, [], ctx, u, env)
          else
            let hdr = wc_hdr ctx;
                (fail, tbl, u) =
                  (if wc_is_isoc ctx
                   then (check (uc_length u) (actual_length hdr) \<noteq> STATUS_SUCCESS, uc_length u, u)
                   else case assign (uc_length u) (actual_length hdr) of
                          (err, tbl) \<Rightarrow>
                            (err \<noteq> STATUS_SUCCESS \<or> is_hdr_dir_out hdr, tbl, set_bytes_completed tbl u))
            in if fail \<or> tbl = 0 then (STATUS_INVALID_BUFFER_SIZE, [], ctx, u, env)
               else case prepare_chain env ctx u of (st, chain, ctx, env) \<Rightarrow> (st, chain, ctx, u, env))"

section \<open>Receiving\<close>

definition receive :: "kenv \<Rightarrow> nat \<Rightarrow> ntstatus \<times> bytes \<times> kenv" where
  "receive env len =
     (case transfer_recv env len of
        (st, data, n, env) \<Rightarrow>
          (if NT_ERROR st then st
           else if n = len then STATUS_SUCCESS
           else if n \<noteq> 0 then STATUS_RECEIVE_PARTIAL
           else STATUS_CONNECTION_DISCONNECTED, data, env))"

text \<open>The bytes go to the pieces of the chain in turn.\<close>

fun scatter :: "header \<Rightarrow> piece list \<Rightarrow> bytes \<Rightarrow> bytes \<times> bytes \<Rightarrow> (bytes \<times> bytes) outcome" where
  "scatter hdr [] data (mem, isoc) = (if data = [] then Ok (mem, isoc) else Fault hdr)"
| "scatter hdr (BufPiece n # ps) data (mem, isoc) =
     (if n > length mem then Fault hdr else scatter hdr ps (drop n data) (overwrite mem 0 (take n data), isoc))"
| "scatter hdr (TailPiece n # ps) data (mem, isoc) =
     (if n > BUF_TAIL_MAXLEN then Fault hdr else scatter hdr ps (drop n data) (mem, isoc))"
| "scatter hdr (IsocPiece n # ps) data (mem, isoc) =
     (if n > length isoc then Fault hdr else scatter hdr ps (drop n data) (mem, overwrite isoc 0 (take n data)))"

definition recv_payload ::
  "kenv \<Rightarrow> wsk_context \<Rightarrow> urb_ctx \<Rightarrow> nat \<Rightarrow> (ntstatus \<times> wsk_context \<times> urb_ctx \<times> kenv) outcome" where
  "recv_payload env ctx u len =
     (case prepare_wsk_mdl env ctx u of
        (err, chain, ctx, u, env) \<Rightarrow>
          if err \<noteq> STATUS_SUCCESS then Ok (err, ctx, u, env)
          else case receive env len of
            (st, data, env) \<Rightarrow>
              (case scatter (wc_hdr ctx) chain data (uc_mem u, wc_isoc ctx) of
                 Ok (mem, isoc) \<Rightarrow> Ok (st, ctx\<lparr>wc_isoc := isoc\<rparr>, u\<lparr>uc_mem := mem\<rparr>, env)
               | Fault h \<Rightarrow> Fault h | Hang \<Rightarrow> Hang))"

definition drain_payload :: "kenv \<Rightarrow> u64 \<Rightarrow> ntstatus \<times> kenv" where
  "drain_payload env len =
     (if unat len \<ge> 2 ^ 32 then (STATUS_INVALID_PARAMETER, env)
      else case pool_alloc env of
        (ok, env) \<Rightarrow>
          if \<not> ok then (STATUS_INSUFFICIENT_RESOURCES, env)
          else case prepare_mdl env of
            (err, env) \<Rightarrow>
              if err \<noteq> STATUS_SUCCESS then (err, env)
              else case receive env (unat len) of (st, _, env) \<Rightarrow> (st, env))"

definition validate_header :: "header \<Rightarrow> header option" where
  "validate_header hdr =
     (let hdr = byteswap_header hdr net2host;
          checked =
            (case to_request_type (command hdr) of
               Some RET_SUBMIT \<Rightarrow>
                 if ret_number_of_packets hdr = number_of_packets_non_isoch then Some (hdr\<lparr>un3 := 0\<rparr>)
                 else if \<not> is_valid_number_of_packets (ret_number_of_packets hdr) then None
                 else Some hdr
             | Some RET_UNLINK \<Rightarrow> Some hdr
             | _ \<Rightarrow> None)
      in case checked of
           None \<Rightarrow> None
         | Some hdr \<Rightarrow>
             if is_valid_seqnum (seqnum hdr) then Some (hdr\<lparr>direction := extract_dir (seqnum hdr)\<rparr>) else None)"

definition recv_usbip_header :: "receiver \<Rightarrow> ntstatus \<times> receiver" where
  "recv_usbip_header \<sigma> =
     (case receive (rx_env \<sigma>) sizeof_header of
        (err, data, env) \<Rightarrow>
          let \<sigma> = \<sigma>\<lparr>rx_env := env\<rparr> in
          if err \<noteq> STATUS_SUCCESS then (err, \<sigma>)
          else case validate_header (header_of_bytes data) of
            None \<Rightarrow> (STATUS_INVALID_PARAMETER, \<sigma>)
          | Some hdr \<Rightarrow> (STATUS_SUCCESS, \<sigma>\<lparr>rx_ctx := (rx_ctx \<sigma>)\<lparr>wc_hdr := hdr\<rparr>\<rparr>))"

section \<open>Answers\<close>

abbreviation (input) USB_REQUEST_GET_DESCRIPTOR :: u8 where "USB_REQUEST_GET_DESCRIPTOR \<equiv> 6"

text \<open>\<open>post_control_transfer\<close> converts configuration descriptors and notes the index of the serial
  number. \<open>patch\<close> is \<open>patch_configuration_for_udecx\<close> at the speed of the device. The result has the
  memory and \<open>iserial\<close>.\<close>

definition post_control_transfer ::
  "(bytes \<Rightarrow> bytes option) \<Rightarrow> bool \<Rightarrow> u8 \<Rightarrow> urb_ctx \<Rightarrow> (bytes \<times> u8) option" where
  "post_control_transfer patch has_serial iserial u =
     (let dsc = uc_mem u; dsc_len = unat (ucast (uc_length u) :: u16) in
      if \<not> (uc_flags u AND USBD_DEFAULT_PIPE_TRANSFER \<noteq> 0 \<and> is_transfer_dir_in (uc_setup u) \<and>
            uc_setup u ! 1 = USB_REQUEST_GET_DESCRIPTOR \<and> dsc_len \<ge> 2)
      then Some (dsc, iserial)
      else if dsc ! 1 = 2 then
        (if dsc_len > 9 \<and> dsc ! 0 = 9 \<and> wTotalLength dsc = dsc_len
         then map_option (\<lambda>p. (overwrite dsc 0 p, iserial)) (patch (take dsc_len dsc))
         else Some (dsc, iserial))
      else if dsc ! 1 = 1 then
        (if dsc_len = 18 \<and> unat (dsc ! 0) = dsc_len \<and> has_serial
         then let i = (if dsc ! 16 = 0 then 255 else dsc ! 16) in Some (dsc[16 := i], i)
         else Some (dsc, iserial))
      else Some (dsc, iserial))"

definition to_isoch :: "urb_ctx \<Rightarrow> isoch_urb" where
  "to_isoch u = \<lparr>iu_Status = uc_status u, iu_TransferFlags = uc_flags u, iu_TransferBufferLength = uc_length u,
     iu_StartFrame = uc_start_frame u, iu_ErrorCount = uc_error_count u, IsoPacket = uc_packets u\<rparr>"

definition of_isoch :: "isoch_urb \<Rightarrow> urb_ctx \<Rightarrow> urb_ctx" where
  "of_isoch r u = u\<lparr>uc_status := iu_Status r, uc_start_frame := iu_StartFrame r,
     uc_error_count := iu_ErrorCount r, uc_packets := IsoPacket r\<rparr>"

definition ret_submit_urb ::
  "(bytes \<Rightarrow> bytes option) \<Rightarrow> bool \<Rightarrow> u8 \<Rightarrow> wsk_context \<Rightarrow> urb_ctx \<Rightarrow> (ntstatus \<times> urb_ctx \<times> u8) outcome" where
  "ret_submit_urb patch has_serial iserial ctx u =
     (let hdr = wc_hdr ctx;
          u = u\<lparr>uc_status := if ret_status hdr \<noteq> 0 then to_windows_status (ret_status hdr) else USBD_STATUS_SUCCESS\<rparr>
      in if uc_kind u = IsochTransfer then
           (case isoch_transfer hdr (wc_isoc ctx) (uc_retrieve u) (to_isoch u) (uc_mem u) of
              None \<Rightarrow> Fault hdr
            | Some (st, r, mem) \<Rightarrow> Ok (st, (of_isoch r u)\<lparr>uc_mem := mem\<rparr>, iserial))
         else if uc_retrieve u \<noteq> STATUS_SUCCESS then
           Ok (if uc_retrieve u = STATUS_INVALID_PARAMETER then STATUS_SUCCESS else uc_retrieve u, u, iserial)
         else
           let (st, u) =
             (if uc_length u \<noteq> un1 hdr
              then case assign (uc_length u) (actual_length hdr) of (st, n) \<Rightarrow> (st, set_bytes_completed n u)
              else (STATUS_SUCCESS, u))
           in if NT_SUCCESS st \<and> uc_length u \<noteq> 0 \<and> uc_kind u = ControlTransfer
              then if unat (uc_length u) > length (uc_mem u) then Fault hdr
                   else case post_control_transfer patch has_serial iserial u of
                     None \<Rightarrow> Hang
                   | Some (mem, iserial) \<Rightarrow> Ok (st, u\<lparr>uc_mem := mem\<rparr>, iserial)
              else Ok (st, u, iserial))"

text \<open>\<open>complete\<close>: what the framework is told, and the status of the URB.\<close>

definition complete :: "urb_ctx option \<Rightarrow> ntstatus \<Rightarrow> completion" where
  "complete uo status =
     (case uo of
        None \<Rightarrow> RequestComplete status
      | Some u \<Rightarrow>
          let urb_st = (if status = STATUS_CANCELLED \<and> uc_status u = USBD_STATUS_PENDING
                        then USBD_STATUS_CANCELED else uc_status u)
          in if NT_SUCCESS status then UrbComplete urb_st else UrbCompleteWithNtStatus status)"

definition complete_request :: "nat \<Rightarrow> ntstatus \<Rightarrow> receiver \<Rightarrow> receiver" where
  "complete_request r st \<sigma> =
     \<sigma>\<lparr>rx_done := rx_done \<sigma> @ [(r, complete (rx_urbs \<sigma> r) st)], rx_urbs := (rx_urbs \<sigma>)(r := None)\<rparr>"

definition ret_submit ::
  "(bytes \<Rightarrow> bytes option) \<Rightarrow> nat \<Rightarrow> receiver \<Rightarrow> (ntstatus \<times> receiver) outcome" where
  "ret_submit patch r \<sigma> =
     (let hdr = wc_hdr (rx_ctx \<sigma>) in
      case rx_urbs \<sigma> r of
        None \<Rightarrow> Ok (if ret_status hdr \<noteq> 0 then STATUS_UNSUCCESSFUL else STATUS_SUCCESS, \<sigma>)
      | Some u \<Rightarrow>
          (case ret_submit_urb patch (rx_has_serial \<sigma>) (rx_iserial \<sigma>) (rx_ctx \<sigma>) u of
             Ok (st, u, iserial) \<Rightarrow> Ok (st, \<sigma>\<lparr>rx_urbs := (rx_urbs \<sigma>)(r \<mapsto> u), rx_iserial := iserial\<rparr>)
           | Fault h \<Rightarrow> Fault h | Hang \<Rightarrow> Hang))"

text \<open>\<open>ret_command\<close>; \<open>unmark\<close> is the result of \<open>WdfRequestUnmarkCancelable\<close>.\<close>

definition ret_command :: "(nat \<Rightarrow> ntstatus) \<Rightarrow> receiver \<Rightarrow> nat option \<times> receiver" where
  "ret_command unmark \<sigma> =
     (let hdr = wc_hdr (rx_ctx \<sigma>) in
      if command hdr = request_type_code RET_SUBMIT
      then case remove_request unmark (rx_requests \<sigma>) (SEQNUM (seqnum hdr)) True of
             (r, reqs) \<Rightarrow> (r, \<sigma>\<lparr>rx_requests := reqs\<rparr>)
      else (None, \<sigma>))"

definition get_flag :: "receiver \<Rightarrow> bool \<times> receiver" where
  "get_flag \<sigma> = (case rx_unplugged \<sigma> of [] \<Rightarrow> (False, \<sigma>) | b # bs \<Rightarrow> (b, \<sigma>\<lparr>rx_unplugged := bs\<rparr>))"

text \<open>The payload of the answer. A request without URB has none to receive to: \<open>get_urb\<close> would
  dereference a null pointer.\<close>

definition read_payload :: "nat option \<Rightarrow> receiver \<Rightarrow> (ntstatus \<times> receiver) outcome" where
  "read_payload request \<sigma> =
     (let hdr = wc_hdr (rx_ctx \<sigma>); sz = get_payload_size hdr in
      if sz = 0 then Ok (STATUS_SUCCESS, \<sigma>)
      else case get_flag \<sigma> of
        (unplugged, \<sigma>) \<Rightarrow>
          if unplugged then Ok (STATUS_CANCELLED, \<sigma>)
          else case request of
            None \<Rightarrow> (case drain_payload (rx_env \<sigma>) sz of (st, env) \<Rightarrow> Ok (st, \<sigma>\<lparr>rx_env := env\<rparr>))
          | Some r \<Rightarrow>
              (case rx_urbs \<sigma> r of
                 None \<Rightarrow> Fault hdr
               | Some u \<Rightarrow>
                   (case recv_payload (rx_env \<sigma>) (rx_ctx \<sigma>) u (unat sz) of
                      Ok (st, ctx, u, env) \<Rightarrow>
                        Ok (st, \<sigma>\<lparr>rx_ctx := ctx, rx_urbs := (rx_urbs \<sigma>)(r \<mapsto> u), rx_env := env\<rparr>)
                    | Fault h \<Rightarrow> Fault h | Hang \<Rightarrow> Hang)))"

text \<open>The body of \<open>recv_loop\<close>.\<close>

definition process_answer ::
  "(bytes \<Rightarrow> bytes option) \<Rightarrow> (nat \<Rightarrow> ntstatus) \<Rightarrow> receiver \<Rightarrow> (ntstatus \<times> receiver) outcome" where
  "process_answer patch unmark \<sigma> =
     (case ret_command unmark \<sigma> of
        (request, \<sigma>) \<Rightarrow>
          (case read_payload request \<sigma> of
             Ok (status, \<sigma>) \<Rightarrow>
               (case request of
                  None \<Rightarrow> Ok (status, \<sigma>)
                | Some r \<Rightarrow>
                    if status \<noteq> STATUS_SUCCESS then Ok (status, complete_request r status \<sigma>)
                    else case ret_submit patch r \<sigma> of
                      Ok (st, \<sigma>) \<Rightarrow> Ok (status, complete_request r st \<sigma>)
                    | Fault h \<Rightarrow> Fault h | Hang \<Rightarrow> Hang)
           | Fault h \<Rightarrow> Fault h | Hang \<Rightarrow> Hang))"

section \<open>The loop\<close>

text \<open>Every turn of \<open>recv_loop\<close> takes at least one entry of the script of \<open>WskReceive\<close>.\<close>

abbreviation pending :: "kenv \<Rightarrow> nat" where "pending env \<equiv> length (receives env)"

lemma pending_prepare_mdl [simp]: "prepare_mdl env = (st, env') \<Longrightarrow> pending env' = pending env"
  by (auto simp: prepare_mdl_def split: list.splits)

lemma pending_pool_alloc [simp]: "pool_alloc env = (ok, env') \<Longrightarrow> pending env' = pending env"
  by (auto simp: pool_alloc_def split: list.splits)

lemma pending_receive: "receive env len = (st, data, env') \<Longrightarrow> pending env' \<le> pending env \<and>
    (st = STATUS_SUCCESS \<longrightarrow> pending env' < pending env) \<and> length data \<le> len"
  by (auto simp: receive_def transfer_recv_def WskReceive_def NT_ERROR_def NT_WARNING_def NT_SUCCESS_def
      split: list.splits if_splits prod.splits)

lemma pending_recv_usbip_header:
  "recv_usbip_header \<sigma> = (STATUS_SUCCESS, \<sigma>') \<Longrightarrow> pending (rx_env \<sigma>') < pending (rx_env \<sigma>)"
  by (auto simp: recv_usbip_header_def Let_def dest!: pending_receive split: prod.splits if_splits option.splits)

lemma pending_prepare_isoc: "prepare_isoc env ctx n = (st, ctx', env') \<Longrightarrow> pending env' = pending env"
  by (auto simp: prepare_isoc_def Let_def split: if_splits prod.splits)

lemma pending_alloc_mdl_buf_tail: "alloc_mdl_buf_tail env ctx n = (st, ctx', env') \<Longrightarrow> pending env' = pending env"
  by (auto simp: alloc_mdl_buf_tail_def alloc_buf_tail_def split: if_splits prod.splits)

lemma pending_make_transfer_buffer_mdl:
  "make_transfer_buffer_mdl env sz op r m a = (st, mdl, env') \<Longrightarrow> pending env' = pending env"
  by (auto simp: make_transfer_buffer_mdl_def Let_def split: if_splits prod.splits list.splits)

lemma pending_prepare_chain:
  "prepare_chain env ctx u = (st, chain, ctx', env') \<Longrightarrow> pending env' = pending env"
  by (auto simp: prepare_chain_def Let_def
      dest!: pending_alloc_mdl_buf_tail pending_make_transfer_buffer_mdl split: if_splits prod.splits)

lemma pending_prepare_wsk_mdl:
  "prepare_wsk_mdl env ctx u = (st, chain, ctx', u', env') \<Longrightarrow> pending env' = pending env"
  by (auto simp: prepare_wsk_mdl_def Let_def dest!: pending_prepare_isoc pending_prepare_chain
      split: if_splits prod.splits)

lemma pending_recv_payload: "recv_payload env ctx u n = Ok (st, ctx', u', env') \<Longrightarrow> pending env' \<le> pending env"
  by (auto simp: recv_payload_def dest!: pending_prepare_wsk_mdl pending_receive
      split: if_splits prod.splits outcome.splits)

lemma pending_drain_payload: "drain_payload env n = (st, env') \<Longrightarrow> pending env' \<le> pending env"
  by (auto simp: drain_payload_def dest!: pending_receive split: if_splits prod.splits)

lemma pending_read_payload: "read_payload q \<sigma> = Ok (st, \<sigma>') \<Longrightarrow> pending (rx_env \<sigma>') \<le> pending (rx_env \<sigma>)"
  by (auto simp: read_payload_def get_flag_def Let_def dest!: pending_recv_payload pending_drain_payload
      split: if_splits prod.splits outcome.splits list.splits option.splits)

lemma rx_env_ret_submit: "ret_submit patch r \<sigma> = Ok (st, \<sigma>') \<Longrightarrow> rx_env \<sigma>' = rx_env \<sigma>"
  by (auto simp: ret_submit_def Let_def split: option.splits outcome.splits prod.splits)

lemma rx_env_ret_command: "ret_command unmark \<sigma> = (q, \<sigma>') \<Longrightarrow> rx_env \<sigma>' = rx_env \<sigma>"
  by (auto simp: ret_command_def Let_def split: prod.splits if_splits)

lemma rx_env_complete_request [simp]: "rx_env (complete_request r st \<sigma>) = rx_env \<sigma>"
  by (simp add: complete_request_def)

lemma pending_process_answer:
  "process_answer patch unmark \<sigma> = Ok (st, \<sigma>') \<Longrightarrow> pending (rx_env \<sigma>') \<le> pending (rx_env \<sigma>)"
  by (auto simp: process_answer_def dest!: pending_read_payload rx_env_ret_submit rx_env_ret_command
      split: prod.splits outcome.splits option.splits if_splits)

lemma rx_env_get_flag [simp]: "rx_env (snd (get_flag \<sigma>)) = rx_env \<sigma>"
  by (simp add: get_flag_def split: list.splits)

lemma pending_turn:
  assumes "get_flag \<sigma> = (fl, \<sigma>1)" "recv_usbip_header \<sigma>1 = (STATUS_SUCCESS, \<sigma>2)"
    and "process_answer patch unmark \<sigma>2 = Ok (st, \<sigma>3)"
  shows "pending (rx_env \<sigma>3) < pending (rx_env \<sigma>)"
  using pending_process_answer [OF assms(3)] pending_recv_usbip_header [OF assms(2)] assms(1)
    rx_env_get_flag [of \<sigma>] by simp

function recv_loop ::
  "(bytes \<Rightarrow> bytes option) \<Rightarrow> (nat \<Rightarrow> ntstatus) \<Rightarrow> receiver \<Rightarrow> receiver outcome" where
  "recv_loop patch unmark \<sigma> =
     (case get_flag \<sigma> of
        (unplugged, \<sigma>) \<Rightarrow>
          if unplugged then Ok \<sigma>
          else case recv_usbip_header \<sigma> of
            (err, \<sigma>) \<Rightarrow>
              if err \<noteq> STATUS_SUCCESS then Ok \<sigma>
              else case process_answer patch unmark \<sigma> of
                Ok (status, \<sigma>) \<Rightarrow> if status \<noteq> STATUS_SUCCESS then Ok \<sigma> else recv_loop patch unmark \<sigma>
              | Fault h \<Rightarrow> Fault h
              | Hang \<Rightarrow> Hang)"
  by pat_completeness auto
termination
  by (relation "measure (\<lambda>(_, _, \<sigma>). pending (rx_env \<sigma>))")
     (auto intro: pending_turn [OF sym sym])

declare recv_loop.simps [simp del]

end
