(* ===== verification/Receive_Safety.thy ===== *)
theory Receive_Safety
  imports Receive
begin

text \<open>
  What the receive thread guarantees whatever a server sends: which accesses are in bounds, which
  requests are completed.
\<close>

section \<open>Invariants\<close>

definition wf_ctx :: "wsk_context \<Rightarrow> bool" where
  "wf_ctx ctx \<longleftrightarrow> 16 dvd length (wc_isoc ctx) \<and> wc_mdl_isoc ctx \<le> length (wc_isoc ctx)"

text \<open>A URB that may wait for an answer: its memory has the size it says, less than two gigabytes,
  and isochronous packets start inside it.\<close>

definition wf_urb :: "urb_ctx \<Rightarrow> bool" where
  "wf_urb u \<longleftrightarrow> wf_isoch (to_isoch u) (uc_mem u)"

lemma wf_urb_iff: "wf_urb u \<longleftrightarrow> unat (uc_length u) \<le> length (uc_mem u) \<and> unat (uc_length u) < 2147483648 \<and>
    (\<forall>p \<in> set (uc_packets u). unat (ip_Offset p) \<le> unat (uc_length u))"
  by (simp add: wf_urb_def wf_isoch_def to_isoch_def)

text \<open>What \<open>validate_header\<close> establishes.\<close>

definition valid_answer :: "header \<Rightarrow> bool" where
  "valid_answer h \<longleftrightarrow> direction h = extract_dir (seqnum h) \<and>
     (command h = request_type_code RET_UNLINK \<or>
      command h = request_type_code RET_SUBMIT \<and> is_valid_number_of_packets (ret_number_of_packets h))"

lemma validate_header_valid: "validate_header w = Some h \<Longrightarrow> valid_answer h"
  by (auto simp: validate_header_def Let_def valid_answer_def to_request_type_eq_Some
      is_valid_number_of_packets_def max_iso_packets_def
      split: option.splits request_type.splits if_splits)

lemma extract_dir_cases: "extract_dir s = 0 \<or> extract_dir s = 1"
  by (simp add: extract_dir_def u32_and_one)

text \<open>The number of packets of an answer.\<close>

abbreviation packets :: "header \<Rightarrow> nat" where "packets h \<equiv> unat (un3 h)"

lemma valid_packets:
  assumes "valid_answer h" "command h = request_type_code RET_SUBMIT"
  shows "packets h \<le> 1024" "ret_number_of_packets h = int (packets h)"
proof -
  have "0 \<le> sint (un3 h)" "sint (un3 h) \<le> 1024"
    using assms by (auto simp: valid_answer_def is_valid_number_of_packets_def max_iso_packets_def)
  moreover from this have "uint (un3 h) = sint (un3 h)"
    by (simp add: uint_sint take_bit_int_eq_self)
  ultimately show "packets h \<le> 1024" "ret_number_of_packets h = int (packets h)" by (simp_all add: unat_eq_nat_uint)
qed

text \<open>The length of an answer, when it is not negative.\<close>

lemma sint_nonneg: "0 \<le> sint (w :: u32) \<Longrightarrow> sint w = int (unat w)"
  using sint_u32_less [of w] by (simp add: uint_sint take_bit_int_eq_self flip: uint_nat)

lemma scast_u32 [simp]: "scast (w :: u32) = (w :: u32)"
  by (rule bit_word_eqI) (auto simp: bit_simps)

lemma check_success: "check tbl (sint (w :: u32)) = STATUS_SUCCESS \<Longrightarrow> 0 \<le> sint w \<and> unat w \<le> unat tbl"
  by (auto simp: check_def word_le_nat_alt scast_id split: if_splits)

lemma assign_success: "assign tbl (sint (w :: u32)) = (STATUS_SUCCESS, n) \<Longrightarrow> 0 \<le> sint w \<and> unat w \<le> unat tbl \<and> n = w"
  using check_success [of tbl w] by (auto simp: assign_def Let_def split: if_splits)

lemma assign_le: "assign tbl i = (st, n) \<Longrightarrow> unat n \<le> unat tbl"
  by (auto simp: assign_def check_def Let_def word_le_nat_alt split: if_splits)

lemma prepare_isoc_spec:
  assumes run: "prepare_isoc env ctx n = (st, ctx', env')" and wf: "wf_ctx ctx" and n: "unat n \<le> 1024"
  shows "wf_ctx ctx' \<and> wc_hdr ctx' = wc_hdr ctx \<and> wc_is_isoc ctx' = (n \<noteq> 0) \<and>
    (st = STATUS_SUCCESS \<longrightarrow> n \<noteq> 0 \<longrightarrow> wc_mdl_isoc ctx' = 16 * unat n \<and> 16 * unat n \<le> length (wc_isoc ctx'))"
proof (cases "n = 0")
  case True
  then have "ctx' = ctx\<lparr>wc_is_isoc := False\<rparr>" using run by (auto simp: prepare_isoc_def)
  then show ?thesis using True wf by (simp add: wf_ctx_def)
next
  case False
  have len: "unat (n * 16) = 16 * unat n" using n by (simp add: unat_word_ariths)
  define grow where "grow = (length (wc_isoc ctx) div 16 < unat n)"
  define ctx1 where "ctx1 = (if grow then ctx\<lparr>wc_is_isoc := True, wc_isoc := replicate (16 * unat n) 0, wc_mdl_isoc := 0\<rparr>
    else ctx\<lparr>wc_is_isoc := True\<rparr>)"
  have "16 * unat n \<le> length (wc_isoc ctx)" if "\<not> grow"
    using that unfolding grow_def by (metis mult.commute not_less times_div_less_eq_dividend le_trans mult_le_mono2)
  then have c1: "wf_ctx ctx1" "wc_hdr ctx1 = wc_hdr ctx" "wc_is_isoc ctx1" "16 * unat n \<le> length (wc_isoc ctx1)"
    using wf by (simp_all add: ctx1_def wf_ctx_def)
  have "ctx' = ctx\<lparr>wc_is_isoc := True\<rparr> \<and> st = STATUS_INSUFFICIENT_RESOURCES \<or>
      ctx' = ctx1\<lparr>wc_mdl_isoc := 16 * unat n\<rparr> \<or> ctx' = ctx1\<lparr>wc_mdl_isoc := 0\<rparr> \<and> st \<noteq> STATUS_SUCCESS"
  proof (cases grow)
    case True
    then show ?thesis using run False
      by (auto simp: prepare_isoc_def Let_def ctx1_def grow_def len sizeof_iso_packet_descriptor_def
          split: prod.splits if_splits)
  next
    case no: False
    have "\<not> length (wc_isoc ctx) div 16 < unat n" using no by (simp add: grow_def)
    then show ?thesis using run False no
      by (cases "wc_mdl_isoc ctx = 16 * unat n")
         (auto simp: prepare_isoc_def Let_def ctx1_def len sizeof_iso_packet_descriptor_def split: prod.splits if_splits)
  qed
  then show ?thesis using c1 wf False by (auto simp: wf_ctx_def)
qed

lemma alloc_mdl_buf_tail_spec:
  assumes "alloc_mdl_buf_tail env ctx n = (st, ctx', env')"
  shows "wc_hdr ctx' = wc_hdr ctx \<and> wc_is_isoc ctx' = wc_is_isoc ctx \<and> wc_isoc ctx' = wc_isoc ctx \<and>
    wc_mdl_isoc ctx' = wc_mdl_isoc ctx \<and> (st = STATUS_SUCCESS \<longrightarrow> n \<le> BUF_TAIL_MAXLEN)"
  using assms by (auto simp: alloc_mdl_buf_tail_def alloc_buf_tail_def split: if_splits prod.splits)

lemma made_mdl_size:
  assumes "make_transfer_buffer_mdl env sz op r m a = (STATUS_SUCCESS, mdl, env')" "sz \<le> TransferBufferLength r"
    and "unat sz < 2147483648"
  shows "(\<exists>n. mdl_pieces mdl = [BufPiece n] \<and> n \<le> unat sz) \<or> mdl_pieces mdl = [] \<and> sz = 0"
proof -
  have len: "sz \<noteq> URB_BUF_LEN" using assms(3) by (auto simp: URB_BUF_LEN_def unsigned_minus_1_eq_mask mask_eq_exp_minus_1)
  have le: "\<not> sz > TransferBufferLength r" using assms(2) by (simp add: not_less)
  show ?thesis
  proof (cases "sz = 0")
    case True
    then show ?thesis using assms(1) len le by (simp add: make_transfer_buffer_mdl_def Let_def)
  next
    case False
    have "mdl = buffer_mdl (unat sz) \<or> (\<exists>l. mdl = partial_mdl (min l (unat sz)))"
      using assms(1) unfolding make_transfer_buffer_mdl_def Let_def
      by (cases "TransferBufferMDL r") (simp_all add: len le False split: if_splits prod.splits, blast+)
    then show ?thesis by auto
  qed
qed

text \<open>A chain that was prepared has exactly the size of the payload, and every piece of it fits in its
  memory.\<close>

fun piece_fits :: "nat \<Rightarrow> nat \<Rightarrow> piece \<Rightarrow> bool" where
  "piece_fits mem isoc (BufPiece n) = (n \<le> mem)"
| "piece_fits mem isoc (TailPiece n) = (n \<le> BUF_TAIL_MAXLEN)"
| "piece_fits mem isoc (IsocPiece n) = (n \<le> isoc)"

definition fits :: "urb_ctx \<Rightarrow> wsk_context \<Rightarrow> piece \<Rightarrow> bool" where
  "fits u ctx = piece_fits (length (uc_mem u)) (length (wc_isoc ctx))"

lemma payload_size_answer:
  assumes "valid_answer h" "command h = request_type_code RET_SUBMIT" "0 \<le> actual_length h"
  shows "unat (get_payload_size h) = (if is_hdr_dir_out h then 0 else unat (un1 h)) + 16 * packets h"
proof -
  have n: "isoc_count (ret_number_of_packets h) = packets h"
  proof -
    have "int (packets h) \<noteq> - 1" by linarith
    then show ?thesis unfolding isoc_count_def number_of_packets_non_isoch_def valid_packets(2) [OF assms(1,2)]
      by (simp only: if_False nat_int)
  qed
  have "is_valid_number_of_packets (ret_number_of_packets h)" using assms(1,2) by (auto simp: valid_answer_def)
  then show ?thesis
    using payload_size_eq [of RET_SUBMIT h] assms(2,3) sint_nonneg [OF assms(3)]
    by (simp add: n is_hdr_dir_out_def sizeof_iso_packet_descriptor_def)
qed

lemma set_bytes_completed_simps [simp]:
  "uc_mem (set_bytes_completed n u) = uc_mem u" "uc_packets (set_bytes_completed n u) = uc_packets u"
  "uc_length (set_bytes_completed n u) = n" "uc_kind (set_bytes_completed n u) = uc_kind u"
  "uc_retrieve (set_bytes_completed n u) = uc_retrieve u"
  by (simp_all add: set_bytes_completed_def)

lemma chain_size_append [simp]: "chain_size (ps @ qs) = chain_size ps + chain_size qs"
  by (simp add: chain_size_def)

lemma chain_size_single [simp]: "chain_size [] = 0" "chain_size [p] = piece_size p"
  by (simp_all add: chain_size_def)

lemma make_mdl_chain_spec:
  assumes "wf_ctx ctx" "wc_is_isoc ctx = (n \<noteq> 0)" "n \<noteq> 0 \<Longrightarrow> wc_mdl_isoc ctx = 16 * n"
    and "\<forall>p \<in> set ps. fits u ctx p"
  shows "chain_size (make_mdl_chain ctx ps) = chain_size ps + 16 * n" "\<forall>p \<in> set (make_mdl_chain ctx ps). fits u ctx p"
  using assms by (auto simp: make_mdl_chain_def fits_def wf_ctx_def)

lemma prepare_chain_spec:
  assumes run: "prepare_chain env ctx u = (STATUS_SUCCESS, chain, ctx', env')"
    and wf: "wf_ctx ctx" "unat (uc_length u) \<le> length (uc_mem u) \<and> unat (uc_length u) < 2147483648"
      "wc_is_isoc ctx = (packets (wc_hdr ctx) \<noteq> 0)"
      "packets (wc_hdr ctx) \<noteq> 0 \<Longrightarrow> wc_mdl_isoc ctx = 16 * packets (wc_hdr ctx)"
    and len: "0 \<le> actual_length (wc_hdr ctx)" "unat (un1 (wc_hdr ctx)) \<le> unat (uc_length u)"
  shows "wf_ctx ctx' \<and> wc_hdr ctx' = wc_hdr ctx \<and> wc_isoc ctx' = wc_isoc ctx \<and>
    chain_size chain = (if is_hdr_dir_out (wc_hdr ctx) then 0 else unat (un1 (wc_hdr ctx))) + 16 * packets (wc_hdr ctx) \<and>
    (\<forall>p \<in> set chain. fits u ctx' p)"
proof -
  let ?h = "wc_hdr ctx"
  show ?thesis
  proof (cases "is_hdr_dir_out ?h")
    case True
    then have "ctx' = ctx" "chain = make_mdl_chain ctx []" using run by (auto simp: prepare_chain_def)
    moreover have M: "chain_size (make_mdl_chain ctx []) = chain_size [] + 16 * packets ?h"
        "\<forall>p \<in> set (make_mdl_chain ctx []). fits u ctx p"
      by (rule make_mdl_chain_spec [OF wf(1,3,4)]; simp)+
    ultimately show ?thesis using M wf(1) True by (simp only: chain_size_single if_True simp_thms)
  next
    case False
    obtain err m env1 where m: "make_transfer_buffer_mdl env (un1 ?h) IoWriteAccess (uc_buf u) (uc_mapped u) (uc_alloc u) =
      (err, m, env1)" by (metis prod_cases3)
    have err: "err = STATUS_SUCCESS"
    proof (rule ccontr)
      assume "err \<noteq> STATUS_SUCCESS"
      then have "prepare_chain env ctx u = (err, [], ctx, env1)"
        using False unfolding prepare_chain_def Let_def m by (simp only: if_False if_True prod.case simp_thms)
      then show False using run \<open>err \<noteq> STATUS_SUCCESS\<close> by simp
    qed
    have al: "actual_length ?h = int (unat (un1 ?h))" using len(1) by (rule sint_nonneg)
    have pieces: "(\<exists>n. mdl_pieces m = [BufPiece n] \<and> n \<le> unat (un1 ?h)) \<or> mdl_pieces m = [] \<and> un1 ?h = 0"
    proof (rule made_mdl_size [OF m [unfolded err]])
      show "un1 ?h \<le> uc_length u" using len(2) unfolding word_le_nat_alt .
      show "unat (un1 ?h) < 2147483648" using len(2) wf(2) by linarith
    qed
    have mem: "n \<le> unat (un1 ?h) \<Longrightarrow> n \<le> length (uc_mem u)" for n using len(2) wf(2) by linarith
    from pieces have buf: "chain_size (mdl_pieces m) \<le> unat (un1 ?h)" "\<forall>p \<in> set (mdl_pieces m). fits u c p" for c
      by (elim disjE exE conjE; simp add: fits_def mem)+
    show ?thesis
    proof (cases "int (chain_size (mdl_pieces m)) < actual_length ?h")
      case True
      define gap where "gap = nat (actual_length ?h) - chain_size (mdl_pieces m)"
      obtain st c env2 where a: "alloc_mdl_buf_tail env1 ctx gap = (st, c, env2)" by (metis prod_cases3)
      have eq: "prepare_chain env ctx u = (if st \<noteq> STATUS_SUCCESS then (st, [], c, env2)
          else (STATUS_SUCCESS, make_mdl_chain c (mdl_pieces m @ [TailPiece gap]), c, env2))"
        using False True a unfolding prepare_chain_def Let_def m gap_def by (simp only: err if_False if_True prod.case simp_thms)
      then have st: "st = STATUS_SUCCESS" and res: "ctx' = c" "chain = make_mdl_chain c (mdl_pieces m @ [TailPiece gap])"
        using run by (auto split: if_splits)
      note A = alloc_mdl_buf_tail_spec [OF a]
      have size: "chain_size (mdl_pieces m @ [TailPiece gap]) = unat (un1 ?h)"
        using buf(1) unfolding chain_size_append chain_size_single piece_size.simps gap_def al nat_int by (rule le_add_diff_inverse)
      have fit: "\<forall>p \<in> set (mdl_pieces m @ [TailPiece gap]). fits u c p"
      proof -
        have "fits u c (TailPiece gap)" using A st unfolding fits_def by simp
        then show ?thesis using buf(2) [of c] by simp
      qed
      have c1: "wf_ctx c" using A wf(1) by (simp add: wf_ctx_def)
      have c2: "wc_is_isoc c = (packets ?h \<noteq> 0)" using A wf(3) by blast
      have c3: "wc_mdl_isoc c = 16 * packets ?h" if "packets ?h \<noteq> 0" using A wf(4) [OF that] by (simp only:)
      note M = make_mdl_chain_spec [OF c1 c2 c3 fit]
      show ?thesis using M c1 A False unfolding res size by simp
    next
      case no_gap: False
      have "chain_size (mdl_pieces m) = unat (un1 ?h)" using buf(1) no_gap unfolding al by linarith
      moreover have "prepare_chain env ctx u = (STATUS_SUCCESS, make_mdl_chain ctx (mdl_pieces m), ctx, env1)"
        using False no_gap unfolding prepare_chain_def Let_def m by (simp only: err if_False if_True prod.case simp_thms)
      then have "ctx' = ctx" "chain = make_mdl_chain ctx (mdl_pieces m)" using run by auto
      ultimately show ?thesis using make_mdl_chain_spec [OF wf(1,3,4) buf(2)] wf(1) False by simp
    qed
  qed
qed

lemma prepare_wsk_mdl_spec:
  assumes run: "prepare_wsk_mdl env ctx u = (STATUS_SUCCESS, chain, ctx', u', env')"
    and wf: "wf_ctx ctx" "wf_urb u"
    and hdr: "valid_answer (wc_hdr ctx)" "command (wc_hdr ctx) = request_type_code RET_SUBMIT"
  shows "wf_ctx ctx' \<and> wc_hdr ctx' = wc_hdr ctx \<and> uc_mem u' = uc_mem u \<and> uc_packets u' = uc_packets u \<and>
    uc_kind u' = uc_kind u \<and> unat (uc_length u') \<le> unat (uc_length u) \<and>
    (packets (wc_hdr ctx) \<noteq> 0 \<longrightarrow> u' = u \<and> 16 * packets (wc_hdr ctx) \<le> length (wc_isoc ctx')) \<and>
    0 \<le> actual_length (wc_hdr ctx) \<and> unat (un1 (wc_hdr ctx)) \<le> unat (uc_length u') \<and>
    chain_size chain = unat (get_payload_size (wc_hdr ctx)) \<and> (\<forall>p \<in> set chain. fits u' ctx' p)"
proof -
  let ?h = "wc_hdr ctx"
  obtain st1 ctx1 env1 where p1: "prepare_isoc env ctx (un3 ?h) = (st1, ctx1, env1)" by (metis prod_cases3)
  note P = prepare_isoc_spec [OF p1 wf(1) valid_packets(1) [OF hdr]]
  have zero: "un3 ?h = 0 \<longleftrightarrow> packets ?h = 0" by (simp add: unat_eq_0)
  have st1: "st1 = STATUS_SUCCESS" and ret: "uc_retrieve u = STATUS_SUCCESS"
    using run by (auto simp: prepare_wsk_mdl_def p1 split: if_splits)
  have P1: "wf_ctx ctx1" "wc_hdr ctx1 = ?h" "wc_is_isoc ctx1 = (packets ?h \<noteq> 0)"
    "packets ?h \<noteq> 0 \<Longrightarrow> wc_mdl_isoc ctx1 = 16 * packets ?h \<and> 16 * packets ?h \<le> length (wc_isoc ctx1)"
    using P st1 by (simp_all add: zero)
  obtain tbl u1 where lens: "0 \<le> actual_length ?h" "unat (un1 ?h) \<le> unat (uc_length u1)"
      "unat (uc_length u1) \<le> unat (uc_length u)" "packets ?h \<noteq> 0 \<Longrightarrow> u1 = u"
      "uc_mem u1 = uc_mem u" "uc_packets u1 = uc_packets u" "uc_kind u1 = uc_kind u" "u' = u1"
    and run1: "prepare_chain env1 ctx1 u1 = (STATUS_SUCCESS, chain, ctx', env')"
  proof (cases "packets ?h = 0")
    case True
    obtain st2 n where a: "assign (uc_length u) (actual_length ?h) = (st2, n)" by (metis surj_pair)
    have "st2 = STATUS_SUCCESS" and r: "u' = set_bytes_completed n u"
        "prepare_chain env1 ctx1 (set_bytes_completed n u) = (STATUS_SUCCESS, chain, ctx', env')"
      using run True by (auto simp: prepare_wsk_mdl_def p1 st1 ret P1 a Let_def split: if_splits prod.splits)
    then show thesis using that [of "set_bytes_completed n u"] True assign_success a by (auto simp: r(1))
  next
    case False
    have "check (uc_length u) (actual_length ?h) = STATUS_SUCCESS" and r: "u' = u"
        "prepare_chain env1 ctx1 u = (STATUS_SUCCESS, chain, ctx', env')"
      using run False by (auto simp: prepare_wsk_mdl_def p1 st1 ret P1 Let_def split: if_splits prod.splits)
    then show thesis using that [of u] check_success by auto
  qed
  have buf: "unat (uc_length u1) \<le> length (uc_mem u1) \<and> unat (uc_length u1) < 2147483648"
    using lens(3,5) wf(2) by (auto simp: wf_urb_iff)
  have isoc: "packets (wc_hdr ctx1) \<noteq> 0 \<Longrightarrow> wc_mdl_isoc ctx1 = 16 * packets (wc_hdr ctx1)"
    "wc_is_isoc ctx1 = (packets (wc_hdr ctx1) \<noteq> 0)" using P1 by simp_all
  note C = prepare_chain_spec [OF run1 P1(1) buf isoc(2,1), unfolded P1(2), OF _ lens(1,2)]
  have "\<forall>p \<in> set chain. fits u' ctx' p" using C lens(8) by blast
  then show ?thesis using C lens P1(4) payload_size_answer [OF hdr lens(1)] by simp
qed

lemma prepare_wsk_mdl_ctx:
  assumes "prepare_wsk_mdl env ctx u = (st, chain, ctx', u', env')" "wf_ctx ctx" "packets (wc_hdr ctx) \<le> 1024"
  shows "wf_ctx ctx' \<and> wc_hdr ctx' = wc_hdr ctx"
proof -
  obtain st1 ctx1 env1 where p1: "prepare_isoc env ctx (un3 (wc_hdr ctx)) = (st1, ctx1, env1)" by (metis prod_cases3)
  have P: "wf_ctx ctx1" "wc_hdr ctx1 = wc_hdr ctx" using prepare_isoc_spec [OF p1 assms(2,3)] by simp_all
  have "wf_ctx c \<and> wc_hdr c = wc_hdr ctx" if "prepare_chain env1 ctx1 v = (st2, ps, c, env2)" for v st2 ps c env2
    using that P by (auto simp: prepare_chain_def Let_def wf_ctx_def dest!: alloc_mdl_buf_tail_spec
        split: if_splits prod.splits)
  then show ?thesis using assms(1) P
    by (auto simp: prepare_wsk_mdl_def p1 Let_def split: if_splits prod.splits)
qed

lemma scatter_safe:
  assumes "\<forall>p \<in> set ps. piece_fits (length mem) (length isoc) p" "length data \<le> chain_size ps"
  shows "\<exists>mem' isoc'. scatter h ps data (mem, isoc) = Ok (mem', isoc') \<and> length mem' = length mem \<and> length isoc' = length isoc"
  using assms
proof (induction h ps data "(mem, isoc)" arbitrary: mem isoc rule: scatter.induct)
  case (1 h data mem isoc)
  then show ?case by (simp add: chain_size_def)
next
  case (2 h n ps data mem isoc)
  have "length (overwrite mem 0 (take n data)) = length mem" using 2(2) by (intro length_overwrite) auto
  then show ?case using 2 by (auto simp: chain_size_def)
next
  case (3 h n ps data mem isoc)
  then show ?case by (auto simp: chain_size_def)
next
  case (4 h n ps data mem isoc)
  have "length (overwrite isoc 0 (take n data)) = length isoc" using 4(2) by (intro length_overwrite) auto
  then show ?case using 4 by (auto simp: chain_size_def)
qed

text \<open>An answer that \<open>ret_submit_urb\<close> may process: the transfer buffer has the length of the URB, and if
  the answer has packets, their descriptors were received and the length was checked.\<close>

definition ready :: "header \<Rightarrow> bytes \<Rightarrow> urb_ctx \<Rightarrow> bool" where
  "ready h isoc u \<longleftrightarrow> unat (uc_length u) \<le> length (uc_mem u) \<and>
     (packets h \<noteq> 0 \<longrightarrow> wf_urb u \<and> 16 * packets h \<le> length isoc \<and> unat (un1 h) \<le> unat (uc_length u))"

lemma recv_payload_spec:
  assumes wf: "wf_ctx ctx" "wf_urb u" and hdr: "valid_answer (wc_hdr ctx)" "command (wc_hdr ctx) = request_type_code RET_SUBMIT"
    and run: "recv_payload env ctx u (unat (get_payload_size (wc_hdr ctx))) = res"
  shows "\<exists>st ctx' u' env'. res = Ok (st, ctx', u', env') \<and> wf_ctx ctx' \<and> wc_hdr ctx' = wc_hdr ctx \<and>
    (st = STATUS_SUCCESS \<longrightarrow> ready (wc_hdr ctx) (wc_isoc ctx') u')"
proof -
  let ?h = "wc_hdr ctx"
  obtain st chain ctx1 u1 env1 where p: "prepare_wsk_mdl env ctx u = (st, chain, ctx1, u1, env1)" by (metis prod_cases5)
  obtain st2 data env2 where r: "receive env1 (unat (get_payload_size ?h)) = (st2, data, env2)" by (metis prod_cases3)
  show ?thesis
  proof (cases "st = STATUS_SUCCESS")
    case True
    note S = prepare_wsk_mdl_spec [OF p [unfolded True] wf hdr]
    have "length data \<le> chain_size chain" using pending_receive [OF r] S by simp
    moreover have "\<forall>p \<in> set chain. fits u1 ctx1 p" using S by blast
    ultimately have "\<exists>mem isoc. scatter (wc_hdr ctx1) chain data (uc_mem u1, wc_isoc ctx1) = Ok (mem, isoc) \<and>
        length mem = length (uc_mem u1) \<and> length isoc = length (wc_isoc ctx1)"
      by (intro scatter_safe) (simp_all add: fits_def)
    then obtain mem isoc where sc: "scatter (wc_hdr ctx1) chain data (uc_mem u1, wc_isoc ctx1) = Ok (mem, isoc)"
        "length mem = length (uc_mem u1)" "length isoc = length (wc_isoc ctx1)"
      by blast
    have "res = Ok (st2, ctx1\<lparr>wc_isoc := isoc\<rparr>, u1\<lparr>uc_mem := mem\<rparr>, env2)"
      using run by (simp add: recv_payload_def p r True sc(1))
    moreover have "ready ?h isoc (u1\<lparr>uc_mem := mem\<rparr>)"
      using S wf(2) sc(2,3) by (auto simp: ready_def wf_urb_iff)
    ultimately show ?thesis using S sc(3) by (auto simp: wf_ctx_def)
  next
    case False
    have "res = Ok (st, ctx1, u1, env1)" using run False by (simp add: recv_payload_def p)
    moreover have "wf_ctx ctx1 \<and> wc_hdr ctx1 = ?h" using prepare_wsk_mdl_ctx [OF p wf(1)] valid_packets(1) [OF hdr] by simp
    ultimately show ?thesis using False by simp
  qed
qed

lemma length_isoc_array [simp]: "length (isoc_array mem) = length mem div 16"
  by (simp add: isoc_array_def)

lemma byteswap_iso_Some: "n \<le> length ds \<Longrightarrow> \<exists>src. byteswap_iso ds n = Some src \<and> length src = length ds"
  by (auto simp: byteswap_iso_def)

lemma isoch_transfer_safe:
  assumes hdr: "valid_answer h" "command h = request_type_code RET_SUBMIT"
    and ready: "packets h \<noteq> 0 \<longrightarrow> wf_isoch r buf \<and> 16 * packets h \<le> length isoc \<and>
      unat (un1 h) \<le> unat (iu_TransferBufferLength r)"
  shows "isoch_transfer h isoc retrieve r buf \<noteq> None"
proof -
  note n = valid_packets(2) [OF hdr]
  define r1 where "r1 = isoch_fields h r"
  have same: "IsoPacket r1 = IsoPacket r" "iu_TransferBufferLength r1 = iu_TransferBufferLength r"
    by (simp_all add: r1_def)
  show ?thesis
  proof (cases "packets h = length (IsoPacket r)")
    case False
    then show ?thesis using n by (simp add: isoch_transfer_def Let_def flip: of_nat_eq_iff)
  next
    case True
    have "packets h \<le> length isoc div 16" using ready by (cases "packets h = 0") auto
    then obtain src where src: "byteswap_iso (isoc_array isoc) (packets h) = Some src" "packets h \<le> length src"
      using byteswap_iso_Some [of "packets h" "isoc_array isoc"] by auto
    have fill: "fill_isoc_data r1 (if is_hdr_dir_in h then Some buf else None) (un1 h) src \<noteq> None"
    proof (cases "is_hdr_dir_in h \<and> packets h \<noteq> 0")
      case in_packets: True
      then have "wf_isoch r1 buf" "unat (un1 h) \<le> unat (iu_TransferBufferLength r1)"
        using ready same by (simp_all add: wf_isoch_def)
      then show ?thesis using fill_isoc_data_safe [of r1 buf src "un1 h"] in_packets True src(2) same by auto
    next
      case False
      show ?thesis
      proof (cases "is_hdr_dir_in h")
        case True
        then have "IsoPacket r1 = []" using False \<open>packets h = length (IsoPacket r)\<close> same by simp
        then show ?thesis by (simp add: fill_isoc_data_def Let_def)
      next
        case out: False
        then show ?thesis using fill_isoc_data_out [of r1 src "un1 h"] True src(2) same by auto
      qed
    qed
    have "\<not> \<not> (0 \<le> ret_number_of_packets h \<and> nat (ret_number_of_packets h) = length (IsoPacket r1))"
      "nat (ret_number_of_packets h) = packets h"
      using n True same by simp_all
    then show ?thesis using fill src(1)
      unfolding isoch_transfer_def Let_def r1_def [symmetric] by (cases "is_hdr_dir_in h") (auto split: option.splits)
  qed
qed

lemma ret_submit_urb_safe:
  assumes "valid_answer (wc_hdr ctx)" "command (wc_hdr ctx) = request_type_code RET_SUBMIT"
    and "ready (wc_hdr ctx) (wc_isoc ctx) u"
  shows "ret_submit_urb patch has_serial iserial ctx u \<noteq> Fault h"
proof -
  let ?h = "wc_hdr ctx"
  define u1 where "u1 = u\<lparr>uc_status := if ret_status ?h \<noteq> 0 then to_windows_status (ret_status ?h) else USBD_STATUS_SUCCESS\<rparr>"
  have u1: "uc_length u1 = uc_length u" "uc_mem u1 = uc_mem u" "uc_packets u1 = uc_packets u" by (simp_all add: u1_def)
  show ?thesis
  proof (cases "uc_kind u1 = IsochTransfer")
    case True
    have "isoch_transfer ?h (wc_isoc ctx) (uc_retrieve u1) (to_isoch u1) (uc_mem u1) \<noteq> None"
      using assms(3) by (intro isoch_transfer_safe [OF assms(1,2)])
        (auto simp: ready_def wf_urb_def to_isoch_def u1 wf_isoch_def)
    then show ?thesis using True unfolding ret_submit_urb_def Let_def u1_def [symmetric]
      by (auto split: option.splits)
  next
    case False
    obtain st u2 where u2: "(if uc_length u1 \<noteq> un1 ?h
        then case assign (uc_length u1) (actual_length ?h) of (st, n) \<Rightarrow> (st, set_bytes_completed n u1)
        else (STATUS_SUCCESS, u1)) = (st, u2)" by (metis surj_pair)
    have "unat (uc_length u2) \<le> unat (uc_length u1)" "uc_mem u2 = uc_mem u1" "uc_kind u2 = uc_kind u1"
      using u2 by (auto dest: assign_le split: if_splits prod.splits)
    then have fits: "\<not> unat (uc_length u2) > length (uc_mem u2)" using assms(3) by (simp add: ready_def u1)
    show ?thesis using False
      unfolding ret_submit_urb_def Let_def u1_def [symmetric] u2 prod.case if_not_P [OF fits]
      by (simp split: option.splits)
  qed
qed

text \<open>The only validated header with packets but no payload.\<close>

lemma payload_zero:
  assumes "valid_answer h" "command h = request_type_code RET_SUBMIT" "get_payload_size h = 0" "packets h \<noteq> 0"
  shows "is_hdr_dir_in h \<and> actual_length h = - 16 * int (packets h)"
proof -
  note n = valid_packets [OF assms(1,2)]
  have dir: "direction h = 0 \<or> direction h = 1"
    using assms(1) extract_dir_cases [of "seqnum h"] by (simp add: valid_answer_def)
  have neq: "(word_of_int (ret_number_of_packets h) :: u64) \<noteq> - 1"
    using n of_nat_u64_neq_minus_one [of "packets h"] by simp
  have size: "get_payload_size h = word_of_int ((if direction h = 0 then 0 else actual_length h) + 16 * int (packets h))"
    using assms(2) n neq by (simp add: get_payload_size_def get_total_size_def get_isoc_descr_def Let_def
        to_request_type_def number_of_packets_non_isoch_def sizeof_iso_packet_descriptor_def)
  have inj: "i = 0" if "(word_of_int i :: u64) = 0" "\<bar>i\<bar> < 2 ^ 63" for i
  proof -
    have "2 ^ 64 dvd i" using that(1) by (simp add: word_of_int_eq_0_iff)
    then show ?thesis using that(2) by (auto dest: zdvd_imp_le simp: zdvd_not_zless)
  qed
  have sum: "\<bar>(if d then 0 else a) + 16 * k\<bar> < 2 ^ 63" if "\<bar>a\<bar> \<le> 2 ^ 31" "0 \<le> k" "k \<le> 1024" for a k :: int and d
    using that by (cases d) (simp_all add: abs_less_iff abs_le_iff)
  have "\<bar>actual_length h\<bar> \<le> 2 ^ 31"
    using sint_u32_less [of "un1 h"] sint_ge [of "un1 h"] by (simp add: abs_le_iff)
  moreover have "0 \<le> int (packets h)" "int (packets h) \<le> 1024" using n(1) by linarith+
  ultimately have small: "\<bar>(if direction h = 0 then 0 else actual_length h) + 16 * int (packets h)\<bar> < 2 ^ 63"
    by (rule sum)
  have "(if direction h = 0 then 0 else actual_length h) + 16 * int (packets h) = 0"
    by (rule inj [OF _ small]) (simp only: assms(3) flip: size)
  moreover have "int (packets h) \<noteq> 0" using assms(4) by linarith
  ultimately have "direction h \<noteq> 0" and sum0: "actual_length h + 16 * int (packets h) = 0"
    by (cases "direction h = 0"; simp only: if_True if_False)+
  then have "direction h = direction_in" using dir by blast
  then show ?thesis using sum0 unfolding is_hdr_dir_in_def by linarith
qed

section \<open>One answer\<close>

text \<open>The requests that wait have different handles, their URBs are well formed, and a request without
  URB waits for the answer to an OUT transfer (a reset of the port or of an endpoint).\<close>

definition wf_rx :: "receiver \<Rightarrow> bool" where
  "wf_rx \<sigma> \<longleftrightarrow> wf_ctx (rx_ctx \<sigma>) \<and> (\<forall>r u. rx_urbs \<sigma> r = Some u \<longrightarrow> wf_urb u) \<and>
     distinct (map re_request (rx_requests \<sigma>)) \<and>
     (\<forall>e \<in> set (rx_requests \<sigma>). rx_urbs \<sigma> (re_request e) = None \<longrightarrow> extract_dir (re_seqnum e) = direction_out)"

abbreviation handles :: "receiver \<Rightarrow> nat set" where
  "handles \<sigma> \<equiv> re_request ` set (rx_requests \<sigma>)"

text \<open>How a part of the loop may change the state: requests only leave the list, and the URBs of those
  that stay are not touched.\<close>

definition shrinks :: "receiver \<Rightarrow> receiver \<Rightarrow> bool" where
  "shrinks \<sigma> \<sigma>' \<longleftrightarrow> set (rx_requests \<sigma>') \<subseteq> set (rx_requests \<sigma>) \<and>
     (\<forall>r \<in> handles \<sigma>'. rx_urbs \<sigma>' r = rx_urbs \<sigma> r)"

lemma ret_command_spec:
  assumes run: "ret_command unmark \<sigma> = (q, \<sigma>')" and wf: "wf_rx \<sigma>"
  shows "rx_urbs \<sigma>' = rx_urbs \<sigma> \<and> rx_ctx \<sigma>' = rx_ctx \<sigma> \<and> rx_done \<sigma>' = rx_done \<sigma> \<and> wf_rx \<sigma>' \<and>
    set (rx_requests \<sigma>') \<subseteq> set (rx_requests \<sigma>) \<and>
    (\<forall>r. q = Some r \<longrightarrow> command (wc_hdr (rx_ctx \<sigma>)) = request_type_code RET_SUBMIT \<and> r \<notin> handles \<sigma>' \<and>
       (\<exists>e \<in> set (rx_requests \<sigma>). re_request e = r \<and> re_seqnum e = seqnum (wc_hdr (rx_ctx \<sigma>))))"
proof (cases "command (wc_hdr (rx_ctx \<sigma>)) = request_type_code RET_SUBMIT")
  case False
  then show ?thesis using run wf by (auto simp: ret_command_def)
next
  case True
  obtain reqs where rem: "remove_request unmark (rx_requests \<sigma>) (SEQNUM (seqnum (wc_hdr (rx_ctx \<sigma>)))) True = (q, reqs)"
    and \<sigma>': "\<sigma>' = \<sigma>\<lparr>rx_requests := reqs\<rparr>" using run True by (auto simp: ret_command_def Let_def split: prod.splits)
  have dist: "distinct (map re_request (rx_requests \<sigma>))" using wf by (simp add: wf_rx_def)
  obtain P where P: "reqs = filter P (rx_requests \<sigma>)" using remove_request_filter [OF rem dist] by blast
  have "wf_rx \<sigma>'" using wf by (auto simp: wf_rx_def \<sigma>' P distinct_map_filter)
  moreover have "r \<notin> handles \<sigma>' \<and> (\<exists>e \<in> set (rx_requests \<sigma>). re_request e = r \<and> re_seqnum e = seqnum (wc_hdr (rx_ctx \<sigma>)))"
    if q: "q = Some r" for r
  proof -
    obtain e where e: "e \<in> set (rx_requests \<sigma>)" "e \<notin> set reqs" "re_request e = r" "matches e (SEQNUM (seqnum (wc_hdr (rx_ctx \<sigma>))))"
      using remove_request_spec(2) [OF rem dist, rule_format, OF q] by auto
    have "r \<notin> re_request ` set reqs"
      using e(1,2,3) dist P by (auto simp: distinct_map dest: inj_onD)
    then show ?thesis using e by (auto simp: \<sigma>')
  qed
  ultimately show ?thesis using True by (auto simp: \<sigma>' P)
qed

text \<open>The answers that may make the driver access memory it does not own.\<close>

definition malformed_answer :: "receiver \<Rightarrow> header \<Rightarrow> bool" where
  "malformed_answer \<sigma> h \<longleftrightarrow> command h = request_type_code RET_SUBMIT \<and> packets h \<noteq> 0 \<and>
     (is_hdr_dir_in h \<and> actual_length h = - 16 * int (packets h) \<or>
      is_hdr_dir_out h \<and> (\<exists>e \<in> set (rx_requests \<sigma>). re_seqnum e = seqnum h \<and> rx_urbs \<sigma> (re_request e) = None))"

lemma get_flag_keeps:
  "get_flag \<sigma> = (b, \<sigma>') \<Longrightarrow> rx_requests \<sigma>' = rx_requests \<sigma> \<and> rx_urbs \<sigma>' = rx_urbs \<sigma> \<and>
    rx_ctx \<sigma>' = rx_ctx \<sigma> \<and> rx_done \<sigma>' = rx_done \<sigma>"
  by (auto simp: get_flag_def split: list.splits)

lemma read_payload_None:
  "\<exists>st \<sigma>'. read_payload None \<sigma> = Ok (st, \<sigma>') \<and> rx_requests \<sigma>' = rx_requests \<sigma> \<and> rx_urbs \<sigma>' = rx_urbs \<sigma> \<and>
    rx_ctx \<sigma>' = rx_ctx \<sigma> \<and> rx_done \<sigma>' = rx_done \<sigma>"
  by (auto simp: read_payload_def Let_def dest: get_flag_keeps split: prod.splits)

lemma read_payload_Some:
  assumes wf: "wf_ctx (rx_ctx \<sigma>)" "\<forall>u. rx_urbs \<sigma> r = Some u \<longrightarrow> wf_urb u"
    and hdr: "valid_answer (wc_hdr (rx_ctx \<sigma>))" "command (wc_hdr (rx_ctx \<sigma>)) = request_type_code RET_SUBMIT"
  shows "(\<exists>st \<sigma>'. read_payload (Some r) \<sigma> = Ok (st, \<sigma>') \<and> rx_requests \<sigma>' = rx_requests \<sigma> \<and> rx_done \<sigma>' = rx_done \<sigma> \<and>
      (\<forall>q. q \<noteq> r \<longrightarrow> rx_urbs \<sigma>' q = rx_urbs \<sigma> q) \<and> wf_ctx (rx_ctx \<sigma>') \<and> wc_hdr (rx_ctx \<sigma>') = wc_hdr (rx_ctx \<sigma>) \<and>
      (st = STATUS_SUCCESS \<longrightarrow> get_payload_size (wc_hdr (rx_ctx \<sigma>)) \<noteq> 0 \<longrightarrow>
        (\<exists>u. rx_urbs \<sigma>' r = Some u \<and> ready (wc_hdr (rx_ctx \<sigma>)) (wc_isoc (rx_ctx \<sigma>')) u)) \<and>
      (get_payload_size (wc_hdr (rx_ctx \<sigma>)) = 0 \<longrightarrow> \<sigma>' = \<sigma>)) \<or>
    read_payload (Some r) \<sigma> = Fault (wc_hdr (rx_ctx \<sigma>)) \<and> rx_urbs \<sigma> r = None \<and>
      get_payload_size (wc_hdr (rx_ctx \<sigma>)) \<noteq> 0"
proof (cases "get_payload_size (wc_hdr (rx_ctx \<sigma>)) = 0")
  case True
  then show ?thesis using wf(1) by (simp add: read_payload_def)
next
  case False
  obtain b \<sigma>1 where fl: "get_flag \<sigma> = (b, \<sigma>1)" by (metis surj_pair)
  have same: "rx_requests \<sigma>1 = rx_requests \<sigma>" "rx_urbs \<sigma>1 = rx_urbs \<sigma>" "rx_ctx \<sigma>1 = rx_ctx \<sigma>" "rx_done \<sigma>1 = rx_done \<sigma>"
    using get_flag_keeps [OF fl] by simp_all
  show ?thesis
  proof (cases "b \<or> rx_urbs \<sigma> r = None")
    case True
    then show ?thesis using False wf(1) same by (cases b) (simp_all add: read_payload_def Let_def fl)
  next
    case no: False
    then obtain u where u: "rx_urbs \<sigma> r = Some u" by auto
    obtain st ctx' u' env' where
      p: "recv_payload (rx_env \<sigma>1) (rx_ctx \<sigma>) u (unat (get_payload_size (wc_hdr (rx_ctx \<sigma>)))) = Ok (st, ctx', u', env')"
        "wf_ctx ctx'" "wc_hdr ctx' = wc_hdr (rx_ctx \<sigma>)"
        "st = STATUS_SUCCESS \<longrightarrow> ready (wc_hdr (rx_ctx \<sigma>)) (wc_isoc ctx') u'"
      using recv_payload_spec [OF wf(1) wf(2) [rule_format, OF u] hdr refl] by blast
    have "read_payload (Some r) \<sigma> =
        Ok (st, \<sigma>1\<lparr>rx_ctx := ctx', rx_urbs := (rx_urbs \<sigma>)(r \<mapsto> u'), rx_env := env'\<rparr>)"
      using False no by (simp add: read_payload_def Let_def fl same u p(1))
    then show ?thesis using False p(2,3,4) same by simp
  qed
qed

lemma complete_request_simps [simp]:
  "rx_requests (complete_request r st \<sigma>) = rx_requests \<sigma>" "rx_ctx (complete_request r st \<sigma>) = rx_ctx \<sigma>"
  "rx_urbs (complete_request r st \<sigma>) = (rx_urbs \<sigma>)(r := None)"
  "map fst (rx_done (complete_request r st \<sigma>)) = map fst (rx_done \<sigma>) @ [r]"
  by (simp_all add: complete_request_def)

lemma ret_submit_keeps:
  "ret_submit patch r \<sigma> = Ok (st, \<sigma>') \<Longrightarrow> rx_requests \<sigma>' = rx_requests \<sigma> \<and> rx_ctx \<sigma>' = rx_ctx \<sigma> \<and>
    rx_done \<sigma>' = rx_done \<sigma> \<and> (\<forall>q. q \<noteq> r \<longrightarrow> rx_urbs \<sigma>' q = rx_urbs \<sigma> q)"
  by (auto simp: ret_submit_def Let_def split: option.splits outcome.splits prod.splits)

lemma wf_rx_after:
  assumes "wf_rx \<sigma>" "wf_ctx (rx_ctx \<sigma>')" "rx_requests \<sigma>' = rx_requests \<sigma>" "r \<notin> handles \<sigma>"
    and "\<forall>q. q \<noteq> r \<longrightarrow> rx_urbs \<sigma>' q = rx_urbs \<sigma> q"
  shows "wf_rx (complete_request r st \<sigma>')" "shrinks \<sigma> (complete_request r st \<sigma>')"
proof -
  have "rx_urbs (complete_request r st \<sigma>') q = (if q = r then None else rx_urbs \<sigma> q)" for q
    using assms(5) by simp
  then show "wf_rx (complete_request r st \<sigma>')" "shrinks \<sigma> (complete_request r st \<sigma>')"
    using assms(1-4) by (auto simp: wf_rx_def shrinks_def image_iff)
qed

lemma payload_packets:
  assumes "command h = request_type_code RET_SUBMIT" "is_hdr_dir_out h" "get_payload_size h \<noteq> 0"
  shows "packets h \<noteq> 0"
proof
  assume "packets h = 0"
  then have "un3 h = 0" by (simp add: unat_eq_0)
  then show False using assms by (simp add: get_payload_size_def get_total_size_def get_isoc_descr_def Let_def
        to_request_type_def is_hdr_dir_out_def)
qed

lemma ret_submit_urb_fault_hdr: "ret_submit_urb patch s i ctx u = Fault h \<Longrightarrow> h = wc_hdr ctx"
  by (auto simp: ret_submit_urb_def Let_def split: if_splits option.splits prod.splits)

text \<open>A fault in \<open>ret_submit\<close> after a successful \<open>read_payload\<close>.\<close>

lemma answer_faults:
  assumes hdr: "valid_answer (wc_hdr (rx_ctx \<sigma>))" "command (wc_hdr (rx_ctx \<sigma>)) = request_type_code RET_SUBMIT"
    and fault: "ret_submit patch r \<sigma> = Fault h"
    and ready: "get_payload_size (wc_hdr (rx_ctx \<sigma>)) \<noteq> 0 \<Longrightarrow>
       \<exists>u. rx_urbs \<sigma> r = Some u \<and> ready (wc_hdr (rx_ctx \<sigma>)) (wc_isoc (rx_ctx \<sigma>)) u"
    and wf: "get_payload_size (wc_hdr (rx_ctx \<sigma>)) = 0 \<Longrightarrow> \<forall>u. rx_urbs \<sigma> r = Some u \<longrightarrow> wf_urb u"
  shows "h = wc_hdr (rx_ctx \<sigma>) \<and> packets h \<noteq> 0 \<and> is_hdr_dir_in h \<and> actual_length h = - 16 * int (packets h)"
proof -
  let ?h = "wc_hdr (rx_ctx \<sigma>)"
  obtain u where u: "rx_urbs \<sigma> r = Some u"
      "ret_submit_urb patch (rx_has_serial \<sigma>) (rx_iserial \<sigma>) (rx_ctx \<sigma>) u = Fault h"
    using fault by (auto simp: ret_submit_def Let_def split: option.splits outcome.splits)
  have h: "h = ?h" by (rule ret_submit_urb_fault_hdr [OF u(2)])
  have not_ready: "\<not> ready ?h (wc_isoc (rx_ctx \<sigma>)) u" using ret_submit_urb_safe [OF hdr] u(2) by blast
  have zero: "get_payload_size ?h = 0" using ready u(1) not_ready by auto
  then have "wf_urb u" using wf u(1) by blast
  then have n: "packets ?h \<noteq> 0" using not_ready by (auto simp: ready_def wf_urb_iff)
  from payload_zero [OF hdr zero n] n h show ?thesis by blast
qed

lemma process_answer_spec:
  assumes wf: "wf_rx \<sigma>" and hdr: "valid_answer (wc_hdr (rx_ctx \<sigma>))"
  shows "process_answer patch unmark \<sigma> = Hang \<or>
    (\<exists>h. process_answer patch unmark \<sigma> = Fault h \<and> h = wc_hdr (rx_ctx \<sigma>) \<and> malformed_answer \<sigma> h) \<or>
    (\<exists>st \<sigma>' rs. process_answer patch unmark \<sigma> = Ok (st, \<sigma>') \<and> wf_rx \<sigma>' \<and> shrinks \<sigma> \<sigma>' \<and>
       map fst (rx_done \<sigma>') = map fst (rx_done \<sigma>) @ rs \<and> distinct rs \<and> set rs \<subseteq> handles \<sigma> - handles \<sigma>')"
proof -
  let ?h = "wc_hdr (rx_ctx \<sigma>)"
  obtain q \<sigma>1 where rc: "ret_command unmark \<sigma> = (q, \<sigma>1)" by (metis surj_pair)
  note C = ret_command_spec [OF rc wf]
  show ?thesis
  proof (cases q)
    case None
    obtain st \<sigma>2 where r: "read_payload None \<sigma>1 = Ok (st, \<sigma>2)" "rx_requests \<sigma>2 = rx_requests \<sigma>1"
        "rx_urbs \<sigma>2 = rx_urbs \<sigma>1" "rx_ctx \<sigma>2 = rx_ctx \<sigma>1" "rx_done \<sigma>2 = rx_done \<sigma>1"
      using read_payload_None by blast
    have "process_answer patch unmark \<sigma> = Ok (st, \<sigma>2)" by (simp add: process_answer_def rc None r(1))
    moreover have "wf_rx \<sigma>2" using C unfolding wf_rx_def r(2,3,4) by blast
    moreover have "shrinks \<sigma> \<sigma>2" using C r by (auto simp: shrinks_def)
    ultimately show ?thesis using C r by force
  next
    case (Some r)
    have cmd: "command ?h = request_type_code RET_SUBMIT" and r: "r \<notin> handles \<sigma>1"
      and e: "\<exists>e \<in> set (rx_requests \<sigma>). re_request e = r \<and> re_seqnum e = seqnum ?h" using C Some by auto
    have ctx: "rx_ctx \<sigma>1 = rx_ctx \<sigma>" "rx_urbs \<sigma>1 = rx_urbs \<sigma>" and wf1: "wf_rx \<sigma>1" using C by auto
    have wf_in: "wf_ctx (rx_ctx \<sigma>1)" "\<forall>u. rx_urbs \<sigma>1 r = Some u \<longrightarrow> wf_urb u" using wf1 by (auto simp: wf_rx_def)
    have h1: "valid_answer (wc_hdr (rx_ctx \<sigma>1))" "command (wc_hdr (rx_ctx \<sigma>1)) = request_type_code RET_SUBMIT"
      using hdr cmd ctx by simp_all
    note RP = read_payload_Some [OF wf_in h1, unfolded ctx]
    have done_ok: "\<exists>st \<sigma>' rs. Ok (st0, complete_request r st1 \<sigma>2) = Ok (st, \<sigma>') \<and> wf_rx \<sigma>' \<and> shrinks \<sigma> \<sigma>' \<and>
       map fst (rx_done \<sigma>') = map fst (rx_done \<sigma>) @ rs \<and> distinct rs \<and> set rs \<subseteq> handles \<sigma> - handles \<sigma>'"
      if "wf_ctx (rx_ctx \<sigma>2)" "rx_requests \<sigma>2 = rx_requests \<sigma>1" "rx_done \<sigma>2 = rx_done \<sigma>1"
        "\<forall>q. q \<noteq> r \<longrightarrow> rx_urbs \<sigma>2 q = rx_urbs \<sigma>1 q" for st0 st1 \<sigma>2
    proof -
      note W = wf_rx_after [OF wf1 that(1,2) r that(4), of st1]
      have "shrinks \<sigma> (complete_request r st1 \<sigma>2)" using W(2) C by (auto simp: shrinks_def)
      then show ?thesis using W(1) C that(2,3) e r
        by (intro exI [of _ st0] exI [of _ "complete_request r st1 \<sigma>2"] exI [of _ "[r]"]) auto
    qed
    show ?thesis
    proof (cases "read_payload (Some r) \<sigma>1")
      case (Fault h)
      then have f: "h = ?h" "rx_urbs \<sigma> r = None" "get_payload_size ?h \<noteq> 0"
        using RP by simp_all
      obtain e where e: "e \<in> set (rx_requests \<sigma>)" "re_request e = r" "re_seqnum e = seqnum ?h" using e by blast
      have "extract_dir (re_seqnum e) = direction_out" using wf e(1,2) f(2) unfolding wf_rx_def by blast
      then have out: "is_hdr_dir_out ?h" using hdr e(3) by (simp add: valid_answer_def is_hdr_dir_out_def)
      then have "malformed_answer \<sigma> ?h"
        using payload_packets [OF cmd out] f(2,3) cmd e unfolding malformed_answer_def by blast
      then show ?thesis using Fault f(1) by (simp add: process_answer_def rc Some)
    next
      case Hang
      then show ?thesis by (simp add: process_answer_def rc Some)
    next
      case (Ok x)
      obtain status \<sigma>2 where x: "x = (status, \<sigma>2)" by (cases x)
      have R: "rx_requests \<sigma>2 = rx_requests \<sigma>1" "rx_done \<sigma>2 = rx_done \<sigma>1" "\<forall>q. q \<noteq> r \<longrightarrow> rx_urbs \<sigma>2 q = rx_urbs \<sigma>1 q"
          "wf_ctx (rx_ctx \<sigma>2)" "wc_hdr (rx_ctx \<sigma>2) = ?h"
          "status = STATUS_SUCCESS \<Longrightarrow> get_payload_size ?h \<noteq> 0 \<Longrightarrow>
             \<exists>u. rx_urbs \<sigma>2 r = Some u \<and> ready ?h (wc_isoc (rx_ctx \<sigma>2)) u"
          "get_payload_size ?h = 0 \<Longrightarrow> \<sigma>2 = \<sigma>1"
        using RP Ok x ctx by simp_all
      show ?thesis
      proof (cases "status = STATUS_SUCCESS")
        case False
        then have "process_answer patch unmark \<sigma> = Ok (status, complete_request r status \<sigma>2)"
          by (simp add: process_answer_def rc Some Ok x)
        then show ?thesis using done_ok [OF R(4,1,2,3)] by simp
      next
        case True
        show ?thesis
        proof (cases "ret_submit patch r \<sigma>2")
          case Hang
          then show ?thesis by (simp add: process_answer_def rc Some Ok x True)
        next
          case (Fault h)
          have "h = ?h \<and> malformed_answer \<sigma> ?h"
            using answer_faults [OF _ _ Fault] R(5,6,7) hdr cmd wf_in(2) True unfolding malformed_answer_def by auto
          then show ?thesis using Fault by (simp add: process_answer_def rc Some Ok x True)
        next
          case ok: (Ok y)
          obtain st \<sigma>3 where y: "y = (st, \<sigma>3)" by (cases y)
          note K = ret_submit_keeps [OF ok [unfolded y]]
          have "process_answer patch unmark \<sigma> = Ok (status, complete_request r st \<sigma>3)"
            by (simp add: process_answer_def rc Some Ok x True ok y)
          then show ?thesis using done_ok [of \<sigma>3] K R by simp
        qed
      qed
    qed
  qed
qed

section \<open>The loop\<close>

lemma recv_usbip_header_spec:
  assumes "recv_usbip_header \<sigma> = (err, \<sigma>')"
  shows "rx_requests \<sigma>' = rx_requests \<sigma> \<and> rx_urbs \<sigma>' = rx_urbs \<sigma> \<and> rx_done \<sigma>' = rx_done \<sigma> \<and>
    (wf_ctx (rx_ctx \<sigma>) \<longrightarrow> wf_ctx (rx_ctx \<sigma>')) \<and> (err = STATUS_SUCCESS \<longrightarrow> valid_answer (wc_hdr (rx_ctx \<sigma>')))"
  using assms by (auto simp: recv_usbip_header_def Let_def wf_ctx_def dest: validate_header_valid
      split: prod.splits if_splits option.splits)

lemma shrinks_trans: "shrinks \<sigma> \<sigma>1 \<Longrightarrow> shrinks \<sigma>1 \<sigma>2 \<Longrightarrow> shrinks \<sigma> \<sigma>2"
  by (auto simp: shrinks_def image_iff)

lemma malformed_shrinks: "shrinks \<sigma> \<sigma>' \<Longrightarrow> malformed_answer \<sigma>' h \<Longrightarrow> malformed_answer \<sigma> h"
  by (auto simp: malformed_answer_def shrinks_def)

text \<open>The state in which an answer is processed.\<close>

lemma turn_start:
  assumes "get_flag \<sigma> = (b, \<sigma>1)" "recv_usbip_header \<sigma>1 = (err, \<sigma>2)" "wf_rx \<sigma>"
  shows "wf_rx \<sigma>2" "shrinks \<sigma> \<sigma>2" "handles \<sigma>2 = handles \<sigma>" "rx_done \<sigma>2 = rx_done \<sigma>"
    "err = STATUS_SUCCESS \<Longrightarrow> valid_answer (wc_hdr (rx_ctx \<sigma>2))"
  using get_flag_keeps [OF assms(1)] recv_usbip_header_spec [OF assms(2)] assms(3)
  by (simp_all add: wf_rx_def shrinks_def)

lemma diff_chain: "C \<subseteq> B \<Longrightarrow> B \<subseteq> A \<Longrightarrow> S \<subseteq> B - C \<Longrightarrow> R \<subseteq> A - B \<Longrightarrow> R \<union> S \<subseteq> A - C \<and> R \<inter> S = {}"
  by blast

lemma recv_loop_spec:
  "wf_rx \<sigma> \<Longrightarrow> recv_loop patch unmark \<sigma> = Hang \<or>
    (\<exists>h. recv_loop patch unmark \<sigma> = Fault h \<and> malformed_answer \<sigma> h) \<or>
    (\<exists>\<sigma>' rs. recv_loop patch unmark \<sigma> = Ok \<sigma>' \<and> shrinks \<sigma> \<sigma>' \<and>
       map fst (rx_done \<sigma>') = map fst (rx_done \<sigma>) @ rs \<and> distinct rs \<and> set rs \<subseteq> handles \<sigma> - handles \<sigma>')"
proof (induction patch unmark \<sigma> rule: recv_loop.induct)
  case (1 patch unmark \<sigma>)
  obtain b \<sigma>1 where fl: "get_flag \<sigma> = (b, \<sigma>1)" by (metis surj_pair)
  obtain err \<sigma>2 where rh: "recv_usbip_header \<sigma>1 = (err, \<sigma>2)" by (metis surj_pair)
  note T = turn_start [OF fl rh 1(2)]
  note F = get_flag_keeps [OF fl]
  note unfold = recv_loop.simps [of patch unmark \<sigma>, unfolded fl prod.case rh]
  have stop: "\<exists>\<sigma>' rs. Ok \<tau> = Ok \<sigma>' \<and> shrinks \<sigma> \<sigma>' \<and> map fst (rx_done \<sigma>') = map fst (rx_done \<sigma>) @ rs \<and>
      distinct rs \<and> set rs \<subseteq> handles \<sigma> - handles \<sigma>'" if "shrinks \<sigma> \<tau>" "rx_done \<tau> = rx_done \<sigma>" for \<tau>
    using that by (intro exI [of _ \<tau>] exI [of _ "[]"]) simp
  show ?case
  proof (cases "b \<or> err \<noteq> STATUS_SUCCESS")
    case True
    have "shrinks \<sigma> \<sigma>1" using F by (simp add: shrinks_def)
    then show ?thesis using True F T stop [of \<sigma>1] stop [of \<sigma>2] by (cases b) (simp_all add: unfold)
  next
    case go: False
    from process_answer_spec [OF T(1) T(5), of patch unmark] go consider
        (hang) "process_answer patch unmark \<sigma>2 = Hang"
      | (fault) h where "process_answer patch unmark \<sigma>2 = Fault h" "malformed_answer \<sigma>2 h"
      | (ok) st \<sigma>3 rs where "process_answer patch unmark \<sigma>2 = Ok (st, \<sigma>3)" "wf_rx \<sigma>3" "shrinks \<sigma>2 \<sigma>3"
          "map fst (rx_done \<sigma>3) = map fst (rx_done \<sigma>2) @ rs" "distinct rs" "set rs \<subseteq> handles \<sigma>2 - handles \<sigma>3"
      by blast
    then show ?thesis
    proof cases
      case hang
      then show ?thesis using go by (simp add: unfold)
    next
      case fault
      then show ?thesis using go malformed_shrinks [OF T(2)] by (simp add: unfold)
    next
      case ok
      have s3: "shrinks \<sigma> \<sigma>3" by (rule shrinks_trans [OF T(2) ok(3)])
      show ?thesis
      proof (cases "st = STATUS_SUCCESS")
        case False
        then show ?thesis using go ok s3 T(3,4) by (auto simp: unfold)
      next
        case True
        have eq: "recv_loop patch unmark \<sigma> = recv_loop patch unmark \<sigma>3" using go ok(1) True by (simp add: unfold)
        have IH: "recv_loop patch unmark \<sigma>3 = Hang \<or>
            (\<exists>h. recv_loop patch unmark \<sigma>3 = Fault h \<and> malformed_answer \<sigma>3 h) \<or>
            (\<exists>\<sigma>' rs. recv_loop patch unmark \<sigma>3 = Ok \<sigma>' \<and> shrinks \<sigma>3 \<sigma>' \<and>
               map fst (rx_done \<sigma>') = map fst (rx_done \<sigma>3) @ rs \<and> distinct rs \<and> set rs \<subseteq> handles \<sigma>3 - handles \<sigma>')"
          using 1(1) [OF fl [symmetric] _ rh [symmetric] _ ok(1) refl _ ok(2)] go True by blast
        then show ?thesis
        proof (elim disjE exE conjE)
          fix \<sigma>' ss
          assume o: "recv_loop patch unmark \<sigma>3 = Ok \<sigma>'" "shrinks \<sigma>3 \<sigma>'"
            "map fst (rx_done \<sigma>') = map fst (rx_done \<sigma>3) @ ss" "distinct ss" "set ss \<subseteq> handles \<sigma>3 - handles \<sigma>'"
          have sub: "handles \<sigma>' \<subseteq> handles \<sigma>3" "handles \<sigma>3 \<subseteq> handles \<sigma>"
            using o(2) s3 by (auto simp: shrinks_def)
          note D = diff_chain [OF sub o(5) ok(6) [unfolded T(3)]]
          have "set (rs @ ss) \<subseteq> handles \<sigma> - handles \<sigma>'" using D unfolding set_append by (rule conjunct1)
          then show ?thesis using D o ok(4,5) T(4) shrinks_trans [OF s3 o(2)]
            by (intro disjI2 exI [of _ \<sigma>'] exI [of _ "rs @ ss"]) (simp add: eq)
        qed (use eq malformed_shrinks [OF s3] in auto)
      qed
    qed
  qed
qed

section \<open>A malformed answer\<close>

lemma negative_length:
  assumes n: "0 < n" "n \<le> 1024"
    and h: "h = zero_header\<lparr>command := 3, seqnum := 3, direction := 1, un1 := - (16 * of_nat n), un3 := of_nat n\<rparr>"
    and \<sigma>: "wc_hdr (rx_ctx \<sigma>) = h" "wc_isoc (rx_ctx \<sigma>) = []"
      "rx_requests \<sigma> = [\<lparr>re_request = r, re_endpoint = e, re_seqnum = 3, re_cancelable = False\<rparr>]"
      "rx_urbs \<sigma> r = Some u" "uc_kind u = IsochTransfer" "length (uc_packets u) = n"
  shows "validate_header (byteswap_header h host2net) = Some h \<and> process_answer patch unmark \<sigma> = Fault h"
proof -
  have "un1 h = word_of_int (- 16 * int n)" by (simp add: h)
  then have al: "actual_length h = - 16 * int n"
    using n by (simp only: signed_of_int) (simp add: signed_take_bit_int_eq_self)
  have cnt: "ret_number_of_packets h = int n" using n by (simp add: h sint_of_nat_u32)
  have cmd: "to_request_type (command h) = Some RET_SUBMIT" by (simp add: h to_request_type_def)
  have v: "validate_header (byteswap_header h host2net) = Some h"
  proof -
    have "is_valid_number_of_packets (int n)" "int n \<noteq> number_of_packets_non_isoch"
      using n by (simp_all add: is_valid_number_of_packets_def max_iso_packets_def number_of_packets_non_isoch_def)
    moreover have "is_valid_seqnum (seqnum h)" "h\<lparr>direction := extract_dir (seqnum h)\<rparr> = h"
      by (simp_all add: h is_valid_seqnum_def extract_num_def extract_dir_def)
    ultimately show ?thesis by (simp add: validate_header_def Let_def cmd cnt)
  qed
  have size: "get_payload_size h = 0"
  proof -
    have "(word_of_int (int n) :: u64) \<noteq> - 1" using of_nat_u64_neq_minus_one [of n] n by simp
    then show ?thesis
      by (simp add: get_payload_size_def get_total_size_def get_isoc_descr_def Let_def cmd al cnt
          number_of_packets_non_isoch_def sizeof_iso_packet_descriptor_def) (simp add: h)
  qed
  have "isoch_transfer h [] st i buf = None" if "length (IsoPacket i) = n" for st i buf
    using n that by (simp add: isoch_transfer_def Let_def cnt byteswap_iso_def isoc_array_def)
  then have "ret_submit_urb patch b s (rx_ctx \<sigma>) u = Fault h" for b s
    using \<sigma> by (simp add: ret_submit_urb_def Let_def to_isoch_def)
  then have "process_answer patch unmark \<sigma> = Fault h"
    using \<sigma> by (simp add: process_answer_def ret_command_def Let_def read_payload_def ret_submit_def size) (simp add: h)
  then show ?thesis using v by simp
qed

text \<open>Receivers for which the thread can be run: one answer arrives, with the header given.\<close>

definition answer_env :: "header \<Rightarrow> kenv" where
  "answer_env h = \<lparr>mdl_prepare = [], sends = [], receives = [(STATUS_SUCCESS, header_bytes (byteswap_header h host2net))],
     allocs = [], sent_log = []\<rparr>"

definition empty_ctx :: wsk_context where
  "empty_ctx = \<lparr>wc_hdr = zero_header, wc_is_isoc = False, wc_isoc = [], wc_mdl_isoc = 0, wc_buf_tail = False, wc_mdl_buf_tail = 0\<rparr>"

definition one_request :: "u32 \<Rightarrow> urb_ctx option \<Rightarrow> header \<Rightarrow> receiver" where
  "one_request s uo h = \<lparr>rx_requests = [\<lparr>re_request = 7, re_endpoint = 1, re_seqnum = s, re_cancelable = False\<rparr>],
     rx_urbs = (\<lambda>r. if r = 7 then uo else None), rx_ctx = empty_ctx, rx_env = answer_env h, rx_unplugged = [False, True],
     rx_has_serial = False, rx_iserial = 0, rx_done = []\<rparr>"

lemma one_request_header:
  assumes "length (setup_pkt h) = 8" "validate_header (byteswap_header h host2net) = Some h'"
  shows "recv_usbip_header ((one_request s uo h)\<lparr>rx_unplugged := fl\<rparr>) =
    (STATUS_SUCCESS, (one_request s uo h)\<lparr>rx_unplugged := fl, rx_env := (answer_env h)\<lparr>receives := []\<rparr>,
       rx_ctx := empty_ctx\<lparr>wc_hdr := h'\<rparr>\<rparr>)"
proof -
  have len: "length (header_bytes (byteswap_header h host2net)) = sizeof_header"
    using assms(1) by (simp add: length_header_bytes)
  have "header_of_bytes (header_bytes (byteswap_header h host2net)) = byteswap_header h host2net"
    using assms(1) by (intro header_of_header_bytes) simp
  then show ?thesis
    using assms(2) len by (simp add: recv_usbip_header_def one_request_def answer_env_def receive_def transfer_recv_def
        WskReceive_def Let_def NT_ERROR_def)
qed

section \<open>Properties\<close>







text \<open>C28. The malformed answer does reach the fault: for every number of packets there is a header that
  passes \<open>validate_header\<close> and makes the driver convert descriptors behind a context whose array was
  never allocated, when the request it answers is an isochronous transfer with as many packets.\<close>

theorem negative_length_faults:
  assumes n: "0 < n" "n \<le> 1024"
    and h: "h = zero_header\<lparr>command := 3, seqnum := 3, direction := 1, un1 := - (16 * of_nat n), un3 := of_nat n\<rparr>"
    and \<sigma>: "wc_hdr (rx_ctx \<sigma>) = h" "wc_isoc (rx_ctx \<sigma>) = []"
      "rx_requests \<sigma> = [\<lparr>re_request = r, re_endpoint = e, re_seqnum = 3, re_cancelable = False\<rparr>]"
      "rx_urbs \<sigma> r = Some u" "uc_kind u = IsochTransfer" "length (uc_packets u) = n"
  shows "validate_header (byteswap_header h host2net) = Some h \<and> process_answer patch unmark \<sigma> = Fault h"
  using assms by (rule negative_length)

theorem negative_length_faults_witness:
  "\<exists>h \<sigma>. validate_header (byteswap_header h host2net) = Some h \<and> process_answer Some (\<lambda>_. STATUS_SUCCESS) \<sigma> = Fault h"
proof -
  let ?h = "zero_header\<lparr>command := 3, seqnum := 3, direction := 1, un1 := - (16 * of_nat 1), un3 := of_nat 1\<rparr>"
  let ?u = "\<lparr>uc_kind = IsochTransfer, uc_status = USBD_STATUS_PENDING, uc_flags = 0, uc_setup = [],
     uc_buf = \<lparr>TransferBufferLength = 0, TransferBufferMDL = [], has_TransferBuffer = False\<rparr>, uc_mem = [],
     uc_start_frame = 0, uc_error_count = 0,
     uc_packets = [\<lparr>ip_Offset = 0, ip_Length = 0, ip_Status = USBD_STATUS_PENDING\<rparr>],
     uc_retrieve = STATUS_SUCCESS, uc_mapped = True, uc_alloc = True\<rparr>"
  have "validate_header (byteswap_header ?h host2net) = Some ?h \<and>
      process_answer Some (\<lambda>_. STATUS_SUCCESS) ((one_request 3 (Some ?u) ?h)\<lparr>rx_ctx := empty_ctx\<lparr>wc_hdr := ?h\<rparr>\<rparr>) = Fault ?h"
    by (rule negative_length_faults [of 1 _ _ 7 1 ?u, OF _ _ refl]) (simp_all add: one_request_def empty_ctx_def)
  then show ?thesis by blast
qed

end
