(* ===== verification/Vhci_Ports.thy ===== *)
theory Vhci_Ports
  imports Prelude
begin

text \<open>
  The root hub of the virtual host controller (\<open>drivers/ude/vhci.cpp\<close>, \<open>context.h\<close>): how many
  ports it has, which device sits in which port, and the operations that claim, release and
  look up a port. A WDF handle is a number, \<open>WDF_NO_HANDLE\<close> is 0. The table
  \<open>vhci_ctx.devices\<close> and the field \<open>device_ctx.port\<close> of each device point at each other; every
  operation runs under \<open>devices_lock\<close>, so an operation is one step.

  The table is specified as a partial map from port numbers to devices. The locale
  \<open>port_table\<close> states what the clients of the table rely on, and is interpreted on the
  definitions of this theory.
\<close>

section \<open>The controller context\<close>

type_synonym wdf_handle = nat

definition WDF_NO_HANDLE :: wdf_handle where
  "WDF_NO_HANDLE = 0"

text \<open>\<open>usb_device_speed\<close> is an enumeration of type \<open>int\<close>; the value comes from the server and may
  be none of the names.\<close>

definition USB_SPEED_SUPER :: int where
  "USB_SPEED_SUPER = 5"

text \<open>The fields of \<open>device_ctx\<close> (with its extension) that the root hub reads or writes, and the
  references that the hub and its callers hold on the object.\<close>

record hub_device =
  dev_speed :: int
  dev_location_hash :: u32
  dev_port :: int
  dev_refs :: nat

record vhci_hub =
  usb2_ports :: int
  devices_cnt :: int
  devices :: "wdf_handle list"
  device_of :: "wdf_handle \<Rightarrow> hub_device"

section \<open>Number of ports\<close>

text \<open>The driver's registry parameters: \<open>None\<close> when the key cannot be opened, and for each value
  \<open>None\<close> when \<open>WdfRegistryQueryULong\<close> fails. The \<open>ULONG\<close> is assigned to an \<open>int\<close>. The result is
  \<open>v.cnt\<close>, whose index 0 is USB 3 and index 1 is USB 2.\<close>

type_synonym ports_registry = "(u32 option \<times> u32 option) option"

definition query_usb_ports_cnt :: "ports_registry \<Rightarrow> int \<Rightarrow> int list" where
  "query_usb_ports_cnt reg def_cnt =
     (case reg of
        None \<Rightarrow> [def_cnt, def_cnt]
      | Some (n20, n30) \<Rightarrow>
          [case n30 of None \<Rightarrow> def_cnt | Some v \<Rightarrow> sint v,
           case n20 of None \<Rightarrow> def_cnt | Some v \<Rightarrow> sint v])"

definition MIN_PORTS :: int where "MIN_PORTS = 1"
definition DEF_PORTS :: int where "DEF_PORTS = 30"
definition MAX_PORTS :: int where "MAX_PORTS = 254"
definition MAX_TOTAL_PORTS :: int where "MAX_TOTAL_PORTS = 255"

lemmas port_limits = MIN_PORTS_def DEF_PORTS_def MAX_PORTS_def MAX_TOTAL_PORTS_def

fun limit_ports :: "int \<Rightarrow> int list \<Rightarrow> int list" where
  "limit_ports tot [] = []"
| "limit_ports tot (n # ns) =
     (let n = min MAX_PORTS (max MIN_PORTS n);
          n = (if tot + n > MAX_TOTAL_PORTS then MAX_TOTAL_PORTS - tot else n)
      in n # limit_ports (tot + n) ns)"

definition set_usb_ports_cnt :: "ports_registry \<Rightarrow> int \<times> int" where
  "set_usb_ports_cnt reg =
     (let cnt = limit_ports 0 (query_usb_ports_cnt reg DEF_PORTS) in (cnt ! 1, cnt ! 0))"

text \<open>The zeroed array comes from \<open>ExAllocatePool2\<close>; \<open>pool\<close> tells whether it succeeds.\<close>

definition alloc_devices :: "bool \<Rightarrow> ports_registry \<Rightarrow> vhci_hub \<Rightarrow> ntstatus \<times> vhci_hub" where
  "alloc_devices pool reg h =
     (let (usb2, usb3) = set_usb_ports_cnt reg; n = usb2 + usb3 in
      if \<not> pool then (STATUS_INSUFFICIENT_RESOURCES, h)
      else (STATUS_SUCCESS,
            h\<lparr>usb2_ports := usb2, devices_cnt := n, devices := replicate (nat n) WDF_NO_HANDLE\<rparr>))"

section \<open>Operations on the table\<close>

definition is_valid_port :: "vhci_hub \<Rightarrow> int \<Rightarrow> bool" where
  "is_valid_port h port \<longleftrightarrow> port > 0 \<and> port \<le> devices_cnt h"

definition get_port_range :: "vhci_hub \<Rightarrow> int \<Rightarrow> int \<times> int" where
  "get_port_range h speed =
     (if speed < USB_SPEED_SUPER then (0, usb2_ports h) else (usb2_ports h, devices_cnt h))"

definition set_device :: "vhci_hub \<Rightarrow> wdf_handle \<Rightarrow> (hub_device \<Rightarrow> hub_device) \<Rightarrow> vhci_hub" where
  "set_device h d f = h\<lparr>device_of := (device_of h)(d := f (device_of h d))\<rparr>"

function claim_loop :: "vhci_hub \<Rightarrow> wdf_handle \<Rightarrow> int \<Rightarrow> int \<Rightarrow> vhci_hub \<times> int" where
  "claim_loop h d i stop =
     (if i < stop then
        (if devices h ! nat i = WDF_NO_HANDLE then
           (set_device (h\<lparr>devices := (devices h)[nat i := d]\<rparr>) d
              (\<lambda>x. x\<lparr>dev_refs := dev_refs x + 1, dev_port := i + 1\<rparr>),
            i + 1)
         else claim_loop h d (i + 1) stop)
      else (h, 0))"
  by pat_completeness auto
termination by (relation "measure (\<lambda>(_, _, i, stop). nat (stop - i))") auto

declare claim_loop.simps [simp del]

definition claim_roothub_port :: "vhci_hub \<Rightarrow> wdf_handle \<Rightarrow> vhci_hub \<times> int" where
  "claim_roothub_port h d =
     (let (first, stop) = get_port_range h (dev_speed (device_of h d)) in claim_loop h d first stop)"

definition reclaim_roothub_port :: "vhci_hub \<Rightarrow> wdf_handle \<Rightarrow> vhci_hub \<times> int" where
  "reclaim_roothub_port h d =
     (let port = dev_port (device_of h d) in
      if port \<noteq> 0 then
        (set_device (h\<lparr>devices := (devices h)[nat (port - 1) := WDF_NO_HANDLE]\<rparr>) d
           (\<lambda>x. x\<lparr>dev_port := 0, dev_refs := dev_refs x - 1\<rparr>), port)
      else (h, 0))"

fun has_device_loop :: "vhci_hub \<Rightarrow> u32 \<Rightarrow> wdf_handle list \<Rightarrow> bool" where
  "has_device_loop h hash [] = False"
| "has_device_loop h hash (d # ds) =
     (if d \<noteq> WDF_NO_HANDLE \<and> dev_location_hash (device_of h d) = hash then True
      else has_device_loop h hash ds)"

definition has_device :: "vhci_hub \<Rightarrow> u32 \<Rightarrow> bool" where
  "has_device h hash = has_device_loop h hash (take (nat (devices_cnt h)) (devices h))"

text \<open>\<open>get_device\<close> returns a counted reference, the destructor of \<open>wdf::ObjectRef\<close> drops it.\<close>

definition get_device :: "vhci_hub \<Rightarrow> int \<Rightarrow> vhci_hub \<times> wdf_handle" where
  "get_device h port =
     (if \<not> is_valid_port h port then (h, WDF_NO_HANDLE)
      else let d = devices h ! nat (port - 1) in
        if d \<noteq> WDF_NO_HANDLE then (set_device h d (\<lambda>x. x\<lparr>dev_refs := dev_refs x + 1\<rparr>), d)
        else (h, WDF_NO_HANDLE))"

definition release_ref :: "vhci_hub \<Rightarrow> wdf_handle \<Rightarrow> vhci_hub" where
  "release_ref h d =
     (if d \<noteq> WDF_NO_HANDLE then set_device h d (\<lambda>x. x\<lparr>dev_refs := dev_refs x - 1\<rparr>) else h)"

section \<open>Number of ports: bounds\<close>

lemma limit_ports_pair:
  "limit_ports 0 [a, b] =
     [min MAX_PORTS (max MIN_PORTS a),
      min (min MAX_PORTS (max MIN_PORTS b)) (MAX_TOTAL_PORTS - min MAX_PORTS (max MIN_PORTS a))]"
  by (simp add: port_limits Let_def min_def max_def)

lemma set_usb_ports_cnt_pair:
  "\<exists>a b. set_usb_ports_cnt reg =
     (min (min MAX_PORTS (max MIN_PORTS b)) (MAX_TOTAL_PORTS - min MAX_PORTS (max MIN_PORTS a)),
      min MAX_PORTS (max MIN_PORTS a)) \<and> [a, b] = query_usb_ports_cnt reg DEF_PORTS"
proof -
  obtain a b where "query_usb_ports_cnt reg DEF_PORTS = [a, b]"
    by (cases reg) (auto simp: query_usb_ports_cnt_def split: prod.splits)
  then show ?thesis by (simp add: set_usb_ports_cnt_def limit_ports_pair del: limit_ports.simps)
qed

lemma port_counts:
  assumes "set_usb_ports_cnt reg = (usb2, usb3)"
  shows "1 \<le> usb2 \<and> usb2 \<le> 254 \<and> 1 \<le> usb3 \<and> usb3 \<le> 254 \<and> usb2 + usb3 \<le> 255"
proof -
  obtain a b :: int where "usb3 = min 254 (max 1 a)"
    "usb2 = min (min 254 (max 1 b)) (255 - min 254 (max 1 a))"
    using assms set_usb_ports_cnt_pair [of reg] by (auto simp: port_limits)
  then show ?thesis by linarith
qed

section \<open>The table as a partial map\<close>

definition roothub :: "vhci_hub \<Rightarrow> int \<rightharpoonup> wdf_handle" where
  "roothub h port =
     (if is_valid_port h port \<and> devices h ! nat (port - 1) \<noteq> WDF_NO_HANDLE
      then Some (devices h ! nat (port - 1)) else None)"

definition port_of :: "vhci_hub \<Rightarrow> wdf_handle \<Rightarrow> int" where
  "port_of h d = dev_port (device_of h d)"

text \<open>The table and the devices agree: a device is in the port it says it is in, and that port
  belongs to its speed.\<close>

definition hub_wf :: "vhci_hub \<Rightarrow> bool" where
  "hub_wf h \<longleftrightarrow>
     0 < usb2_ports h \<and> usb2_ports h < devices_cnt h \<and> length (devices h) = nat (devices_cnt h) \<and>
     (\<forall>p d. d \<noteq> WDF_NO_HANDLE \<longrightarrow>
        (roothub h p = Some d) = (port_of h d = p \<and> p \<noteq> 0)) \<and>
     (\<forall>p d. roothub h p = Some d \<longrightarrow>
        (p \<le> usb2_ports h) = (dev_speed (device_of h d) < USB_SPEED_SUPER))"

lemma roothub_no_handle [simp]: "roothub h p \<noteq> Some WDF_NO_HANDLE"
  by (simp add: roothub_def)

lemma roothub_valid: "roothub h p = Some d \<Longrightarrow> is_valid_port h p"
  by (simp add: roothub_def split: if_splits)

lemma set_device_simps [simp]:
  "usb2_ports (set_device h d f) = usb2_ports h"
  "devices_cnt (set_device h d f) = devices_cnt h"
  "devices (set_device h d f) = devices h"
  "roothub (set_device h d f) = roothub h"
  "is_valid_port (set_device h d f) = is_valid_port h"
  "device_of (set_device h d f) e = (if e = d then f (device_of h d) else device_of h e)"
  by (auto simp: set_device_def roothub_def is_valid_port_def fun_eq_iff)

lemma roothub_upd:
  assumes "length (devices h) = nat (devices_cnt h)" "0 \<le> i" "i < devices_cnt h"
  shows "roothub (h\<lparr>devices := (devices h)[nat i := d]\<rparr>) =
    (roothub h)(i + 1 := (if d = WDF_NO_HANDLE then None else Some d))"
proof
  fix p
  show "roothub (h\<lparr>devices := (devices h)[nat i := d]\<rparr>) p =
      ((roothub h)(i + 1 := (if d = WDF_NO_HANDLE then None else Some d))) p"
  proof (cases "p = i + 1")
    case True
    then show ?thesis using assms by (simp add: roothub_def is_valid_port_def)
  next
    case False
    then have "0 < p \<longrightarrow> nat i \<noteq> nat (p - 1)" using assms by linarith
    then show ?thesis using False by (cases "0 < p") (simp_all add: roothub_def is_valid_port_def)
  qed
qed

text \<open>The abstract claim: the lowest free port among those of the device's speed.\<close>

definition port_candidates :: "vhci_hub \<Rightarrow> int \<Rightarrow> int list" where
  "port_candidates h speed =
     (if speed < USB_SPEED_SUPER then [1..usb2_ports h] else [usb2_ports h + 1..devices_cnt h])"

definition abs_claim :: "int list \<Rightarrow> wdf_handle \<Rightarrow> (int \<rightharpoonup> wdf_handle) \<Rightarrow> (int \<rightharpoonup> wdf_handle) \<times> int" where
  "abs_claim cand d m =
     (case find (\<lambda>p. m p = None) cand of None \<Rightarrow> (m, 0) | Some p \<Rightarrow> (m(p \<mapsto> d), p))"

definition abs_reclaim :: "wdf_handle \<Rightarrow> (int \<rightharpoonup> wdf_handle) \<Rightarrow> (int \<rightharpoonup> wdf_handle)" where
  "abs_reclaim d m = (\<lambda>p. if m p = Some d then None else m p)"

lemma port_candidates_range:
  "get_port_range h s = (b, e) \<Longrightarrow> port_candidates h s = [b + 1..e]"
  by (auto simp: port_candidates_def get_port_range_def split: if_splits)

lemma claim_loop_found:
  assumes "hub_wf h" "0 \<le> i" "stop \<le> devices_cnt h"
  shows "claim_loop h d i stop =
    (case find (\<lambda>p. roothub h p = None) [i + 1..stop] of
       None \<Rightarrow> (h, 0)
     | Some p \<Rightarrow>
         (set_device (h\<lparr>devices := (devices h)[nat (p - 1) := d]\<rparr>) d
            (\<lambda>x. x\<lparr>dev_refs := dev_refs x + 1, dev_port := p\<rparr>), p))"
  using assms
proof (induction h d i stop rule: claim_loop.induct)
  case (1 h d i stop)
  show ?case
  proof (cases "i < stop")
    case True
    have free: "roothub h (i + 1) = None \<longleftrightarrow> devices h ! nat i = WDF_NO_HANDLE"
      using True 1(3,4) by (simp add: roothub_def is_valid_port_def)
    have rng: "[i + 1..stop] = (i + 1) # [i + 1 + 1..stop]"
      using True by (simp add: upto_rec1)
    show ?thesis
    proof (cases "devices h ! nat i = WDF_NO_HANDLE")
      case True
      then show ?thesis using \<open>i < stop\<close>
        by (subst claim_loop.simps) (simp add: rng free)
    next
      case False
      then have "claim_loop h d i stop = claim_loop h d (i + 1) stop"
        using \<open>i < stop\<close> by (subst claim_loop.simps) simp
      moreover have "roothub h (i + 1) \<noteq> None" using free False by blast
      ultimately show ?thesis
        using 1(1) [OF True False] 1(2-4) by (simp only: rng find.simps if_False)
    qed
  next
    case False
    then show ?thesis by (subst claim_loop.simps) simp
  qed
qed

lemma find_upto_SomeD:
  "find P [a..b] = Some p \<Longrightarrow> P p \<and> a \<le> p \<and> p \<le> b"
  using find_Some_iff [of P "[a..b]" p] by (metis atLeastAtMost_iff nth_mem set_upto)

lemma hub_wfD:
  assumes "hub_wf h"
  shows "0 < usb2_ports h" "usb2_ports h < devices_cnt h"
    "length (devices h) = nat (devices_cnt h)"
    "d \<noteq> WDF_NO_HANDLE \<Longrightarrow> roothub h p = Some d \<longleftrightarrow> port_of h d = p \<and> p \<noteq> 0"
    "roothub h p = Some d \<Longrightarrow> p \<le> usb2_ports h \<longleftrightarrow> dev_speed (device_of h d) < USB_SPEED_SUPER"
  using assms by (simp_all add: hub_wf_def)

text \<open>What a change of the table at one port and one device has to satisfy to keep the table
  well formed.\<close>

lemma hub_wf_update:
  assumes h: "hub_wf h" and d: "d \<noteq> WDF_NO_HANDLE"
    and same: "usb2_ports h' = usb2_ports h" "devices_cnt h' = devices_cnt h"
      "length (devices h') = length (devices h)" "\<And>e. e \<noteq> d \<Longrightarrow> device_of h' e = device_of h e"
    and table: "\<And>e p. e \<noteq> d \<Longrightarrow> roothub h' p = Some e \<longleftrightarrow> roothub h p = Some e"
    and own: "\<And>p. roothub h' p = Some d \<longleftrightarrow> port_of h' d = p \<and> p \<noteq> 0"
    and ok: "\<And>p. roothub h' p = Some d \<Longrightarrow>
      p \<le> usb2_ports h \<longleftrightarrow> dev_speed (device_of h' d) < USB_SPEED_SUPER"
  shows "hub_wf h'"
proof -
  have "roothub h' p = Some e \<longleftrightarrow> port_of h' e = p \<and> p \<noteq> 0" if "e \<noteq> WDF_NO_HANDLE" for p e
    using own table same(4) hub_wfD(4) [OF h that] by (cases "e = d") (auto simp: port_of_def)
  moreover have "p \<le> usb2_ports h' \<longleftrightarrow> dev_speed (device_of h' e) < USB_SPEED_SUPER"
    if "roothub h' p = Some e" for p e
  proof (cases "e = d")
    case True
    then show ?thesis using ok that same(1) by simp
  next
    case False
    then have "roothub h p = Some e" using table that by simp
    then show ?thesis using hub_wfD(5) [OF h] False same(1,4) by simp
  qed
  ultimately show ?thesis using hub_wfD(1-3) [OF h] same(1-3) by (simp add: hub_wf_def)
qed

lemma port_candidates_bounds:
  assumes "hub_wf h" "p \<in> set (port_candidates h s)"
  shows "1 \<le> p" "p \<le> devices_cnt h" "p \<le> usb2_ports h \<longleftrightarrow> s < USB_SPEED_SUPER"
  using assms hub_wfD(1,2) [OF assms(1)] by (auto simp: port_candidates_def split: if_splits)

lemma find_SomeD: "find P xs = Some x \<Longrightarrow> P x \<and> x \<in> set xs"
  by (metis find_Some_iff nth_mem)

lemma claim_cases:
  assumes "hub_wf h" "claim_roothub_port h d = (h', p)"
  obtains (full) "h' = h" "p = 0"
      "find (\<lambda>p. roothub h p = None) (port_candidates h (dev_speed (device_of h d))) = None"
    | (claimed) "find (\<lambda>p. roothub h p = None) (port_candidates h (dev_speed (device_of h d))) = Some p"
      "h' = set_device (h\<lparr>devices := (devices h)[nat (p - 1) := d]\<rparr>) d
              (\<lambda>x. x\<lparr>dev_refs := dev_refs x + 1, dev_port := p\<rparr>)"
proof -
  obtain b e where r: "get_port_range h (dev_speed (device_of h d)) = (b, e)" by force
  then have "0 \<le> b" "e \<le> devices_cnt h"
    using hub_wfD(1,2) [OF assms(1)] by (auto simp: get_port_range_def split: if_splits)
  with assms r claim_loop_found [of h b e d] port_candidates_range [OF r] that show thesis
    by (auto simp: claim_roothub_port_def split: option.splits)
qed

lemma claim_refines:
  assumes h: "hub_wf h" and d: "d \<noteq> WDF_NO_HANDLE" "port_of h d = 0"
    and c: "claim_roothub_port h d = (h', p)"
  shows "hub_wf h' \<and>
    (roothub h', p) = abs_claim (port_candidates h (dev_speed (device_of h d))) d (roothub h) \<and>
    port_of h' = (port_of h)(d := p) \<and>
    (\<forall>e. dev_speed (device_of h' e) = dev_speed (device_of h e)) \<and>
    port_candidates h' = port_candidates h"
  using h c
proof (cases rule: claim_cases)
  case full
  then show ?thesis using h d by (simp add: abs_claim_def fun_eq_iff)
next
  case claimed
  note p = find_SomeD [OF claimed(1)]
  note pb = port_candidates_bounds [OF h conjunct2 [OF p]]
  have hub: "roothub h' = (roothub h)(p \<mapsto> d)"
    using roothub_upd [OF hub_wfD(3) [OF h], of "p - 1" d] pb d by (simp add: claimed(2))
  have notin: "roothub h q \<noteq> Some d" for q using hub_wfD(4) [OF h d(1), of q] d(2) by simp
  have "hub_wf h'"
    by (rule hub_wf_update [OF h d(1)])
      (use hub notin p pb in \<open>auto simp: claimed(2) port_of_def split: if_splits\<close>)
  then show ?thesis
    using hub claimed(1) unfolding claimed(2)
    by (auto simp: abs_claim_def port_of_def port_candidates_def fun_eq_iff)
qed

lemma reclaim_refines:
  assumes h: "hub_wf h" and d: "d \<noteq> WDF_NO_HANDLE"
    and c: "reclaim_roothub_port h d = (h', p)"
  shows "hub_wf h' \<and> p = port_of h d \<and> roothub h' = abs_reclaim d (roothub h) \<and>
    port_of h' = (port_of h)(d := 0) \<and> (\<forall>e. dev_speed (device_of h' e) = dev_speed (device_of h e)) \<and>
    port_candidates h' = port_candidates h"
proof (cases "port_of h d = 0")
  case True
  then have "h' = h" "p = 0" using c by (simp_all add: reclaim_roothub_port_def port_of_def)
  moreover have "roothub h q \<noteq> Some d" for q using hub_wfD(4) [OF h d, of q] True by simp
  ultimately show ?thesis using h True by (auto simp: abs_reclaim_def fun_eq_iff)
next
  case False
  then have p: "p = port_of h d" and h': "h' = set_device
      (h\<lparr>devices := (devices h)[nat (p - 1) := WDF_NO_HANDLE]\<rparr>) d
      (\<lambda>x. x\<lparr>dev_port := 0, dev_refs := dev_refs x - 1\<rparr>)"
    using c by (auto simp: reclaim_roothub_port_def port_of_def Let_def)
  have at: "roothub h q = Some d \<longleftrightarrow> q = p" for q
    using hub_wfD(4) [OF h d, of q] False p by auto
  then have pb: "1 \<le> p" "p \<le> devices_cnt h"
    using roothub_valid [of h p d] by (simp_all add: is_valid_port_def)
  have hub: "roothub h' = (roothub h)(p := None)"
    using roothub_upd [OF hub_wfD(3) [OF h], of "p - 1" WDF_NO_HANDLE] pb by (simp add: h')
  have here: "roothub h p = Some d" and nowhere: "q \<noteq> p \<Longrightarrow> roothub h q \<noteq> Some d" for q
    using at by simp_all
  have "hub_wf h'"
    by (rule hub_wf_update [OF h d])
      (use hub here nowhere pb in \<open>auto simp: h' port_of_def split: if_splits\<close>)
  then show ?thesis using p hub at
    by (auto simp: h' port_of_def fun_eq_iff abs_reclaim_def port_candidates_def)
qed

section \<open>The interface of the table\<close>

text \<open>What the rest of the driver relies on: a device is found in the port it was given, a claimed
  port was free, and a release frees the port it names.\<close>

locale port_table =
  fixes inv :: "'s \<Rightarrow> bool"
    and lookup :: "'s \<Rightarrow> int \<rightharpoonup> wdf_handle"
    and port :: "'s \<Rightarrow> wdf_handle \<Rightarrow> int"
    and claim :: "'s \<Rightarrow> wdf_handle \<Rightarrow> 's \<times> int"
    and reclaim :: "'s \<Rightarrow> wdf_handle \<Rightarrow> 's \<times> int"
  assumes lookup_handle: "lookup s p \<noteq> Some WDF_NO_HANDLE"
    and lookup_iff: "inv s \<Longrightarrow> d \<noteq> WDF_NO_HANDLE \<Longrightarrow> lookup s p = Some d \<longleftrightarrow> port s d = p \<and> p \<noteq> 0"
    and claim_law: "inv s \<Longrightarrow> d \<noteq> WDF_NO_HANDLE \<Longrightarrow> port s d = 0 \<Longrightarrow> claim s d = (s', p) \<Longrightarrow>
      inv s' \<and> port s' = (port s)(d := p) \<and> (p \<noteq> 0 \<longrightarrow> lookup s p = None)"
    and reclaim_law: "inv s \<Longrightarrow> d \<noteq> WDF_NO_HANDLE \<Longrightarrow> reclaim s d = (s', p) \<Longrightarrow>
      inv s' \<and> p = port s d \<and> port s' = (port s)(d := 0)"
begin

lemma lookup_eqI:
  assumes "\<And>p d. d \<noteq> WDF_NO_HANDLE \<Longrightarrow> lookup s p = Some d \<longleftrightarrow> m p = Some d"
    "\<And>p. m p \<noteq> Some WDF_NO_HANDLE"
  shows "lookup s = m"
proof
  fix p
  show "lookup s p = m p"
    using assms lookup_handle [of s p]
    by (cases "lookup s p"; cases "m p") (metis option.distinct(1) option.inject)+
qed

lemma one_port: "inv s \<Longrightarrow> lookup s p = Some d \<Longrightarrow> lookup s q = Some d \<Longrightarrow> p = q"
  using lookup_iff lookup_handle by metis

lemma claim_lookup:
  assumes "inv s" "d \<noteq> WDF_NO_HANDLE" "port s d = 0" "claim s d = (s', p)"
  shows "lookup s' = (if p = 0 then lookup s else (lookup s)(p \<mapsto> d))"
proof (rule lookup_eqI)
  note c = claim_law [OF assms]
  show "lookup s' q = Some e \<longleftrightarrow>
      (if p = 0 then lookup s else (lookup s)(p \<mapsto> d)) q = Some e" if "e \<noteq> WDF_NO_HANDLE" for q e
    using c lookup_iff [of s' e q] lookup_iff [of s e q] lookup_iff [of s e p] assms that
    by (cases "e = d") auto
  show "(if p = 0 then lookup s else (lookup s)(p \<mapsto> d)) q \<noteq> Some WDF_NO_HANDLE" for q
    using lookup_handle [of s q] assms(2) by auto
qed

lemma reclaim_lookup:
  assumes "inv s" "d \<noteq> WDF_NO_HANDLE" "reclaim s d = (s', p)"
  shows "lookup s' = (lookup s)(p := None)"
proof (rule lookup_eqI)
  note c = reclaim_law [OF assms]
  show "lookup s' q = Some e \<longleftrightarrow> ((lookup s)(p := None)) q = Some e" if "e \<noteq> WDF_NO_HANDLE" for q e
    using c lookup_iff [of s' e q] lookup_iff [of s e q] lookup_iff [of s d p] assms(1,2) that
    by (cases "e = d") (auto split: if_splits)
  show "((lookup s)(p := None)) q \<noteq> Some WDF_NO_HANDLE" for q
    using lookup_handle [of s q] by auto
qed

text \<open>A device that is plugged in and out again leaves the table as it was.\<close>

lemma claim_then_reclaim:
  assumes "inv s" "d \<noteq> WDF_NO_HANDLE" "port s d = 0" "claim s d = (s1, p)" "reclaim s1 d = (s2, q)"
  shows "lookup s2 = lookup s \<and> q = p"
proof -
  note c = claim_law [OF assms(1-4)]
  then have q: "q = p" and "lookup s2 = (lookup s1)(q := None)"
    using reclaim_law [OF _ assms(2,5)] reclaim_lookup [OF _ assms(2,5)] by auto
  moreover have "lookup s 0 = None"
    using lookup_iff [OF assms(1)] lookup_handle [of s 0] by (cases "lookup s 0") auto
  ultimately show ?thesis using c claim_lookup [OF assms(1-4)] by (auto simp: fun_eq_iff)
qed

text \<open>Releasing the devices found in a list of ports, as the loop over all ports does.\<close>

fun release_ports :: "'s \<Rightarrow> int list \<Rightarrow> 's" where
  "release_ports s [] = s"
| "release_ports s (p # ps) =
     (case lookup s p of
        None \<Rightarrow> release_ports s ps
      | Some d \<Rightarrow> release_ports (fst (reclaim s d)) ps)"

lemma release_ports_lookup:
  "inv s \<Longrightarrow> inv (release_ports s ps) \<and>
     lookup (release_ports s ps) = (\<lambda>p. if p \<in> set ps then None else lookup s p)"
proof (induction ps arbitrary: s)
  case Nil
  then show ?case by simp
next
  case (Cons p ps)
  show ?case
  proof (cases "lookup s p")
    case None
    then show ?thesis using Cons by (auto simp: fun_eq_iff)
  next
    case (Some d)
    then have d: "d \<noteq> WDF_NO_HANDLE" using lookup_handle [of s p] by auto
    obtain s1 q where r: "reclaim s d = (s1, q)" by force
    have "q = p" using reclaim_law [OF Cons.prems d r] lookup_iff [OF Cons.prems d] Some by simp
    with Cons.IH [of s1] reclaim_law [OF Cons.prems d r] reclaim_lookup [OF Cons.prems d r] Some r
    show ?thesis by (auto simp: fun_eq_iff)
  qed
qed

end

interpretation hub: port_table hub_wf roothub port_of claim_roothub_port reclaim_roothub_port
proof
  show "roothub s p \<noteq> Some WDF_NO_HANDLE" for s p by simp
  show "roothub s p = Some d \<longleftrightarrow> port_of s d = p \<and> p \<noteq> 0" if "hub_wf s" "d \<noteq> WDF_NO_HANDLE" for s d p
    using hub_wfD(4) [OF that] .
  show "hub_wf s' \<and> port_of s' = (port_of s)(d := p) \<and> (p \<noteq> 0 \<longrightarrow> roothub s p = None)"
    if "hub_wf s" "d \<noteq> WDF_NO_HANDLE" "port_of s d = 0" "claim_roothub_port s d = (s', p)" for s d s' p
    using claim_refines [OF that]
    by (auto simp: abs_claim_def split: option.splits dest: find_SomeD)
  show "hub_wf s' \<and> p = port_of s d \<and> port_of s' = (port_of s)(d := 0)"
    if "hub_wf s" "d \<noteq> WDF_NO_HANDLE" "reclaim_roothub_port s d = (s', p)" for s d s' p
    using reclaim_refines [OF that] by blast
qed

section \<open>Runs of the root hub\<close>

text \<open>Any interleaving of the operations, with the references their callers hold counted in
  \<open>held\<close>: claims of a device that is in no port (\<open>NT_ASSERT(!dev.port)\<close>), releases, lookups, and
  the ends of lookups.\<close>

datatype hub_event =
    Claimed wdf_handle int
  | Reclaimed wdf_handle int
  | Got int wdf_handle
  | Dropped wdf_handle

type_synonym hub_state = "vhci_hub \<times> (wdf_handle \<Rightarrow> nat)"

inductive hub_step :: "hub_state \<Rightarrow> hub_event \<Rightarrow> hub_state \<Rightarrow> bool" where
  hub_claim: "d \<noteq> WDF_NO_HANDLE \<Longrightarrow> port_of h d = 0 \<Longrightarrow> claim_roothub_port h d = (h', p) \<Longrightarrow>
    hub_step (h, held) (Claimed d p) (h', held)"
| hub_reclaim: "d \<noteq> WDF_NO_HANDLE \<Longrightarrow> reclaim_roothub_port h d = (h', p) \<Longrightarrow>
    hub_step (h, held) (Reclaimed d p) (h', held)"
| hub_get: "get_device h p = (h', d) \<Longrightarrow>
    hub_step (h, held) (Got p d)
      (h', if d = WDF_NO_HANDLE then held else held(d := held d + 1))"
| hub_drop: "d \<noteq> WDF_NO_HANDLE \<Longrightarrow> 0 < held d \<Longrightarrow>
    hub_step (h, held) (Dropped d) (release_ref h d, held(d := held d - 1))"

text \<open>The specification: a partial map, the lowest free port of the right kind for a claim.\<close>

inductive port_spec ::
    "(wdf_handle \<Rightarrow> int list) \<Rightarrow> (int \<rightharpoonup> wdf_handle) \<Rightarrow> hub_event \<Rightarrow> (int \<rightharpoonup> wdf_handle) \<Rightarrow> bool"
  for cand where
  spec_claim: "d \<notin> ran m \<Longrightarrow> (m', p) = abs_claim (cand d) d m \<Longrightarrow> port_spec cand m (Claimed d p) m'"
| spec_reclaim: "(if p = 0 then d \<notin> ran m else m p = Some d) \<Longrightarrow>
    port_spec cand m (Reclaimed d p) (abs_reclaim d m)"
| spec_get: "m p = (if d = WDF_NO_HANDLE then None else Some d) \<Longrightarrow> port_spec cand m (Got p d) m"
| spec_drop: "port_spec cand m (Dropped d) m"

definition hub_refs :: "vhci_hub \<Rightarrow> (wdf_handle \<Rightarrow> nat) \<Rightarrow> bool" where
  "hub_refs h held \<longleftrightarrow> (\<forall>d. d \<noteq> WDF_NO_HANDLE \<longrightarrow>
     dev_refs (device_of h d) = held d + (if port_of h d \<noteq> 0 then 1 else 0))"

definition candidates :: "vhci_hub \<Rightarrow> wdf_handle \<Rightarrow> int list" where
  "candidates h d = port_candidates h (dev_speed (device_of h d))"

lemma ran_roothub: "hub_wf h \<Longrightarrow> d \<noteq> WDF_NO_HANDLE \<Longrightarrow> d \<in> ran (roothub h) \<longleftrightarrow> port_of h d \<noteq> 0"
  using hub_wfD(4) [of h d] by (auto simp: ran_def)

text \<open>A change of the reference count alone.\<close>

lemma set_refs_hub:
  assumes "hub_wf h"
  shows "hub_wf (set_device h d (\<lambda>x. x\<lparr>dev_refs := n\<rparr>))"
    "port_of (set_device h d (\<lambda>x. x\<lparr>dev_refs := n\<rparr>)) = port_of h"
    "candidates (set_device h d (\<lambda>x. x\<lparr>dev_refs := n\<rparr>)) = candidates h"
proof -
  show port: "port_of (set_device h d (\<lambda>x. x\<lparr>dev_refs := n\<rparr>)) = port_of h"
    by (simp add: port_of_def fun_eq_iff)
  show "candidates (set_device h d (\<lambda>x. x\<lparr>dev_refs := n\<rparr>)) = candidates h"
    by (simp add: candidates_def port_candidates_def fun_eq_iff)
  show "hub_wf (set_device h d (\<lambda>x. x\<lparr>dev_refs := n\<rparr>))"
    using assms port by (auto simp: hub_wf_def)
qed

lemma get_device_cases:
  assumes "get_device h p = (h', d)"
  obtains "d = WDF_NO_HANDLE" "h' = h" "roothub h p = None"
  | "d \<noteq> WDF_NO_HANDLE" "h' = set_device h d (\<lambda>x. x\<lparr>dev_refs := dev_refs (device_of h d) + 1\<rparr>)"
    "roothub h p = Some d"
  using assms
  by (auto simp: get_device_def roothub_def Let_def set_device_def split: if_splits)

lemma hub_step_refines:
  assumes "hub_wf h" "hub_refs h held" "hub_step (h, held) e (h', held')"
  shows "port_spec (candidates h) (roothub h) e (roothub h') \<and> hub_wf h' \<and> hub_refs h' held' \<and>
    candidates h' = candidates h"
  using assms(3)
proof (cases rule: hub_step.cases)
  case (hub_claim d p)
  note c = claim_refines [OF assms(1) hub_claim(3-5)]
  have "dev_refs (device_of h' x) = dev_refs (device_of h x) + (if x = d \<and> p \<noteq> 0 then 1 else 0)" for x
    using assms(1) hub_claim(5)
  proof (cases rule: claim_cases)
    case claimed
    then show ?thesis
      using port_candidates_bounds(1) [OF assms(1)] find_SomeD [OF claimed(1)] by force
  qed simp
  moreover have "d \<notin> ran (roothub h)" using ran_roothub [OF assms(1) hub_claim(3)] hub_claim(4) by simp
  then have "port_spec (candidates h) (roothub h) e (roothub h')"
    using c hub_claim(1) by (simp add: spec_claim candidates_def)
  moreover have "candidates h' = candidates h" using c by (simp add: candidates_def fun_eq_iff)
  ultimately show ?thesis using c assms(2) hub_claim(2,4) by (auto simp: hub_refs_def)
next
  case (hub_reclaim d p)
  note c = reclaim_refines [OF assms(1) hub_reclaim(3,4)]
  have "dev_refs (device_of h' x) = dev_refs (device_of h x) - (if x = d \<and> p \<noteq> 0 then 1 else 0)" for x
    using hub_reclaim(4) by (auto simp: reclaim_roothub_port_def Let_def split: if_splits)
  moreover have "if p = 0 then d \<notin> ran (roothub h) else roothub h p = Some d"
    using c ran_roothub [OF assms(1) hub_reclaim(3)] hub_wfD(4) [OF assms(1) hub_reclaim(3)] by simp
  then have "port_spec (candidates h) (roothub h) e (roothub h')"
    using spec_reclaim [of p d "roothub h" "candidates h"] c hub_reclaim(1) by simp
  moreover have "candidates h' = candidates h" using c by (simp add: candidates_def fun_eq_iff)
  ultimately show ?thesis using c assms(2) hub_reclaim(2) by (auto simp: hub_refs_def)
next
  case (hub_get p d)
  from hub_get(3) show ?thesis
    by (cases rule: get_device_cases)
      (use assms hub_get set_refs_hub [OF assms(1)] in \<open>auto simp: hub_refs_def intro: spec_get\<close>)
next
  case (hub_drop d)
  have "release_ref h d = set_device h d (\<lambda>x. x\<lparr>dev_refs := dev_refs (device_of h d) - 1\<rparr>)"
    using hub_drop(4) by (simp add: release_ref_def set_device_def)
  then show ?thesis
    using assms hub_drop set_refs_hub [OF assms(1)] by (auto simp: hub_refs_def intro: spec_drop)
qed

lemma alloc_devices_wf:
  assumes "alloc_devices pool reg h0 = (STATUS_SUCCESS, h)" "\<And>d. port_of h0 d = 0"
  shows "hub_wf h" "roothub h = Map.empty" "device_of h = device_of h0"
proof -
  obtain usb2 usb3 where p: "set_usb_ports_cnt reg = (usb2, usb3)" by force
  then have h: "h = h0\<lparr>usb2_ports := usb2, devices_cnt := usb2 + usb3,
      devices := replicate (nat (usb2 + usb3)) WDF_NO_HANDLE\<rparr>"
    using assms(1) by (auto simp: alloc_devices_def Let_def split: if_splits)
  then show "device_of h = device_of h0" by simp
  show empty: "roothub h = Map.empty"
    using port_counts [OF p] by (auto simp: h roothub_def is_valid_port_def)
  show "hub_wf h"
    using port_counts [OF p] assms(2) empty by (auto simp: hub_wf_def h port_of_def)
qed

lemma hub_trace_refines:
  assumes "hub_wf h" "hub_refs h held" "trace hub_step (h, held) es (h', held')"
  shows "trace (port_spec (candidates h)) (roothub h) es (roothub h') \<and> hub_wf h' \<and> hub_refs h' held'"
proof -
  let ?R = "\<lambda>(s :: hub_state) m. hub_wf (fst s) \<and> hub_refs (fst s) (snd s) \<and>
    m = roothub (fst s) \<and> candidates (fst s) = candidates h"
  have "\<exists>m'. trace (port_spec (candidates h)) (roothub h) es m' \<and> ?R (h', held') m'"
  proof (rule trace_simulation [OF assms(3), where R = ?R])
    show "?R (h, held) (roothub h)" using assms by simp
    show "\<exists>m'. port_spec (candidates h) m e m' \<and> ?R s' m'" if "?R s m" "hub_step s e s'" for s m e s'
      using hub_step_refines [of "fst s" "snd s" e "fst s'" "snd s'"] that by auto
  qed
  then show ?thesis by auto
qed

text \<open>C7. The root hub implements a partial map from port numbers to devices. Start with the table
  that \<open>alloc_devices\<close> makes and devices that are in no port, and run any interleaving of
  \<open>claim_roothub_port\<close>, \<open>reclaim_roothub_port\<close>, \<open>get_device\<close> and releases of its references: every
  result is the one of the map, where a claim takes the lowest free port of the device's speed
  (0 if there is none), a release frees exactly that device's port, and a lookup returns the
  device of the port or nothing. The table and \<open>device_ctx.port\<close> agree afterwards and each device's
  references are those its holders have plus one if it is in the table.\<close>

theorem roothub_refines_map:
  assumes "alloc_devices pool reg h0 = (STATUS_SUCCESS, h)"
    and "\<forall>d. dev_port (device_of h0 d) = 0 \<and> dev_refs (device_of h0 d) = held d"
    and "trace hub_step (h, held) es (h', held')"
  shows "trace (port_spec (candidates h)) Map.empty es (roothub h') \<and> hub_wf h' \<and> hub_refs h' held'"
proof -
  have z: "port_of h0 d = 0" for d using assms(2) by (simp add: port_of_def)
  note w = alloc_devices_wf [OF assms(1) z]
  then have "hub_refs h held" using assms(2) by (simp add: hub_refs_def port_of_def)
  with hub_trace_refines [OF w(1) _ assms(3)] w(2) show ?thesis by simp
qed

theorem roothub_refines_map_witness:
  "\<exists>h h'. alloc_devices True (Some (Some 1, Some 1))
       \<lparr>usb2_ports = 0, devices_cnt = 0, devices = [],
        device_of = \<lambda>_. \<lparr>dev_speed = 3, dev_location_hash = 1, dev_port = 0, dev_refs = 1\<rparr>\<rparr> =
       (STATUS_SUCCESS, h) \<and>
     trace hub_step (h, \<lambda>_. 1) [Claimed 7 1] (h', \<lambda>_. 1) \<and>
     trace (port_spec (candidates h)) Map.empty [Claimed 7 1] (roothub h') \<and> hub_wf h'"
proof -
  define h0 where "h0 = \<lparr>usb2_ports = 0, devices_cnt = 0, devices = [], device_of =
    \<lambda>_ :: wdf_handle. \<lparr>dev_speed = 3, dev_location_hash = 1 :: u32, dev_port = 0, dev_refs = 1\<rparr>\<rparr>"
  define h where
    "h = h0\<lparr>usb2_ports := 1, devices_cnt := 2, devices := [WDF_NO_HANDLE, WDF_NO_HANDLE]\<rparr>"
  have "set_usb_ports_cnt (Some (Some 1, Some 1)) = (1, 1)"
    by (simp add: set_usb_ports_cnt_def query_usb_ports_cnt_def port_limits)
  then have a: "alloc_devices True (Some (Some 1, Some 1)) h0 = (STATUS_SUCCESS, h)"
    by (simp add: h_def alloc_devices_def numeral_2_eq_2)
  have "claim_roothub_port h 7 = claim_loop h 7 0 1"
    by (simp add: h_def h0_def claim_roothub_port_def get_port_range_def USB_SPEED_SUPER_def)
  moreover have "devices h ! 0 = WDF_NO_HANDLE" by (simp add: h_def)
  ultimately obtain h' where c: "claim_roothub_port h 7 = (h', 1)"
    using claim_loop.simps [of h 7 0 1] by simp
  have "hub_step (h, \<lambda>_. 1) (Claimed 7 1) (h', \<lambda>_. 1)"
    by (rule hub_claim [OF _ _ c]) (simp_all add: h_def h0_def port_of_def WDF_NO_HANDLE_def)
  from trace_Cons [OF trace_Nil, of hub_step, OF this]
  have t: "trace hub_step (h, \<lambda>_. 1) [Claimed 7 1] (h', \<lambda>_. 1)" .
  have "\<forall>d. dev_port (device_of h0 d) = 0 \<and> dev_refs (device_of h0 d) = 1" by (simp add: h0_def)
  from roothub_refines_map [OF a this t] a t show ?thesis unfolding h0_def by iprover
qed

text \<open>Whatever the registry holds, the controller has between 1 and 254 ports of each kind and
  at most 255 in total; two requested numbers are taken as they are exactly if they satisfy these
  limits.\<close>

lemma usb_ports_bounds:
  "(case set_usb_ports_cnt reg of (usb2, usb3) \<Rightarrow>
      1 \<le> usb2 \<and> usb2 \<le> 254 \<and> 1 \<le> usb3 \<and> usb3 \<le> 254 \<and> usb2 + usb3 \<le> 255) \<and>
   (set_usb_ports_cnt (Some (Some a, Some b)) = (sint a, sint b) \<longleftrightarrow>
      1 \<le> sint a \<and> sint a \<le> 254 \<and> 1 \<le> sint b \<and> sint b \<le> 254 \<and> sint a + sint b \<le> 255)"
proof
  show "case set_usb_ports_cnt reg of (usb2, usb3) \<Rightarrow>
      1 \<le> usb2 \<and> usb2 \<le> 254 \<and> 1 \<le> usb3 \<and> usb3 \<le> 254 \<and> usb2 + usb3 \<le> 255"
    using port_counts [of reg] by (cases "set_usb_ports_cnt reg") simp
  have eq: "set_usb_ports_cnt (Some (Some a, Some b)) =
      (min (min 254 (max 1 (sint a))) (255 - min 254 (max 1 (sint b))), min 254 (max 1 (sint b)))"
    using set_usb_ports_cnt_pair [of "Some (Some a, Some b)"]
    by (auto simp: query_usb_ports_cnt_def port_limits)
  show "set_usb_ports_cnt (Some (Some a, Some b)) = (sint a, sint b) \<longleftrightarrow>
      1 \<le> sint a \<and> sint a \<le> 254 \<and> 1 \<le> sint b \<and> sint b \<le> 254 \<and> sint a + sint b \<le> 255"
    unfolding eq prod.inject by (simp add: min_def max_def)
qed

end
