(* ===== verification/Vhci_Events.thy ===== *)
theory Vhci_Events
  imports Vhci_Ports "HOL-Library.Sublist"
begin

text \<open>
  Notifications about devices (\<open>vhci.cpp\<close>, \<open>device_read\<close> of \<open>vhci_ioctl.cpp\<close>): a program opens the
  controller, reads \<open>device_state\<close> records from it, and gets one record for each change of a
  device. A file object subscribes with its first read. Events that come while no read of the
  file object waits are kept in its collection, at most four for each port; a read that comes while
  the collection is empty waits in the queue \<open>reads\<close>.

  Every operation runs under \<open>events_lock\<close>, so it is one step. What the framework may answer is an
  argument: the status of \<open>WdfIoQueueRetrieveRequestByFileObject\<close> when it is neither success nor
  "no more entries", that of \<open>WdfCollectionAdd\<close>, and, in each read request, that of
  \<open>WdfRequestRetrieveOutputBuffer\<close>.
\<close>

section \<open>State\<close>

datatype vhci_state = unplugged | connecting | connected | plugged | disconnected | unplugging

record imported_device_properties =
  pr_devid :: u32
  pr_speed :: int
  pr_vendor :: u16
  pr_product :: u16
  pr_serial :: bytes
  pr_iserial :: u8

record device_state =
  ds_size :: nat
  ds_port :: int
  ds_host :: bytes
  ds_service :: bytes
  ds_busid :: bytes
  ds_properties :: imported_device_properties
  ds_state :: vhci_state
  ds_source_id :: u32

text \<open>\<open>sizeof(vhci::device_state)\<close>: 4 bytes of \<open>base\<close>, 1096 of the location, 32 of the properties,
  the state and the source.\<close>

definition DEVICE_STATE_SIZE :: nat where
  "DEVICE_STATE_SIZE = 4 + 1096 + 32 + 4 + 4"

record fileobject_ctx =
  fo_events :: "device_state list"
  fo_process_events :: bool

record read_request =
  rd_id :: nat
  rd_file :: wdf_handle
  rd_buffer :: ntstatus

text \<open>\<open>completed\<close> records the completions of read requests, oldest first: the request, its status,
  the number of bytes and the record that was copied.\<close>

record read_completion =
  cp_request :: read_request
  cp_status :: ntstatus
  cp_information :: nat
  cp_event :: "device_state option"

record events_ctx =
  fileobjects :: "wdf_handle list"
  fobj :: "wdf_handle \<Rightarrow> fileobject_ctx"
  reads :: "read_request list"
  reads_accept :: bool
  events_subscribers :: int
  ev_devices_cnt :: int
  completed :: "read_completion list"

section \<open>Operations\<close>

definition complete_request_info ::
    "read_request \<Rightarrow> ntstatus \<Rightarrow> nat \<Rightarrow> device_state option \<Rightarrow> events_ctx \<Rightarrow> events_ctx" where
  "complete_request_info rq st n evt s =
     s\<lparr>completed := completed s @ [\<lparr>cp_request = rq, cp_status = st, cp_information = n, cp_event = evt\<rparr>]\<rparr>"

definition complete_read :: "read_request \<Rightarrow> device_state \<Rightarrow> events_ctx \<Rightarrow> events_ctx" where
  "complete_read rq evt s =
     (if NT_SUCCESS (rd_buffer rq) then complete_request_info rq (rd_buffer rq) DEVICE_STATE_SIZE (Some evt) s
      else complete_request_info rq (rd_buffer rq) 0 None s)"

definition set_fobj :: "wdf_handle \<Rightarrow> (fileobject_ctx \<Rightarrow> fileobject_ctx) \<Rightarrow> events_ctx \<Rightarrow> events_ctx" where
  "set_fobj f g s = s\<lparr>fobj := (fobj s)(f := g (fobj s f))\<rparr>"

definition device_file_create :: "ntstatus \<Rightarrow> wdf_handle \<Rightarrow> events_ctx \<Rightarrow> ntstatus \<times> events_ctx" where
  "device_file_create collection f s =
     (if NT_ERROR collection then (collection, s)
      else (collection,
        set_fobj f (\<lambda>_. \<lparr>fo_events = [], fo_process_events = False\<rparr>)
          (s\<lparr>fileobjects := fileobjects s @ [f]\<rparr>)))"

definition file_cleanup :: "wdf_handle \<Rightarrow> events_ctx \<Rightarrow> events_ctx" where
  "file_cleanup f s =
     (let s = s\<lparr>fileobjects := remove1 f (fileobjects s)\<rparr> in
      if fo_process_events (fobj s f) then s\<lparr>events_subscribers := events_subscribers s - 1\<rparr> else s)"

text \<open>The first request of the file object in the queue, and the queue without it.\<close>

fun retrieve_by_file :: "wdf_handle \<Rightarrow> read_request list \<Rightarrow> read_request option \<times> read_request list" where
  "retrieve_by_file f [] = (None, [])"
| "retrieve_by_file f (rq # rqs) =
     (if rd_file rq = f then (Some rq, rqs)
      else case retrieve_by_file f rqs of (r, rqs) \<Rightarrow> (r, rq # rqs))"

text \<open>The framework: an error of the queue, and the status of \<open>WdfCollectionAdd\<close>, for each file
  object.\<close>

record event_env =
  queue_error :: "wdf_handle \<Rightarrow> bool"
  add_status :: "wdf_handle \<Rightarrow> ntstatus"

definition process_event_fobj ::
    "event_env \<Rightarrow> wdf_handle \<Rightarrow> device_state \<Rightarrow> nat \<Rightarrow> events_ctx \<Rightarrow> events_ctx" where
  "process_event_fobj env f evt max_events s =
     (if queue_error env f then s
      else case retrieve_by_file f (reads s) of
        (Some rq, rqs) \<Rightarrow> complete_read rq evt (s\<lparr>reads := rqs\<rparr>)
      | (None, _) \<Rightarrow>
          if add_status env f \<noteq> STATUS_SUCCESS then s
          else
            let s = set_fobj f (\<lambda>c. c\<lparr>fo_events := fo_events c @ [evt]\<rparr>) s in
            if length (fo_events (fobj s f)) > max_events
            then set_fobj f (\<lambda>c. c\<lparr>fo_events := tl (fo_events c)\<rparr>) s
            else s)"

fun process_event_loop :: "event_env \<Rightarrow> device_state \<Rightarrow> nat \<Rightarrow> wdf_handle list \<Rightarrow> events_ctx \<Rightarrow> events_ctx" where
  "process_event_loop env evt max_events [] s = s"
| "process_event_loop env evt max_events (f # fs) s =
     process_event_loop env evt max_events fs
       (if fo_process_events (fobj s f) then process_event_fobj env f evt max_events s else s)"

text \<open>\<open>4*vhci.devices_cnt\<close> is passed as \<open>ULONG\<close>; the count is at most 255.\<close>

definition process_event :: "event_env \<Rightarrow> device_state \<Rightarrow> events_ctx \<Rightarrow> events_ctx" where
  "process_event env evt s =
     process_event_loop env evt (nat (4 * ev_devices_cnt s)) (fileobjects s) s"

text \<open>The record of an event: \<open>memory\<close> tells whether \<open>WdfMemoryCreate\<close> succeeds, \<open>source_id\<close> is the
  hash of the address of the attributes, \<open>location\<close> the result of \<open>fill_location\<close>.\<close>

definition make_device_state ::
    "bool \<Rightarrow> u32 \<Rightarrow> ntstatus \<times> bytes \<times> bytes \<times> bytes \<Rightarrow> imported_device_properties \<Rightarrow> int \<Rightarrow> vhci_state \<Rightarrow>
     device_state option" where
  "make_device_state memory source_id location props port state =
     (if \<not> memory then None
      else case location of (err, host, service, busid) \<Rightarrow>
        if err \<noteq> STATUS_SUCCESS then None
        else Some \<lparr>ds_size = DEVICE_STATE_SIZE, ds_port = port, ds_host = host, ds_service = service,
          ds_busid = busid, ds_properties = props, ds_state = state, ds_source_id = source_id\<rparr>)"

text \<open>The number of subscribers is first read without the lock; \<open>subscribers\<close> is the value seen
  then.\<close>

definition device_state_changed ::
    "event_env \<Rightarrow> int \<Rightarrow> device_state option \<Rightarrow> events_ctx \<Rightarrow> events_ctx" where
  "device_state_changed env subscribers evt s =
     (if subscribers = 0 \<and> events_subscribers s = 0 then s
      else case evt of Some e \<Rightarrow> process_event env e s | None \<Rightarrow> s)"

text \<open>\<open>forward\<close> is the error of \<open>WdfRequestForwardToIoQueue\<close> on a queue that accepts requests; a purged
  queue answers \<open>STATUS_WDF_BUSY\<close>.\<close>

definition device_read :: "ntstatus \<Rightarrow> read_request \<Rightarrow> nat \<Rightarrow> events_ctx \<Rightarrow> events_ctx" where
  "device_read forward rq len s =
     (let f = rd_file rq in
      if len \<noteq> DEVICE_STATE_SIZE then complete_request_info rq STATUS_INVALID_BUFFER_SIZE 0 None s
      else
        let s = (if fo_process_events (fobj s f) then s
                 else set_fobj f (\<lambda>c. c\<lparr>fo_process_events := True\<rparr>)
                        (s\<lparr>events_subscribers := events_subscribers s + 1\<rparr>)) in
        case fo_events (fobj s f) of
          evt # _ \<Rightarrow> set_fobj f (\<lambda>c. c\<lparr>fo_events := remove1 evt (fo_events c)\<rparr>) (complete_read rq evt s)
        | [] \<Rightarrow>
            let err = (if reads_accept s then forward else STATUS_WDF_BUSY) in
            if err = STATUS_SUCCESS then s\<lparr>reads := reads s @ [rq]\<rparr>
            else complete_request_info rq (if err = STATUS_WDF_BUSY then STATUS_END_OF_FILE else err) 0 None s)"

definition canceled_on_queue :: "read_request \<Rightarrow> events_ctx \<Rightarrow> events_ctx" where
  "canceled_on_queue rq s = complete_request_info rq STATUS_CANCELLED 0 None (s\<lparr>reads := remove1 rq (reads s)\<rparr>)"

definition purge_read_queue :: "events_ctx \<Rightarrow> events_ctx" where
  "purge_read_queue s = fold canceled_on_queue (reads s) (s\<lparr>reads_accept := False\<rparr>)"

section \<open>What one file object sees\<close>

text \<open>The records that the completed reads of \<open>f\<close> returned, and its waiting reads.\<close>

definition delivered :: "wdf_handle \<Rightarrow> events_ctx \<Rightarrow> device_state list" where
  "delivered f s = List.map_filter (\<lambda>c. if rd_file (cp_request c) = f then cp_event c else None) (completed s)"

definition reads_of :: "wdf_handle \<Rightarrow> events_ctx \<Rightarrow> read_request list" where
  "reads_of f s = filter (\<lambda>rq. rd_file rq = f) (reads s)"

definition view :: "wdf_handle \<Rightarrow> events_ctx \<Rightarrow> fileobject_ctx \<times> read_request list \<times> device_state list" where
  "view f s = (fobj s f, reads_of f s, delivered f s)"

text \<open>An event as one file object sees it, and whether the event is lost for it.\<close>

fun offer :: "event_env \<Rightarrow> nat \<Rightarrow> wdf_handle \<Rightarrow> device_state \<Rightarrow>
    fileobject_ctx \<times> read_request list \<times> device_state list \<Rightarrow>
    fileobject_ctx \<times> read_request list \<times> device_state list" where
  "offer env max_events f evt (c, rqs, del) =
     (if queue_error env f then (c, rqs, del)
      else case rqs of
        rq # rqs \<Rightarrow> (c, rqs, if NT_SUCCESS (rd_buffer rq) then del @ [evt] else del)
      | [] \<Rightarrow>
          if add_status env f \<noteq> STATUS_SUCCESS then (c, [], del)
          else let evs = fo_events c @ [evt] in
            (c\<lparr>fo_events := if length evs > max_events then tl evs else evs\<rparr>, [], del))"

fun loses :: "event_env \<Rightarrow> nat \<Rightarrow> wdf_handle \<Rightarrow>
    fileobject_ctx \<times> read_request list \<times> device_state list \<Rightarrow> bool" where
  "loses env max_events f (c, rqs, del) \<longleftrightarrow>
     queue_error env f \<or>
     (case rqs of
        rq # _ \<Rightarrow> \<not> NT_SUCCESS (rd_buffer rq)
      | [] \<Rightarrow> add_status env f \<noteq> STATUS_SUCCESS \<or> max_events \<le> length (fo_events c))"

lemma delivered_complete [simp]:
  "delivered f (complete_request_info rq st n evt s) =
     delivered f s @ (if rd_file rq = f then (case evt of None \<Rightarrow> [] | Some e \<Rightarrow> [e]) else [])"
  by (auto simp: delivered_def complete_request_info_def map_filter_def split: option.splits)

lemma complete_request_info_simps [simp]:
  "fileobjects (complete_request_info rq st n evt s) = fileobjects s"
  "fobj (complete_request_info rq st n evt s) = fobj s"
  "reads (complete_request_info rq st n evt s) = reads s"
  "reads_of f (complete_request_info rq st n evt s) = reads_of f s"
  "reads_accept (complete_request_info rq st n evt s) = reads_accept s"
  "events_subscribers (complete_request_info rq st n evt s) = events_subscribers s"
  "ev_devices_cnt (complete_request_info rq st n evt s) = ev_devices_cnt s"
  by (simp_all add: complete_request_info_def reads_of_def)

lemma complete_read_simps [simp]:
  "fileobjects (complete_read rq evt s) = fileobjects s"
  "fobj (complete_read rq evt s) = fobj s"
  "reads (complete_read rq evt s) = reads s"
  "reads_of f (complete_read rq evt s) = reads_of f s"
  "events_subscribers (complete_read rq evt s) = events_subscribers s"
  "ev_devices_cnt (complete_read rq evt s) = ev_devices_cnt s"
  "delivered f (complete_read rq evt s) =
     delivered f s @ (if rd_file rq = f \<and> NT_SUCCESS (rd_buffer rq) then [evt] else [])"
  by (simp_all add: complete_read_def)

lemma set_fobj_simps [simp]:
  "fileobjects (set_fobj f g s) = fileobjects s"
  "fobj (set_fobj f g s) h = (if h = f then g (fobj s f) else fobj s h)"
  "reads (set_fobj f g s) = reads s"
  "reads_of h (set_fobj f g s) = reads_of h s"
  "delivered h (set_fobj f g s) = delivered h s"
  "reads_accept (set_fobj f g s) = reads_accept s"
  "events_subscribers (set_fobj f g s) = events_subscribers s"
  "ev_devices_cnt (set_fobj f g s) = ev_devices_cnt s"
  by (simp_all add: set_fobj_def reads_of_def delivered_def)

lemma delivered_update [simp]:
  "delivered f (s\<lparr>reads := r\<rparr>) = delivered f s"
  "delivered f (s\<lparr>fileobjects := l\<rparr>) = delivered f s"
  "delivered f (s\<lparr>events_subscribers := n\<rparr>) = delivered f s"
  "delivered f (s\<lparr>reads_accept := b\<rparr>) = delivered f s"
  "reads_of f (s\<lparr>fileobjects := l\<rparr>) = reads_of f s"
  "reads_of f (s\<lparr>events_subscribers := n\<rparr>) = reads_of f s"
  "reads_of f (s\<lparr>reads_accept := b\<rparr>) = reads_of f s"
  by (simp_all add: delivered_def reads_of_def)

text \<open>Retrieving the first read of one file object leaves the reads of the others.\<close>

lemma retrieve_by_file_eq:
  "fst (retrieve_by_file f rqs) = (case filter (\<lambda>rq. rd_file rq = f) rqs of [] \<Rightarrow> None | rq # _ \<Rightarrow> Some rq)"
  "filter (\<lambda>rq. rd_file rq = g) (snd (retrieve_by_file f rqs)) =
     (if g = f then tl (filter (\<lambda>rq. rd_file rq = f) rqs) else filter (\<lambda>rq. rd_file rq = g) rqs)"
  by (induction rqs) (auto split: prod.splits)

lemma retrieve_by_file_None: "fst (retrieve_by_file f rqs) = None \<Longrightarrow> snd (retrieve_by_file f rqs) = rqs"
  by (induction rqs) (auto split: prod.splits if_splits)

lemma process_event_fobj_view:
  "view g (process_event_fobj env f evt m s) = (if g = f then offer env m f evt (view f s) else view g s)"
proof (cases "retrieve_by_file f (reads s)")
  case (Pair r rqs)
  have fst: "r = (case reads_of f s of [] \<Rightarrow> None | rq # _ \<Rightarrow> Some rq)"
    and snd: "filter (\<lambda>rq. rd_file rq = h) rqs = (if h = f then tl (reads_of f s) else reads_of h s)" for h
    using retrieve_by_file_eq [where f = f and rqs = "reads s"] Pair by (simp_all add: reads_of_def)
  have own: "rd_file rq = f" if "r = Some rq" for rq
  proof -
    have "rq \<in> set (reads_of f s)" using that fst by (auto split: list.splits)
    then show ?thesis by (simp add: reads_of_def)
  qed
  show ?thesis
  proof (cases r)
    case None
    then have "reads_of f s = []" using fst by (simp split: list.splits)
    with None Pair show ?thesis by (simp add: process_event_fobj_def view_def Let_def)
  next
    case (Some rq)
    then obtain rest where rq: "reads_of f s = rq # rest" using fst by (auto split: list.splits)
    then have "offer env m f evt (view f s) = (if queue_error env f then view f s else
        (fobj s f, rest, delivered f s @ (if NT_SUCCESS (rd_buffer rq) then [evt] else [])))"
      by (simp add: view_def)
    moreover have "reads_of h (s\<lparr>reads := rqs\<rparr>) = (if h = f then rest else reads_of h s)" for h
      using snd [of h] rq by (simp add: reads_of_def)
    ultimately show ?thesis
      using Some Pair own [OF Some] by (auto simp: process_event_fobj_def view_def)
  qed
qed

lemma process_event_fobj_simps [simp]:
  "fileobjects (process_event_fobj env f evt m s) = fileobjects s"
  "events_subscribers (process_event_fobj env f evt m s) = events_subscribers s"
  "ev_devices_cnt (process_event_fobj env f evt m s) = ev_devices_cnt s"
  by (simp_all add: process_event_fobj_def Let_def split: prod.splits option.splits)

lemma process_event_loop_simps [simp]:
  "fileobjects (process_event_loop env evt m fs s) = fileobjects s"
  "events_subscribers (process_event_loop env evt m fs s) = events_subscribers s"
  "ev_devices_cnt (process_event_loop env evt m fs s) = ev_devices_cnt s"
  by (induction fs arbitrary: s) simp_all

lemma view_process_events: "fo_process_events (fobj s f) = fo_process_events (fst (view f s))"
  by (simp add: view_def)

lemma process_event_loop_view:
  "distinct fs \<Longrightarrow> view g (process_event_loop env evt m fs s) =
     (if g \<in> set fs \<and> fo_process_events (fobj s g) then offer env m g evt (view g s) else view g s)"
proof (induction fs arbitrary: s)
  case (Cons f fs)
  then show ?case
    by (auto simp: process_event_fobj_view view_process_events)
qed simp

section \<open>Runs\<close>

text \<open>What is observed beside the driver's state: the file objects that were ever opened, the events
  published to each of them since it subscribed, and whether one of them was lost for it. An event
  is lost if the queue or the collection fails, if the buffer of the read that takes it cannot be
  accessed, or if the collection is full and the oldest event is dropped.\<close>

record event_log =
  opened :: "wdf_handle set"
  published :: "wdf_handle \<Rightarrow> device_state list"
  lost :: "wdf_handle \<Rightarrow> bool"

definition max_events :: "events_ctx \<Rightarrow> nat" where
  "max_events s = nat (4 * ev_devices_cnt s)"

definition subscribed :: "events_ctx \<Rightarrow> wdf_handle \<Rightarrow> bool" where
  "subscribed s f \<longleftrightarrow> f \<in> set (fileobjects s) \<and> fo_process_events (fobj s f)"

definition log_event :: "event_env \<Rightarrow> device_state \<Rightarrow> events_ctx \<Rightarrow> event_log \<Rightarrow> event_log" where
  "log_event env evt s g =
     g\<lparr>published := (\<lambda>f. if subscribed s f then published g f @ [evt] else published g f),
       lost := (\<lambda>f. lost g f \<or> subscribed s f \<and> loses env (max_events s) f (view f s))\<rparr>"

definition log_read :: "read_request \<Rightarrow> nat \<Rightarrow> events_ctx \<Rightarrow> event_log \<Rightarrow> event_log" where
  "log_read rq len s g =
     g\<lparr>lost := (\<lambda>f. lost g f \<or> f = rd_file rq \<and> len = DEVICE_STATE_SIZE \<and>
         fo_events (fobj s f) \<noteq> [] \<and> \<not> NT_SUCCESS (rd_buffer rq))\<rparr>"

type_synonym ev_state = "events_ctx \<times> event_log"

inductive ev_step :: "ev_state \<Rightarrow> ev_state \<Rightarrow> bool" where
  ev_open: "f \<notin> opened g \<Longrightarrow> device_file_create st f s = (st', s') \<Longrightarrow>
    ev_step (s, g) (s', g\<lparr>opened := insert f (opened g)\<rparr>)"
| ev_close: "f \<in> set (fileobjects s) \<Longrightarrow> ev_step (s, g) (file_cleanup f s, g)"
| ev_read: "rd_file rq \<in> set (fileobjects s) \<Longrightarrow>
    ev_step (s, g) (device_read fwd rq len s, log_read rq len s g)"
| ev_cancel: "rq \<in> set (reads s) \<Longrightarrow> ev_step (s, g) (canceled_on_queue rq s, g)"
| ev_purge: "ev_step (s, g) (purge_read_queue s, g)"
| ev_change: "ev_step (s, g) (device_state_changed env n (Some evt) s, log_event env evt s g)"

fun view_ok :: "nat \<Rightarrow> fileobject_ctx \<times> read_request list \<times> device_state list \<Rightarrow> device_state list \<Rightarrow>
    bool \<Rightarrow> bool" where
  "view_ok m (c, rqs, del) pub lo \<longleftrightarrow>
     (fo_events c \<noteq> [] \<longrightarrow> rqs = []) \<and> length (fo_events c) \<le> m \<and>
     subseq (del @ fo_events c) pub \<and> (\<not> lo \<longrightarrow> del @ fo_events c = pub)"

definition subscribers :: "events_ctx \<Rightarrow> nat" where
  "subscribers s = length (filter (\<lambda>f. fo_process_events (fobj s f)) (fileobjects s))"

definition ev_inv :: "ev_state \<Rightarrow> bool" where
  "ev_inv = (\<lambda>(s, g).
     distinct (fileobjects s) \<and> set (fileobjects s) \<subseteq> opened g \<and>
     events_subscribers s = int (subscribers s) \<and>
     (\<forall>f \<in> set (fileobjects s). view_ok (max_events s) (view f s) (published g f) (lost g f)) \<and>
     (\<forall>f. f \<notin> opened g \<longrightarrow> reads_of f s = [] \<and> delivered f s = [] \<and> published g f = []))"

lemma offer_ok:
  assumes "view_ok m v pub lo"
  shows "view_ok m (offer env m f evt v) (pub @ [evt]) (lo \<or> loses env m f v)"
proof -
  obtain c rqs del where v: "v = (c, rqs, del)" by (cases v)
  show ?thesis
  proof (cases rqs)
    case Nil
    have "subseq (tl (xs @ [evt])) (xs @ [evt])" for xs :: "device_state list"
      by (cases xs) auto
    then have "subseq (del @ tl (fo_events c @ [evt])) (del @ fo_events c @ [evt])"
      by (rule list_emb_append_mono [OF subseq_order.refl])
    moreover have "subseq (del @ fo_events c @ [evt]) (pub @ [evt])"
      using assms v list_emb_append_mono [of _ "del @ fo_events c" pub "[evt]" "[evt]"] by simp
    ultimately have "subseq (del @ tl (fo_events c @ [evt])) (pub @ [evt])"
      by (rule subseq_order.trans)
    then show ?thesis
      using assms Nil v \<open>subseq (del @ fo_events c @ [evt]) (pub @ [evt])\<close>
      by (auto simp: Let_def list_emb_append2)
  next
    case (Cons rq rest)
    then have "fo_events c = []" using assms v by auto
    then show ?thesis using assms Cons v
      using list_emb_append_mono [of "(=)" del pub "[evt]" "[evt]"]
      by (auto simp: list_emb_append2)
  qed
qed

lemma device_state_changed_view:
  assumes "distinct (fileobjects s)" "events_subscribers s = int (subscribers s)"
  shows "view f (device_state_changed env n (Some evt) s) =
    (if subscribed s f then offer env (max_events s) f evt (view f s) else view f s)"
proof (cases "n = 0 \<and> events_subscribers s = 0")
  case True
  then have "\<not> subscribed s f"
    using assms(2) by (auto simp: subscribers_def subscribed_def filter_empty_conv)
  with True show ?thesis by (simp add: device_state_changed_def)
next
  case False
  then have "device_state_changed env n (Some evt) s =
      process_event_loop env evt (max_events s) (fileobjects s) s"
    by (auto simp: device_state_changed_def process_event_def max_events_def)
  then show ?thesis
    by (simp add: process_event_loop_view [OF assms(1)] subscribed_def)
qed

lemma offer_process_events: "fo_process_events (fst (offer env m f evt v)) = fo_process_events (fst v)"
  by (cases v) (auto simp: Let_def split: list.splits)

lemma device_state_changed_simps [simp]:
  "fileobjects (device_state_changed env n evt s) = fileobjects s"
  "events_subscribers (device_state_changed env n evt s) = events_subscribers s"
  "ev_devices_cnt (device_state_changed env n evt s) = ev_devices_cnt s"
  by (simp_all add: device_state_changed_def process_event_def split: option.splits)

lemma change_inv:
  assumes "ev_inv (s, g)"
  shows "ev_inv (device_state_changed env n (Some evt) s, log_event env evt s g)"
proof -
  have d: "distinct (fileobjects s)" "events_subscribers s = int (subscribers s)"
    "\<And>f. f \<in> set (fileobjects s) \<Longrightarrow> f \<in> opened g"
    using assms by (auto simp: ev_inv_def)
  note v = device_state_changed_view [OF d(1,2)]
  have "fo_process_events (fobj (device_state_changed env n (Some evt) s) f) = fo_process_events (fobj s f)" for f
    by (simp add: view_process_events v offer_process_events)
  then have "subscribers (device_state_changed env n (Some evt) s) = subscribers s"
    by (simp add: subscribers_def)
  moreover have "reads_of f (device_state_changed env n (Some evt) s) = reads_of f s"
      "delivered f (device_state_changed env n (Some evt) s) = delivered f s"
    if "\<not> subscribed s f" for f
    using v [of f] that by (simp_all add: view_def)
  moreover have "\<not> subscribed s f" if "f \<notin> opened g" for f
    using that d(3) by (auto simp: subscribed_def)
  ultimately show ?thesis
    using assms offer_ok by (auto simp: ev_inv_def v log_event_def max_events_def)
qed

text \<open>A read as its file object sees it.\<close>

lemma device_read_view:
  "view h (device_read fwd rq len s) =
     (if h \<noteq> rd_file rq \<or> len \<noteq> DEVICE_STATE_SIZE then view h s
      else let c = (fobj s h)\<lparr>fo_process_events := True\<rparr> in
        case fo_events (fobj s h) of
          evt # rest \<Rightarrow> (c\<lparr>fo_events := rest\<rparr>, reads_of h s,
            delivered h s @ (if NT_SUCCESS (rd_buffer rq) then [evt] else []))
        | [] \<Rightarrow> (c, if (if reads_accept s then fwd else STATUS_WDF_BUSY) = STATUS_SUCCESS
                  then reads_of h s @ [rq] else reads_of h s, delivered h s))"
  by (auto simp: device_read_def view_def Let_def reads_of_def split: list.splits)

lemma device_read_simps [simp]:
  "fileobjects (device_read fwd rq len s) = fileobjects s"
  "ev_devices_cnt (device_read fwd rq len s) = ev_devices_cnt s"
  by (simp_all add: device_read_def Let_def split: list.splits)

lemma device_read_subscribers:
  "events_subscribers (device_read fwd rq len s) =
     (if len = DEVICE_STATE_SIZE \<and> \<not> fo_process_events (fobj s (rd_file rq))
      then events_subscribers s + 1 else events_subscribers s)"
  by (simp add: device_read_def Let_def split: list.splits)

lemma length_filter_flip:
  assumes "distinct xs" "x \<in> set xs" "\<not> P x"
  shows "length (filter (\<lambda>y. y = x \<or> P y) xs) = Suc (length (filter P xs))"
  using assms by (induction xs) (auto intro!: arg_cong [where f = length] filter_cong)

lemma read_inv:
  assumes inv: "ev_inv (s, g)" and f: "rd_file rq \<in> set (fileobjects s)"
  shows "ev_inv (device_read fwd rq len s, log_read rq len s g)"
proof -
  let ?s = "device_read fwd rq len s" and ?f = "rd_file rq"
  have "fo_process_events (fobj ?s h) =
      (h = ?f \<and> len = DEVICE_STATE_SIZE \<or> fo_process_events (fobj s h))" for h
    unfolding view_process_events [of ?s] device_read_view
    by (auto simp: view_def Let_def split: list.splits)
  then have "subscribers ?s = (if len = DEVICE_STATE_SIZE \<and> \<not> fo_process_events (fobj s ?f)
      then Suc (subscribers s) else subscribers s)"
    using inv f length_filter_flip [of "fileobjects s" ?f "\<lambda>h. fo_process_events (fobj s h)"]
    by (auto simp: subscribers_def ev_inv_def intro!: arg_cong [where f = length] filter_cong)
  moreover have "view_ok (max_events s) (view h ?s) (published g h) (lost (log_read rq len s g) h)"
    if "h \<in> set (fileobjects s)" for h
  proof -
    have ok: "view_ok (max_events s) (view h s) (published g h) (lost g h)"
      using inv that by (simp add: ev_inv_def)
    show ?thesis
    proof (cases "h \<noteq> ?f \<or> len \<noteq> DEVICE_STATE_SIZE")
      case True
      then show ?thesis using ok by (auto simp: device_read_view log_read_def)
    next
      case False
      have "subseq (delivered h s @ rest) pub" if "subseq (delivered h s @ e # rest) pub" for e rest pub
        by (rule subseq_order.trans [OF list_emb_append_mono [OF subseq_order.refl] that]) auto
      then show ?thesis
        using ok False unfolding device_read_view
        by (cases "fo_events (fobj s h)") (auto simp: log_read_def view_def Let_def)
    qed
  qed
  moreover have "h \<noteq> ?f" if "h \<notin> opened g" for h using inv f that by (auto simp: ev_inv_def)
  then have "reads_of h ?s = reads_of h s \<and> delivered h ?s = delivered h s" if "h \<notin> opened g" for h
    using that device_read_view [of h fwd rq len s] by (simp add: view_def)
  ultimately show ?thesis
    using inv by (auto simp: ev_inv_def device_read_subscribers max_events_def log_read_def)
qed

lemma canceled_view:
  "view f (canceled_on_queue rq s) = (fobj s f, reads_of f (s\<lparr>reads := remove1 rq (reads s)\<rparr>), delivered f s)"
  by (simp add: view_def canceled_on_queue_def)

lemma canceled_simps [simp]:
  "fileobjects (canceled_on_queue rq s) = fileobjects s"
  "fobj (canceled_on_queue rq s) = fobj s"
  "events_subscribers (canceled_on_queue rq s) = events_subscribers s"
  "ev_devices_cnt (canceled_on_queue rq s) = ev_devices_cnt s"
  by (simp_all add: canceled_on_queue_def)

lemma cancel_inv:
  assumes "ev_inv (s, g)"
  shows "ev_inv (canceled_on_queue rq s, g)"
proof -
  have empty: "reads_of f (s\<lparr>reads := remove1 rq (reads s)\<rparr>) = []" if "reads_of f s = []" for f
    using that by (auto simp: reads_of_def filter_empty_conv dest: in_set_remove1 [THEN iffD1] notin_set_remove1)
  show ?thesis
    using assms canceled_view [of _ rq s] empty
    by (auto simp: ev_inv_def subscribers_def max_events_def view_def)
qed

lemma purge_inv: "ev_inv (s, g) \<Longrightarrow> ev_inv (purge_read_queue s, g)"
proof -
  have "ev_inv (s, g) \<Longrightarrow> ev_inv (fold canceled_on_queue rqs s, g)" for rqs s
    by (induction rqs arbitrary: s) (simp_all add: cancel_inv)
  moreover assume "ev_inv (s, g)"
  then have "ev_inv (s\<lparr>reads_accept := False\<rparr>, g)"
    by (simp add: ev_inv_def subscribers_def max_events_def view_def)
  ultimately show ?thesis by (simp add: purge_read_queue_def)
qed

lemma open_inv:
  assumes "ev_inv (s, g)" "f \<notin> opened g" "device_file_create st f s = (st', s')"
  shows "ev_inv (s', g\<lparr>opened := insert f (opened g)\<rparr>)"
proof (cases "NT_ERROR st")
  case True
  then show ?thesis using assms by (auto simp: device_file_create_def ev_inv_def)
next
  case False
  then have s': "s' = set_fobj f (\<lambda>_. \<lparr>fo_events = [], fo_process_events = False\<rparr>)
      (s\<lparr>fileobjects := fileobjects s @ [f]\<rparr>)"
    using assms(3) by (simp add: device_file_create_def)
  have f: "f \<notin> set (fileobjects s)" using assms(1,2) by (auto simp: ev_inv_def)
  then have "view h s' = (if h = f then (\<lparr>fo_events = [], fo_process_events = False\<rparr>, reads_of f s, delivered f s)
      else view h s)" for h
    by (simp add: s' view_def)
  moreover have "filter (\<lambda>h. fo_process_events (fobj s' h)) (fileobjects s) =
      filter (\<lambda>h. fo_process_events (fobj s h)) (fileobjects s)"
    using f by (intro filter_cong) (auto simp: s')
  ultimately show ?thesis
    using assms(1,2) f by (auto simp: ev_inv_def subscribers_def max_events_def s')
qed

lemma close_inv:
  assumes "ev_inv (s, g)" "f \<in> set (fileobjects s)"
  shows "ev_inv (file_cleanup f s, g)"
proof -
  have d: "distinct (fileobjects s)" using assms(1) by (simp add: ev_inv_def)
  have "length (filter P xs) = length (filter P (remove1 x xs)) + (if P x then 1 else 0)"
    if "x \<in> set xs" for P x and xs :: "wdf_handle list"
    using that by (induction xs) auto
  from this [OF assms(2), of "\<lambda>h. fo_process_events (fobj s h)"]
  have "int (subscribers s) = int (length (filter (\<lambda>h. fo_process_events (fobj s h)) (remove1 f (fileobjects s)))) +
      (if fo_process_events (fobj s f) then 1 else 0)"
    by (simp add: subscribers_def)
  moreover have "set (remove1 f (fileobjects s)) \<subseteq> set (fileobjects s)" by (rule set_remove1_subset)
  ultimately show ?thesis
    using assms(1) d
    by (auto simp: ev_inv_def file_cleanup_def Let_def subscribers_def max_events_def view_def)
qed

lemma ev_inv_step: "ev_step p q \<Longrightarrow> ev_inv p \<Longrightarrow> ev_inv q"
  by (induction rule: ev_step.induct)
    (simp_all add: open_inv close_inv read_inv cancel_inv purge_inv change_inv)

text \<open>The controller before its first file object: \<open>c\<close> is what the contexts hold before
  \<open>device_file_create\<close> initialises them.\<close>

definition ev_start :: "int \<Rightarrow> (wdf_handle \<Rightarrow> fileobject_ctx) \<Rightarrow> ev_state" where
  "ev_start cnt c =
     (\<lparr>fileobjects = [], fobj = c, reads = [], reads_accept = True, events_subscribers = 0,
       ev_devices_cnt = cnt, completed = []\<rparr>,
      \<lparr>opened = {}, published = (\<lambda>_. []), lost = (\<lambda>_. False)\<rparr>)"

lemma ev_inv_reachable: "ev_step\<^sup>*\<^sup>* (ev_start cnt c) p \<Longrightarrow> ev_inv p"
proof (induction rule: rtranclp_induct)
  case base
  then show ?case
    by (simp add: ev_start_def ev_inv_def subscribers_def reads_of_def delivered_def map_filter_def)
qed (rule ev_inv_step)

text \<open>C10. Delivery of device notifications. Whatever programs open and close the controller, read from
  it, cancel their reads, and whatever changes happen, an open file object has received, oldest
  first, records of changes since it subscribed, and those it will receive next wait for it in order;
  none is duplicated or reordered. If neither the framework failed nor the queue of four records for
  each port overflowed, it misses none. Records wait only if no read does, and the number of
  subscribers is the number of open file objects that have read, so that a change is published
  whenever there is one.\<close>

theorem event_delivery:
  assumes "ev_step\<^sup>*\<^sup>* (ev_start cnt c) (s, g)" "f \<in> set (fileobjects s)"
  shows "subseq (delivered f s @ fo_events (fobj s f)) (published g f) \<and>
    (\<not> lost g f \<longrightarrow> delivered f s @ fo_events (fobj s f) = published g f) \<and>
    length (fo_events (fobj s f)) \<le> nat (4 * ev_devices_cnt s) \<and>
    (fo_events (fobj s f) \<noteq> [] \<longrightarrow> reads_of f s = []) \<and>
    events_subscribers s = int (length (filter (\<lambda>h. fo_process_events (fobj s h)) (fileobjects s)))"
  using ev_inv_reachable [OF assms(1)] assms(2)
  by (auto simp: ev_inv_def view_def subscribers_def max_events_def)

theorem event_delivery_witness:
  "\<exists>s g. ev_step\<^sup>*\<^sup>* (ev_start 2 (\<lambda>_. \<lparr>fo_events = [], fo_process_events = False\<rparr>)) (s, g) \<and>
     8 \<in> set (fileobjects s) \<and> delivered 8 s @ fo_events (fobj s 8) = published g 8 \<and> length (published g 8) = 1"
proof -
  define c0 where "c0 = (\<lambda>_ :: wdf_handle. \<lparr>fo_events = [], fo_process_events = False\<rparr>)"
  define rq where "rq = \<lparr>rd_id = 1, rd_file = 8, rd_buffer = STATUS_SUCCESS\<rparr>"
  define evt where "evt = \<lparr>ds_size = DEVICE_STATE_SIZE, ds_port = 1, ds_host = [], ds_service = [], ds_busid = [],
    ds_properties = \<lparr>pr_devid = 0, pr_speed = 3, pr_vendor = 1, pr_product = 1, pr_serial = [], pr_iserial = 0\<rparr>,
    ds_state = plugged, ds_source_id = 0\<rparr>"
  define env where "env = \<lparr>queue_error = (\<lambda>_ :: wdf_handle. False), add_status = (\<lambda>_. STATUS_SUCCESS)\<rparr>"
  obtain s0 g0 where start: "ev_start 2 c0 = (s0, g0)" by force
  define s1 where "s1 = snd (device_file_create STATUS_SUCCESS 8 s0)"
  define g1 where "g1 = g0\<lparr>opened := insert 8 (opened g0)\<rparr>"
  define s2 where "s2 = device_read STATUS_SUCCESS rq DEVICE_STATE_SIZE s1"
  define g2 where "g2 = log_read rq DEVICE_STATE_SIZE s1 g1"
  define s3 where "s3 = device_state_changed env 1 (Some evt) s2"
  define g3 where "g3 = log_event env evt s2 g2"
  have s0: "s0 = fst (ev_start 2 c0)" "g0 = snd (ev_start 2 c0)" using start by simp_all
  have s1': "s1 = s0\<lparr>fileobjects := [8], fobj := (fobj s0)(8 := \<lparr>fo_events = [], fo_process_events = False\<rparr>)\<rparr>"
    by (simp add: s1_def s0 ev_start_def device_file_create_def NT_ERROR_def set_fobj_def)
  have 1: "ev_step (s0, g0) (s1, g1)"
    unfolding g1_def
    by (rule ev_open [where st = STATUS_SUCCESS]) (simp_all add: s0 ev_start_def s1_def prod_eq_iff)
  have 2: "ev_step (s1, g1) (s2, g2)"
    unfolding s2_def g2_def by (rule ev_read) (simp add: s1' rq_def)
  have 3: "ev_step (s2, g2) (s3, g3)" unfolding s3_def g3_def by (rule ev_change)
  from 1 2 3 have r: "ev_step\<^sup>*\<^sup>* (ev_start 2 c0) (s3, g3)" unfolding start
    by (meson r_into_rtranclp rtranclp_trans)
  have f: "8 \<in> set (fileobjects s3)" by (simp add: s3_def s2_def s1')
  have s2': "fobj s2 8 = \<lparr>fo_events = [], fo_process_events = True\<rparr>" "reads s2 = [rq]"
    "delivered 8 s2 = []"
    by (simp_all add: s2_def device_read_def rq_def s1' s0 ev_start_def set_fobj_def delivered_def map_filter_def)
  have sub: "subscribed s2 8" using s2' by (simp add: subscribed_def s2_def s1')
  have "\<not> lost g3 8" "published g3 8 = [evt]"
    using sub s2' by (simp_all add: g3_def log_event_def g2_def log_read_def g1_def s0 ev_start_def s1'
      view_def reads_of_def rq_def env_def)
  with event_delivery [OF r f] have "delivered 8 s3 @ fo_events (fobj s3 8) = published g3 8"
    "length (published g3 8) = 1" by simp_all
  with r f show ?thesis unfolding c0_def by iprover
qed

end
