(* ===== verification/Wsk_Socket.thy ===== *)
theory Wsk_Socket
  imports Prelude
begin

text \<open>
  Closing a socket while other threads use it (\<open>libdrv/wsk_cpp.cpp\<close>). Every call into the network
  stack goes through \<open>SOCKET::invoke\<close>, which counts itself in \<open>invoke_cnt\<close>; \<open>wait_invokers\<close> sets the
  flag \<open>CLOSING\<close> in the same word, after which no call gets through, and waits until the calls that
  did have returned. The last of them signals \<open>can_close\<close>, and the flag \<open>EVENT_SET\<close> makes sure that
  it is signalled once.

  Each interlocked operation of the code is one step. Between its steps a thread is at one of the
  places of \<open>sock_pc\<close>, and any thread may take the next step. The counter is the 64-bit word of the
  code. \<open>in_call\<close> is the place where the network stack runs.
\<close>

section \<open>Data\<close>

definition EVENT_SET_OFFSET :: nat where "EVENT_SET_OFFSET = 62"
definition EVENT_SET :: u64 where "EVENT_SET = push_bit EVENT_SET_OFFSET 1"
definition CLOSING :: u64 where "CLOSING = push_bit 61 1"

datatype sock_pc =
    Idle          \<comment> \<open>in neither function\<close>
  | InCall        \<comment> \<open>\<open>invoke\<close>: incremented, runs \<open>f\<close>\<close>
  | Refused       \<comment> \<open>\<open>invoke\<close>: incremented, saw \<open>CLOSING\<close>\<close>
  | LastOut       \<comment> \<open>\<open>invoke\<close>: its decrement left \<open>CLOSING\<close> alone\<close>
  | SetsEvent     \<comment> \<open>\<open>invoke\<close>: found \<open>EVENT_SET\<close> clear, about to signal\<close>
  | Waits         \<comment> \<open>\<open>wait_invokers\<close>: the count was not zero\<close>
  | NoWait        \<comment> \<open>\<open>wait_invokers\<close>: the count was zero\<close>

text \<open>\<open>closed\<close>: \<open>wait_invokers\<close> returned success without its wait timing out.\<close>

record socket_state =
  invoke_cnt :: u64
  can_close :: bool
  signals :: nat
  pc :: "nat \<Rightarrow> sock_pc"
  closed :: bool
  timed_out :: bool

definition goto :: "nat \<Rightarrow> sock_pc \<Rightarrow> socket_state \<Rightarrow> socket_state" where
  "goto t p s = s\<lparr>pc := (pc s)(t := p)\<rparr>"

section \<open>The steps\<close>

text \<open>\<open>if (auto n = InterlockedIncrement64(&invoke_cnt); n & CLOSING)\<close>\<close>

definition invoke_enter :: "nat \<Rightarrow> socket_state \<Rightarrow> socket_state" where
  "invoke_enter t s =
     (let n = invoke_cnt s + 1 in
      goto t (if n AND CLOSING \<noteq> 0 then Refused else InCall) (s\<lparr>invoke_cnt := n\<rparr>))"

text \<open>\<open>InterlockedDecrement64(&invoke_cnt) == CLOSING\<close>\<close>

definition invoke_leave :: "nat \<Rightarrow> socket_state \<Rightarrow> socket_state" where
  "invoke_leave t s =
     (let n = invoke_cnt s - 1 in
      goto t (if n = CLOSING then LastOut else Idle) (s\<lparr>invoke_cnt := n\<rparr>))"

text \<open>\<open>!InterlockedBitTestAndSet64(&invoke_cnt, EVENT_SET_OFFSET)\<close>\<close>

definition invoke_test_and_set :: "nat \<Rightarrow> socket_state \<Rightarrow> socket_state" where
  "invoke_test_and_set t s =
     goto t (if bit (invoke_cnt s) EVENT_SET_OFFSET then Idle else SetsEvent)
       (s\<lparr>invoke_cnt := invoke_cnt s OR EVENT_SET\<rparr>)"

text \<open>\<open>KeSetEvent(&can_close, IO_NO_INCREMENT, false)\<close>\<close>

definition invoke_signal :: "nat \<Rightarrow> socket_state \<Rightarrow> socket_state" where
  "invoke_signal t s = goto t Idle (s\<lparr>can_close := True, signals := signals s + 1\<rparr>)"

text \<open>\<open>if (auto n = InterlockedOr64(&s.invoke_cnt, s.CLOSING); n & s.CLOSING)\<close>: a second call
  returns \<open>STATUS_NOT_SUPPORTED\<close> at once.\<close>

definition wait_enter :: "nat \<Rightarrow> socket_state \<Rightarrow> socket_state" where
  "wait_enter t s =
     (let n = invoke_cnt s in
      goto t (if n AND CLOSING \<noteq> 0 then Idle else if n \<noteq> 0 then Waits else NoWait)
        (s\<lparr>invoke_cnt := n OR CLOSING\<rparr>))"

text \<open>\<open>KeWaitForSingleObject\<close> returns because the event is signalled, or after 30 seconds.\<close>

definition wait_event :: "nat \<Rightarrow> socket_state \<Rightarrow> socket_state" where
  "wait_event t s = goto t Idle (s\<lparr>closed := True\<rparr>)"

definition wait_timeout :: "nat \<Rightarrow> socket_state \<Rightarrow> socket_state" where
  "wait_timeout t s = goto t Idle (s\<lparr>timed_out := True\<rparr>)"

text \<open>\<open>InterlockedBitTestAndSet64(&s.invoke_cnt, s.EVENT_SET_OFFSET)\<close>\<close>

definition wait_set_event_bit :: "nat \<Rightarrow> socket_state \<Rightarrow> socket_state" where
  "wait_set_event_bit t s =
     goto t Idle (s\<lparr>invoke_cnt := invoke_cnt s OR EVENT_SET, closed := True\<rparr>)"

text \<open>\<open>N\<close> threads use the socket.\<close>

inductive sock_step :: "nat \<Rightarrow> socket_state \<Rightarrow> socket_state \<Rightarrow> bool" for N where
  "t < N \<Longrightarrow> pc s t = Idle \<Longrightarrow> sock_step N s (invoke_enter t s)"
| "t < N \<Longrightarrow> pc s t = InCall \<or> pc s t = Refused \<Longrightarrow> sock_step N s (invoke_leave t s)"
| "t < N \<Longrightarrow> pc s t = LastOut \<Longrightarrow> sock_step N s (invoke_test_and_set t s)"
| "t < N \<Longrightarrow> pc s t = SetsEvent \<Longrightarrow> sock_step N s (invoke_signal t s)"
| "t < N \<Longrightarrow> pc s t = Idle \<Longrightarrow> sock_step N s (wait_enter t s)"
| "t < N \<Longrightarrow> pc s t = Waits \<Longrightarrow> can_close s \<Longrightarrow> sock_step N s (wait_event t s)"
| "t < N \<Longrightarrow> pc s t = Waits \<Longrightarrow> sock_step N s (wait_timeout t s)"
| "t < N \<Longrightarrow> pc s t = NoWait \<Longrightarrow> sock_step N s (wait_set_event_bit t s)"

definition new_socket :: socket_state where
  "new_socket = \<lparr>invoke_cnt = 0, can_close = False, signals = 0, pc = (\<lambda>_. Idle), closed = False, timed_out = False\<rparr>"

section \<open>The counter\<close>

definition active :: "sock_pc \<Rightarrow> bool" where
  "active p \<longleftrightarrow> p = InCall \<or> p = Refused"

definition counted :: "nat \<Rightarrow> (nat \<Rightarrow> sock_pc) \<Rightarrow> nat" where
  "counted N f = card {t. t < N \<and> active (f t)}"

lemma active_simps [simp]:
  "active InCall" "active Refused" "\<not> active Idle" "\<not> active LastOut" "\<not> active SetsEvent"
  "\<not> active Waits" "\<not> active NoWait"
  by (simp_all add: active_def)

text \<open>The word with count \<open>n\<close> and the two flags.\<close>

definition flags :: "bool \<Rightarrow> bool \<Rightarrow> u64" where
  "flags c e = (if c then CLOSING else 0) OR (if e then EVENT_SET else 0)"

definition word_of :: "nat \<Rightarrow> bool \<Rightarrow> bool \<Rightarrow> u64" where
  "word_of n c e = of_nat n OR flags c e"

lemma bit_count:
  assumes "n < 2 ^ 61"
  shows "bit (of_nat n :: u64) k \<longleftrightarrow> k < 61 \<and> bit n k"
proof -
  have "take_bit 61 n = n" using assms by (rule take_bit_nat_eq_self)
  then have "bit n k \<longleftrightarrow> k < 61 \<and> bit n k" by (metis bit_take_bit_iff)
  then show ?thesis by (auto simp: bit_of_nat_iff)
qed

lemma bit_flag_words:
  "bit CLOSING k \<longleftrightarrow> k = 61" "bit EVENT_SET k \<longleftrightarrow> k = 62"
  unfolding CLOSING_def EVENT_SET_def EVENT_SET_OFFSET_def bit_push_bit_iff bit_1_iff by auto

lemma bit_flags: "bit (flags c e) k \<longleftrightarrow> k = 61 \<and> c \<or> k = 62 \<and> e"
  by (auto simp: flags_def bit_or_iff bit_flag_words)

lemma bit_word_of:
  "n < 2 ^ 61 \<Longrightarrow> bit (word_of n c e) k \<longleftrightarrow> k < 61 \<and> bit n k \<or> k = 61 \<and> c \<or> k = 62 \<and> e"
  by (auto simp: word_of_def bit_or_iff bit_count bit_flags)

lemma word_of_add: "n < 2 ^ 61 \<Longrightarrow> word_of n c e = of_nat n + flags c e"
  unfolding word_of_def by (rule disjunctive_add_eq_or [symmetric], rule bit_word_eqI)
    (auto simp: bit_and_iff bit_count bit_flags)

lemma word_of_inj:
  assumes "n < 2 ^ 61" "m < 2 ^ 61"
  shows "word_of n c e = word_of m c' e' \<longleftrightarrow> n = m \<and> c = c' \<and> e = e'"
proof
  assume eq: "word_of n c e = word_of m c' e'"
  have "bit n k = bit m k" if "k < 61" for k
    using bit_word_of [OF assms(1), of c e k] bit_word_of [OF assms(2), of c' e' k] eq that by simp
  then have "take_bit 61 n = take_bit 61 m" by (auto intro!: bit_eqI simp: bit_take_bit_iff)
  with assms have "n = m" by (simp add: take_bit_nat_eq_self)
  with eq show "n = m \<and> c = c' \<and> e = e'"
    using bit_word_of [OF assms(1), of c e 61] bit_word_of [OF assms(2), of c' e' 61]
      bit_word_of [OF assms(1), of c e 62] bit_word_of [OF assms(2), of c' e' 62] by simp
qed simp

lemma word_of_zero: "word_of 0 False False = 0" by (simp add: word_of_def flags_def)

lemma word_of_CLOSING: "word_of 0 True False = CLOSING" by (simp add: word_of_def flags_def)

lemma CLOSING_test: "w AND CLOSING \<noteq> 0 \<longleftrightarrow> bit w 61"
  by (simp add: CLOSING_def push_bit_eq_mult and_exp_eq_0_iff_not_bit [of w 61, simplified])

lemma word_of_plus: "Suc n < 2 ^ 61 \<Longrightarrow> word_of n c e + 1 = word_of (Suc n) c e"
  by (simp add: word_of_add)

lemma word_of_minus: "Suc n < 2 ^ 61 \<Longrightarrow> word_of (Suc n) c e - 1 = word_of n c e"
  by (simp add: word_of_add)

lemma word_of_or:
  "n < 2 ^ 61 \<Longrightarrow> word_of n c e OR CLOSING = word_of n True e"
  "n < 2 ^ 61 \<Longrightarrow> word_of n c e OR EVENT_SET = word_of n c True"
  by (rule bit_word_eqI; auto simp: bit_word_of bit_or_iff bit_flag_words)+

lemma counted_le: "counted N f \<le> N"
  using card_mono [of "{..<N}" "{t. t < N \<and> active (f t)}"] by (auto simp: counted_def)

lemma counted_remove:
  assumes "t < N" "active (f t)"
  shows "counted N f = Suc (card ({u. u < N \<and> active (f u)} - {t}))"
  unfolding counted_def by (rule card.remove) (use assms in auto)

lemma counted_upd:
  assumes "t < N"
  shows "\<not> active (f t) \<Longrightarrow> active p \<Longrightarrow> counted N (f(t := p)) = Suc (counted N f)"
    "active (f t) \<Longrightarrow> \<not> active p \<Longrightarrow> counted N f = Suc (counted N (f(t := p)))"
    "\<not> active (f t) \<Longrightarrow> \<not> active p \<Longrightarrow> counted N (f(t := p)) = counted N f"
proof -
  assume a: "\<not> active (f t)" "active p"
  have "{u. u < N \<and> active ((f(t := p)) u)} - {t} = {u. u < N \<and> active (f u)}" using a by auto
  then show "counted N (f(t := p)) = Suc (counted N f)"
    using counted_remove [of t N "f(t := p)"] assms a(2) by (simp add: counted_def)
next
  assume a: "active (f t)" "\<not> active p"
  have "{u. u < N \<and> active (f u)} - {t} = {u. u < N \<and> active ((f(t := p)) u)}" using a by auto
  then show "counted N f = Suc (counted N (f(t := p)))"
    using counted_remove [of t N f] assms a(1) by (simp add: counted_def)
next
  assume a: "\<not> active (f t)" "\<not> active p"
  then have "{u. u < N \<and> active ((f(t := p)) u)} = {u. u < N \<and> active (f u)}" by auto
  then show "counted N (f(t := p)) = counted N f" by (simp add: counted_def)
qed

lemma counted_zero: "counted N f = 0 \<longleftrightarrow> (\<forall>t < N. \<not> active (f t))"
  by (auto simp: counted_def)

lemma counted_Suc_le:
  assumes "t < N" "\<not> active (f t)"
  shows "Suc (counted N f) \<le> N"
proof -
  have "{u. u < N \<and> active (f u)} \<subseteq> {..<N} - {t}" using assms(2) by auto
  from card_mono [OF _ this] show ?thesis using assms(1) by (simp add: counted_def)
qed

section \<open>Invariant\<close>

text \<open>\<open>c\<close> and \<open>e\<close> are the two flags of the word. The counter counts; before \<open>CLOSING\<close> is set only
  calls are under way; a thread that found the count at zero, the event flag, and a finished close
  mean that no call is under way; the event is signalled by one thread, once; a thread that waits
  has somebody to wake it.\<close>

definition inv_count :: "nat \<Rightarrow> bool \<Rightarrow> bool \<Rightarrow> socket_state \<Rightarrow> bool" where
  "inv_count N c e s \<longleftrightarrow>
     invoke_cnt s = word_of (counted N (pc s)) c e \<and> (\<forall>t. N \<le> t \<longrightarrow> pc s t = Idle)"

definition inv_open :: "bool \<Rightarrow> bool \<Rightarrow> socket_state \<Rightarrow> bool" where
  "inv_open c e s \<longleftrightarrow> c \<or> \<not> e \<and> \<not> closed s \<and> (\<forall>t. pc s t = Idle \<or> pc s t = InCall)"

definition inv_drained :: "bool \<Rightarrow> socket_state \<Rightarrow> bool" where
  "inv_drained e s \<longleftrightarrow> (\<forall>t. pc s t \<noteq> InCall) \<or>
     \<not> e \<and> \<not> closed s \<and> (\<forall>t. pc s t \<noteq> LastOut \<and> pc s t \<noteq> SetsEvent \<and> pc s t \<noteq> NoWait)"

definition inv_signal :: "bool \<Rightarrow> socket_state \<Rightarrow> bool" where
  "inv_signal e s \<longleftrightarrow> can_close s = (signals s = 1) \<and> signals s \<le> 1 \<and> (signals s = 1 \<longrightarrow> e) \<and>
     (\<forall>t. pc s t = SetsEvent \<longrightarrow> e \<and> signals s = 0) \<and>
     (\<forall>t u. pc s t = SetsEvent \<longrightarrow> pc s u = SetsEvent \<longrightarrow> t = u)"

definition inv_wakeup :: "bool \<Rightarrow> socket_state \<Rightarrow> bool" where
  "inv_wakeup e s \<longleftrightarrow> (\<forall>t. pc s t = Waits \<longrightarrow> (\<forall>u. pc s u \<noteq> NoWait) \<and>
     (e \<longrightarrow> signals s = 1 \<or> (\<exists>u. pc s u = SetsEvent)) \<and>
     (\<not> e \<longrightarrow> (\<exists>u. active (pc s u)) \<or> (\<exists>u. pc s u = LastOut)))"

definition sock_inv :: "nat \<Rightarrow> bool \<Rightarrow> bool \<Rightarrow> socket_state \<Rightarrow> bool" where
  "sock_inv N c e s \<longleftrightarrow> inv_count N c e s \<and> inv_open c e s \<and> inv_drained e s \<and> inv_signal e s \<and>
     inv_wakeup e s"

lemmas sock_inv_defs = inv_open_def inv_drained_def inv_signal_def inv_wakeup_def

lemma sock_inv_init: "sock_inv N False False new_socket"
  by (simp add: sock_inv_def inv_count_def sock_inv_defs new_socket_def counted_def word_of_zero)

lemma enter_inv:
  assumes "sock_inv N c e s" "t < N" "N < 2 ^ 61" "pc s t = Idle"
  shows "sock_inv N c e (invoke_enter t s)"
proof -
  let ?n = "counted N (pc s)" and ?f = "(pc s)(t := if c then Refused else InCall)"
  have n: "Suc ?n < 2 ^ 61" using counted_Suc_le [OF assms(2), of "pc s"] assms(3,4) by simp
  have w: "invoke_cnt s = word_of ?n c e" using assms(1) by (simp add: sock_inv_def inv_count_def)
  have "bit (word_of (Suc ?n) c e) 61 = c" by (simp add: bit_word_of [OF n])
  then have s': "invoke_enter t s = s\<lparr>invoke_cnt := word_of (Suc ?n) c e, pc := ?f\<rparr>"
    by (simp add: invoke_enter_def Let_def w word_of_plus [OF n] CLOSING_test goto_def)
  have "counted N ?f = Suc ?n" using counted_upd(1) [OF assms(2)] assms(4) by simp
  moreover have "inv_open c e (invoke_enter t s)"
    using assms(1) unfolding s' sock_inv_def inv_open_def by auto
  moreover have "inv_drained e (invoke_enter t s)"
    using assms(1,4) unfolding s' sock_inv_def inv_open_def inv_drained_def by (cases c) auto
  moreover have "inv_signal e (invoke_enter t s)"
    using assms(1,4) unfolding s' sock_inv_def inv_signal_def by (cases c) auto
  moreover have "inv_wakeup e (invoke_enter t s)"
    using assms(1,4) unfolding s' sock_inv_def inv_wakeup_def
    by (auto split: if_splits) (metis active_simps(3) sock_pc.distinct)+
  ultimately show ?thesis using assms(1,2) by (auto simp: sock_inv_def inv_count_def s')
qed

lemma sock_invD:
  assumes "sock_inv N c e s"
  shows "inv_count N c e s" "inv_open c e s" "inv_drained e s" "inv_signal e s" "inv_wakeup e s"
    "invoke_cnt s = word_of (counted N (pc s)) c e" "N \<le> t \<Longrightarrow> pc s t = Idle"
  using assms by (simp_all add: sock_inv_def inv_count_def)

lemma counted_small: "N < 2 ^ 61 \<Longrightarrow> counted N f < 2 ^ 61"
  using counted_le [of N f] by simp

text \<open>A thread anywhere but outside and in a call has seen \<open>CLOSING\<close>.\<close>

lemma inv_open_closing: "inv_open c e s \<Longrightarrow> pc s t \<noteq> Idle \<Longrightarrow> pc s t \<noteq> InCall \<Longrightarrow> c"
  by (auto simp: inv_open_def)

lemma leave_inv:
  assumes inv: "sock_inv N c e s" and t: "t < N" "N < 2 ^ 61" "pc s t = InCall \<or> pc s t = Refused"
  shows "sock_inv N c e (invoke_leave t s)"
proof -
  have act: "active (pc s t)" using t(3) by auto
  define m where "m = counted N ((pc s)(t := Idle))"
  define q where "q = (if m = 0 \<and> c \<and> \<not> e then LastOut else Idle)"
  have q: "q = LastOut \<or> q = Idle" by (simp add: q_def)
  then have "\<not> active q" by auto
  then have f: "counted N ((pc s)(t := q)) = m"
    using counted_upd(3) [OF t(1), of "(pc s)(t := Idle)" q] by (simp add: m_def)
  have n: "counted N (pc s) = Suc m" using counted_upd(2) [OF t(1), of "pc s" Idle] act by (simp add: m_def)
  have m: "Suc m < 2 ^ 61" using counted_small [OF t(2), of "pc s"] n by simp
  then have "word_of m c e = CLOSING \<longleftrightarrow> m = 0 \<and> c \<and> \<not> e"
    using word_of_inj [of m 0 c e True False] by (simp add: word_of_CLOSING)
  moreover have "invoke_cnt s - 1 = word_of m c e"
    unfolding sock_invD(6) [OF inv] n by (rule word_of_minus [OF m])
  ultimately have s': "invoke_leave t s = s\<lparr>invoke_cnt := word_of m c e, pc := (pc s)(t := q)\<rparr>"
    by (simp add: invoke_leave_def Let_def goto_def q_def)
  have none: "\<not> active (pc s u)" if "m = 0" "u \<noteq> t" for u
  proof (cases "u < N")
    case True
    then show ?thesis using that counted_zero [of N "(pc s)(t := Idle)"] by (auto simp: m_def)
  next
    case False
    then show ?thesis using sock_invD(7) [OF inv, of u] by simp
  qed
  have "inv_count N c e (invoke_leave t s)"
    using sock_invD(7) [OF inv] t(1) f by (auto simp: inv_count_def s')
  moreover have "inv_open c e (invoke_leave t s)"
    using sock_invD(2) [OF inv] unfolding s' inv_open_def by (auto simp: q_def)
  moreover have "inv_drained e (invoke_leave t s)"
  proof (cases "m = 0")
    case True
    then have "pc (invoke_leave t s) u \<noteq> InCall" for u
      using none [of u] q by (cases "u = t") (auto simp: s')
    then show ?thesis by (simp add: inv_drained_def)
  next
    case False
    then show ?thesis using sock_invD(3) [OF inv] t(3) unfolding s' inv_drained_def by (auto simp: q_def)
  qed
  moreover have "inv_signal e (invoke_leave t s)"
    using sock_invD(4) [OF inv] q unfolding s' inv_signal_def by auto
  moreover have "inv_wakeup e (invoke_leave t s)"
    unfolding inv_wakeup_def
  proof (intro allI impI)
    fix w
    assume "pc (invoke_leave t s) w = Waits"
    then have w: "w \<noteq> t" "pc s w = Waits" using q by (auto simp: s' split: if_splits)
    then have c: c using inv_open_closing [OF sock_invD(2) [OF inv], of w] by simp
    note W = sock_invD(5) [OF inv, unfolded inv_wakeup_def, rule_format, OF w(2)]
    have "pc (invoke_leave t s) u \<noteq> NoWait" for u using W q by (auto simp: s')
    moreover have "signals (invoke_leave t s) = 1 \<or> (\<exists>u. pc (invoke_leave t s) u = SetsEvent)" if e
    proof -
      from W that consider "signals s = 1" | u where "pc s u = SetsEvent" by auto
      then show ?thesis
      proof cases
        case 2
        then have "u \<noteq> t" using t(3) by auto
        then show ?thesis using 2 by (auto simp: s')
      qed (simp add: s')
    qed
    moreover have "(\<exists>u. active (pc (invoke_leave t s) u)) \<or> (\<exists>u. pc (invoke_leave t s) u = LastOut)" if "\<not> e"
    proof (cases "m = 0")
      case True
      then have "pc (invoke_leave t s) t = LastOut" using c that by (simp add: s' q_def)
      then show ?thesis by blast
    next
      case False
      then obtain u where "u < N" "active (((pc s)(t := Idle)) u)"
        using counted_zero [of N "(pc s)(t := Idle)"] by (auto simp: m_def)
      then have "active (pc (invoke_leave t s) u)" by (auto simp: s' split: if_splits)
      then show ?thesis by blast
    qed
    ultimately show "(\<forall>u. pc (invoke_leave t s) u \<noteq> NoWait) \<and>
        (e \<longrightarrow> signals (invoke_leave t s) = 1 \<or> (\<exists>u. pc (invoke_leave t s) u = SetsEvent)) \<and>
        (\<not> e \<longrightarrow> (\<exists>u. active (pc (invoke_leave t s) u)) \<or> (\<exists>u. pc (invoke_leave t s) u = LastOut))"
      by blast
  qed
  ultimately show ?thesis by (simp add: sock_inv_def)
qed

lemma set_inv:
  assumes inv: "sock_inv N c e s" and t: "t < N" "N < 2 ^ 61" "pc s t = LastOut"
  shows "sock_inv N c True (invoke_test_and_set t s)"
proof -
  let ?f = "(pc s)(t := if e then Idle else SetsEvent)"
  note n = counted_small [OF t(2), of "pc s"]
  have s': "invoke_test_and_set t s = s\<lparr>invoke_cnt := word_of (counted N (pc s)) c True, pc := ?f\<rparr>"
    using sock_invD(6) [OF inv] n
    by (simp add: invoke_test_and_set_def EVENT_SET_OFFSET_def bit_word_of word_of_or goto_def)
  have c: c using inv_open_closing [OF sock_invD(2) [OF inv], of t] t(3) by simp
  have "counted N ?f = counted N (pc s)" using counted_upd(3) [OF t(1)] t(3) by simp
  then have "inv_count N c True (invoke_test_and_set t s)"
    using sock_invD(7) [OF inv] t(1) by (auto simp: inv_count_def s')
  moreover have "inv_open c True (invoke_test_and_set t s)" using c by (simp add: inv_open_def)
  moreover have "inv_drained True (invoke_test_and_set t s)"
    using sock_invD(3) [OF inv] t(3) unfolding s' inv_drained_def by auto
  moreover have "inv_signal True (invoke_test_and_set t s)"
    using sock_invD(4) [OF inv] unfolding s' inv_signal_def by (cases e) auto
  moreover have "inv_wakeup True (invoke_test_and_set t s)"
    using sock_invD(5) [OF inv] t(3) unfolding s' inv_wakeup_def
    by (cases e) (auto, metis sock_pc.distinct)
  ultimately show ?thesis by (simp add: sock_inv_def)
qed

lemma signal_inv:
  assumes inv: "sock_inv N c e s" and t: "t < N" "pc s t = SetsEvent"
  shows "sock_inv N c e (invoke_signal t s)"
proof -
  have s': "invoke_signal t s = s\<lparr>can_close := True, signals := signals s + 1, pc := (pc s)(t := Idle)\<rparr>"
    by (simp add: invoke_signal_def goto_def)
  have e: "e" "signals s = 0" using sock_invD(4) [OF inv] t(2) by (auto simp: inv_signal_def)
  have "counted N ((pc s)(t := Idle)) = counted N (pc s)" using counted_upd(3) [OF t(1), of "pc s"] t(2) by simp
  then have "inv_count N c e (invoke_signal t s)"
    using sock_invD(6,7) [OF inv] t(1) by (auto simp: inv_count_def s')
  moreover have "inv_open c e (invoke_signal t s)"
    using inv_open_closing [OF sock_invD(2) [OF inv], of t] t(2) by (simp add: inv_open_def)
  moreover have "inv_drained e (invoke_signal t s)"
    using sock_invD(3) [OF inv] e unfolding s' inv_drained_def by auto
  moreover have "inv_signal e (invoke_signal t s)"
    using sock_invD(4) [OF inv] e t(2) unfolding s' inv_signal_def by auto
  moreover have "inv_wakeup e (invoke_signal t s)"
    using sock_invD(5) [OF inv] e unfolding s' inv_wakeup_def by auto
  ultimately show ?thesis by (simp add: sock_inv_def)
qed

lemma close_enter_inv:
  assumes inv: "sock_inv N c e s" and t: "t < N" "N < 2 ^ 61" "pc s t = Idle"
  shows "sock_inv N True e (wait_enter t s)"
proof -
  define n where "n = counted N (pc s)"
  define q where "q = (if c then Idle else if n \<noteq> 0 then Waits else NoWait)"
  have n: "n < 2 ^ 61" unfolding n_def by (rule counted_small [OF t(2)])
  have w: "invoke_cnt s = word_of n c e" using sock_invD(6) [OF inv] by (simp add: n_def)
  have ce: "e \<Longrightarrow> c" using sock_invD(2) [OF inv] by (auto simp: inv_open_def)
  have "invoke_cnt s \<noteq> 0 \<longleftrightarrow> n \<noteq> 0 \<or> c \<or> e"
    using word_of_inj [of n 0 c e False False] n unfolding w word_of_zero by simp
  then have s': "wait_enter t s = s\<lparr>invoke_cnt := word_of n True e, pc := (pc s)(t := q)\<rparr>"
    using ce bit_word_of [OF n, of c e 61] word_of_or(1) [OF n, of c e]
    by (auto simp: wait_enter_def Let_def CLOSING_test goto_def q_def w)
  have q: "q = Idle \<or> q = Waits \<or> q = NoWait" by (simp add: q_def)
  have "counted N ((pc s)(t := q)) = n"
    using counted_upd(3) [OF t(1), of "pc s" q] t(3) q by (auto simp: n_def)
  then have "inv_count N True e (wait_enter t s)"
    using sock_invD(7) [OF inv] t(1) by (auto simp: inv_count_def s')
  moreover have "inv_open True e (wait_enter t s)" by (simp add: inv_open_def)
  moreover have "inv_drained e (wait_enter t s)"
  proof (cases "q = NoWait")
    case True
    then have "n = 0" by (simp add: q_def split: if_splits)
    then have "\<not> active (pc s u)" for u
      using counted_zero [of N "pc s"] sock_invD(7) [OF inv, of u] by (cases "u < N") (simp_all add: n_def)
    then have "pc s u \<noteq> InCall" for u by (metis active_simps(1))
    then show ?thesis using True by (auto simp: inv_drained_def s')
  next
    case False
    then show ?thesis using sock_invD(3) [OF inv] q unfolding s' inv_drained_def by auto
  qed
  moreover have "inv_signal e (wait_enter t s)"
    using sock_invD(4) [OF inv] q unfolding s' inv_signal_def by auto
  moreover have "inv_wakeup e (wait_enter t s)"
  proof (cases c)
    case True
    then have "wait_enter t s = s\<lparr>invoke_cnt := word_of n True e, pc := pc s\<rparr>"
      using t(3) by (simp add: s' q_def fun_upd_idem)
    then show ?thesis using sock_invD(5) [OF inv] by (simp add: inv_wakeup_def)
  next
    case False
    then have idle: "pc s u = Idle \<or> pc s u = InCall" for u
      using sock_invD(2) [OF inv] by (auto simp: inv_open_def)
    have "\<exists>u. active (pc (wait_enter t s) u)" if "q = Waits"
    proof -
      have "n \<noteq> 0" using that by (simp add: q_def split: if_splits)
      then obtain u where "active (pc s u)" using counted_zero [of N "pc s"] by (auto simp: n_def)
      then show ?thesis using t(3) by (intro exI [of _ u]) (auto simp: s')
    qed
    then show ?thesis using idle ce False q unfolding inv_wakeup_def s' by (auto split: if_splits) (metis sock_pc.distinct)+
  qed
  ultimately show ?thesis by (simp add: sock_inv_def)
qed

lemma closed_inv:
  assumes inv: "sock_inv N c e s" and t: "t < N" "pc s t = Waits"
  shows "can_close s \<Longrightarrow> sock_inv N c e (wait_event t s)" "sock_inv N c e (wait_timeout t s)"
proof -
  have c: c using inv_open_closing [OF sock_invD(2) [OF inv], of t] t(2) by simp
  have n: "counted N ((pc s)(t := Idle)) = counted N (pc s)" using counted_upd(3) [OF t(1), of "pc s"] t(2) by simp
  have cnt: "inv_count N c e s'" if "invoke_cnt s' = invoke_cnt s" "pc s' = (pc s)(t := Idle)" for s'
    using sock_invD(6,7) [OF inv] t(1) n that by (auto simp: inv_count_def)
  have sig: "inv_signal e s'" if "pc s' = (pc s)(t := Idle)" "signals s' = signals s" "can_close s' = can_close s" for s'
    using sock_invD(4) [OF inv] that unfolding inv_signal_def by auto
  have wake: "inv_wakeup e s'" if "pc s' = (pc s)(t := Idle)" "signals s' = signals s" for s'
    using sock_invD(5) [OF inv] that t(2) unfolding inv_wakeup_def
    by (auto split: if_splits) (metis active_simps(6) sock_pc.distinct)+
  have e: "can_close s \<Longrightarrow> e" using sock_invD(4) [OF inv] by (auto simp: inv_signal_def)
  show "sock_inv N c e (wait_event t s)" if "can_close s"
    using cnt [of "wait_event t s"] sig [of "wait_event t s"] wake [of "wait_event t s"] c
      sock_invD(3) [OF inv] e [OF that]
    by (auto simp: sock_inv_def wait_event_def goto_def inv_open_def inv_drained_def)
  show "sock_inv N c e (wait_timeout t s)"
    using cnt [of "wait_timeout t s"] sig [of "wait_timeout t s"] wake [of "wait_timeout t s"] c
      sock_invD(3) [OF inv]
    by (auto simp: sock_inv_def wait_timeout_def goto_def inv_open_def inv_drained_def)
qed

lemma nowait_inv:
  assumes inv: "sock_inv N c e s" and t: "t < N" "N < 2 ^ 61" "pc s t = NoWait"
  shows "sock_inv N c True (wait_set_event_bit t s)"
proof -
  have s': "wait_set_event_bit t s =
      s\<lparr>invoke_cnt := word_of (counted N (pc s)) c True, closed := True, pc := (pc s)(t := Idle)\<rparr>"
    using sock_invD(6) [OF inv] word_of_or(2) [OF counted_small [OF t(2)]]
    by (simp add: wait_set_event_bit_def goto_def)
  have "counted N ((pc s)(t := Idle)) = counted N (pc s)" using counted_upd(3) [OF t(1), of "pc s"] t(3) by simp
  then have "inv_count N c True (wait_set_event_bit t s)"
    using sock_invD(7) [OF inv] t(1) by (auto simp: inv_count_def s')
  moreover have "inv_open c True (wait_set_event_bit t s)"
    using inv_open_closing [OF sock_invD(2) [OF inv], of t] t(3) by (simp add: inv_open_def)
  moreover have "inv_drained True (wait_set_event_bit t s)"
    using sock_invD(3) [OF inv] t(3) unfolding s' inv_drained_def by auto
  moreover have "inv_signal True (wait_set_event_bit t s)"
    using sock_invD(4) [OF inv] unfolding s' inv_signal_def by auto
  moreover have "inv_wakeup True (wait_set_event_bit t s)"
    using sock_invD(5) [OF inv] t(3) unfolding s' inv_wakeup_def by auto
  ultimately show ?thesis by (simp add: sock_inv_def)
qed

lemma sock_step_inv:
  assumes "sock_step N s s'" "sock_inv N c e s" "N < 2 ^ 61"
  shows "\<exists>c e. sock_inv N c e s'"
  using assms
  by (cases rule: sock_step.cases)
    (blast intro: enter_inv leave_inv set_inv signal_inv close_enter_inv closed_inv nowait_inv)+

lemma sock_inv_reachable:
  assumes "(sock_step N)\<^sup>*\<^sup>* new_socket s" "N < 2 ^ 61"
  shows "\<exists>c e. sock_inv N c e s"
  using assms(1)
proof (induction rule: rtranclp_induct)
  case base
  then show ?case using sock_inv_init by blast
next
  case (step s s')
  then show ?case using sock_step_inv assms(2) by blast
qed

section \<open>Properties\<close>

lemma sock_inv_closed_enter:
  assumes "sock_inv N c e s" "N < 2 ^ 61" "t < N" "pc s t = Idle" "closed s"
  shows "pc (invoke_enter t s) t = Refused"
proof -
  have c: c using sock_invD(2) [OF assms(1)] assms(5) by (auto simp: inv_open_def)
  have n: "Suc (counted N (pc s)) < 2 ^ 61"
    using counted_Suc_le [OF assms(3), of "pc s"] assms(2,4) by simp
  have "bit (invoke_cnt s + 1) 61"
    unfolding sock_invD(6) [OF assms(1)] word_of_plus [OF n] using c by (simp add: bit_word_of [OF n])
  then show ?thesis by (simp add: invoke_enter_def CLOSING_test goto_def)
qed

text \<open>C11. Closing a socket, under any interleaving of fewer than \<open>2 ^ 61\<close> threads that call into the
  network stack and close the socket: once \<open>wait_invokers\<close> has returned success because the count
  was zero or the event was signalled, no thread is inside a call, and every later call is refused.
  The event is signalled at most once. A closing thread is not left waiting: when all others have
  left, the event is signalled.\<close>

theorem close_waits_for_calls:
  assumes "(sock_step N)\<^sup>*\<^sup>* new_socket s" "N < 2 ^ 61"
  shows "(closed s \<longrightarrow> (\<forall>t. pc s t \<noteq> InCall) \<and>
      (\<forall>t < N. pc s t = Idle \<longrightarrow> pc (invoke_enter t s) t = Refused)) \<and>
    signals s \<le> 1 \<and>
    ((\<exists>t. pc s t = Waits) \<and> (\<forall>u. pc s u = Idle \<or> pc s u = Waits) \<longrightarrow> can_close s)"
proof -
  obtain c e where inv: "sock_inv N c e s" using sock_inv_reachable [OF assms] by blast
  have "pc s t \<noteq> InCall" if "closed s" for t
    using sock_invD(3) [OF inv] that by (auto simp: inv_drained_def)
  moreover have "signals s \<le> 1" using sock_invD(4) [OF inv] by (simp add: inv_signal_def)
  moreover have "can_close s" if w: "pc s t = Waits" and others: "\<And>u. pc s u = Idle \<or> pc s u = Waits" for t
  proof -
    have "\<not> active (pc s u)" "pc s u \<noteq> SetsEvent" "pc s u \<noteq> LastOut" for u using others [of u] by auto
    then have "signals s = 1"
      using sock_invD(5) [OF inv, unfolded inv_wakeup_def, rule_format, OF w] by auto
    then show ?thesis using sock_invD(4) [OF inv] by (simp add: inv_signal_def)
  qed
  ultimately show ?thesis using sock_inv_closed_enter [OF inv assms(2)] by blast
qed

theorem close_waits_for_calls_witness:
  "\<exists>s. (sock_step 2)\<^sup>*\<^sup>* new_socket s \<and> closed s \<and> (\<forall>t. pc s t \<noteq> InCall) \<and> signals s = 1"
proof -
  define s1 where "s1 = invoke_enter 0 new_socket"
  define s2 where "s2 = wait_enter 1 s1"
  define s3 where "s3 = invoke_leave 0 s2"
  define s4 where "s4 = invoke_test_and_set 0 s3"
  define s5 where "s5 = invoke_signal 0 s4"
  define s6 where "s6 = wait_event 1 s5"
  have not_event: "\<not> bit CLOSING 62" by (simp add: bit_flag_words)
  have one: "(1 :: u64) AND CLOSING = 0" by (simp add: CLOSING_def)
  have w1: "s1 = new_socket\<lparr>invoke_cnt := 1, pc := (\<lambda>_. Idle)(0 := InCall)\<rparr>"
    by (simp add: s1_def invoke_enter_def new_socket_def goto_def one)
  have w2: "s2 = new_socket\<lparr>invoke_cnt := 1 OR CLOSING, pc := (\<lambda>_. Idle)(0 := InCall, 1 := Waits)\<rparr>"
    by (simp add: s2_def w1 wait_enter_def new_socket_def goto_def one)
  have "(1 OR CLOSING) - 1 = CLOSING" by (simp add: CLOSING_def)
  then have w3: "s3 = new_socket\<lparr>invoke_cnt := CLOSING, pc := (\<lambda>_. Idle)(0 := LastOut, 1 := Waits)\<rparr>"
    by (simp add: s3_def w2 invoke_leave_def new_socket_def goto_def fun_upd_twist)
  have w4: "s4 = new_socket\<lparr>invoke_cnt := CLOSING OR EVENT_SET, pc := (\<lambda>_. Idle)(0 := SetsEvent, 1 := Waits)\<rparr>"
    using not_event by (simp add: s4_def w3 invoke_test_and_set_def EVENT_SET_OFFSET_def new_socket_def goto_def fun_upd_twist)
  have "sock_step 2 new_socket s1" unfolding s1_def by (rule sock_step.intros(1)) (simp_all add: new_socket_def)
  moreover have "sock_step 2 s1 s2" unfolding s2_def by (rule sock_step.intros(5)) (simp_all add: w1)
  moreover have "sock_step 2 s2 s3" unfolding s3_def by (rule sock_step.intros(2)) (simp_all add: w2)
  moreover have "sock_step 2 s3 s4" unfolding s4_def by (rule sock_step.intros(3)) (simp_all add: w3)
  moreover have "sock_step 2 s4 s5" unfolding s5_def by (rule sock_step.intros(4)) (simp_all add: w4)
  moreover have "sock_step 2 s5 s6" unfolding s6_def
    by (rule sock_step.intros(6)) (simp_all add: s5_def w4 invoke_signal_def goto_def)
  ultimately have r: "(sock_step 2)\<^sup>*\<^sup>* new_socket s6" by (meson r_into_rtranclp rtranclp_trans)
  have "closed s6" "signals s6 = 1"
    by (simp_all add: s6_def wait_event_def s5_def invoke_signal_def w4 goto_def new_socket_def)
  with close_waits_for_calls [OF r] r show ?thesis by auto
qed

end
