(* ===== verification/Reattach.thy ===== *)
theory Reattach
  imports Vhci_Ports "HOL-Library.Monad_Syntax"
begin

text \<open>
  Attach attempts in the background (\<open>persistent.cpp\<close>, \<open>persistent.h\<close>, \<open>init_constants\<close> of \<open>vhci.cpp\<close>).
  A device that cannot be attached is tried again after a delay that grows by half each time up to a
  maximum; the number of attempts is limited so that all delays together stay below 72 hours. Each
  series of attempts is one \<open>WDFREQUEST\<close> with the context \<open>attach_ctx\<close>, which is in turn sent to the
  driver itself and waits for its timer; the requests are kept in the collection \<open>reattach_req\<close>.
\<close>

section \<open>Delays\<close>

text \<open>The product is computed in 64 bits.\<close>

definition get_next_delay :: "u32 \<Rightarrow> u32 \<Rightarrow> u32" where
  "get_next_delay delay max_delay =
     (if delay \<noteq> max_delay then
        let next = (3 * ucast delay :: u64) div 2 in
        if next < ucast max_delay then ucast next else max_delay
      else delay)"

text \<open>The loop of \<open>get_max_attach_attempts\<close>, which does not end for a delay of zero.\<close>

partial_function (option) attempts_loop :: "u32 \<Rightarrow> u32 \<Rightarrow> u32 \<Rightarrow> u32 \<Rightarrow> u32 \<Rightarrow> u32 option" where
  "attempts_loop delay max_delay max_total_delay tot cnt =
     (let tot = tot + delay in
      if tot \<le> max_total_delay
      then attempts_loop (get_next_delay delay max_delay) max_delay max_total_delay tot (cnt + 1)
      else Some cnt)"

definition get_max_attach_attempts :: "u32 \<Rightarrow> u32 \<Rightarrow> u32 \<Rightarrow> u32 option" where
  "get_max_attach_attempts first_delay max_delay max_total_delay =
     attempts_loop first_delay max_delay max_total_delay 0 0"

definition HOUR :: u32 where "HOUR = 3600"
definition DEF_FIRST_DELAY :: u32 where "DEF_FIRST_DELAY = 30"
definition DEF_MAX_DELAY :: u32 where "DEF_MAX_DELAY = 480"
definition DEF_MAX_ATTEMPTS :: u32 where "DEF_MAX_ATTEMPTS = 20"
definition MIN_DELAY :: u32 where "MIN_DELAY = 1"
definition MAX_DELAY :: u32 where "MAX_DELAY = HOUR"
definition MAX_TOTAL_DELAY :: u32 where "MAX_TOTAL_DELAY = 72 * HOUR"

lemmas delay_consts = HOUR_def DEF_FIRST_DELAY_def DEF_MAX_DELAY_def DEF_MAX_ATTEMPTS_def MIN_DELAY_def
  MAX_DELAY_def MAX_TOTAL_DELAY_def

definition in_range :: "u32 \<Rightarrow> u32" where
  "in_range val = max MIN_DELAY (min val MAX_DELAY)"

text \<open>The registry: \<open>None\<close> if the key cannot be opened; each value, in the order of the code, \<open>None\<close> if
  it cannot be read, which leaves the variable unchanged. The variables are those of the zeroed
  context. \<open>None\<close> as result: \<open>get_max_attach_attempts\<close> does not return.\<close>

type_synonym delays_registry = "(u32 option \<times> u32 option \<times> u32 option) option"

definition init_constants :: "delays_registry \<Rightarrow> u32 \<times> u32 \<times> u32 \<Rightarrow> (u32 \<times> u32 \<times> u32) option" where
  "init_constants reg vars =
     (case reg of
        None \<Rightarrow> Some (DEF_MAX_ATTEMPTS, DEF_FIRST_DELAY, DEF_MAX_DELAY)
      | Some (a, f, m) \<Rightarrow>
          (case vars of (max_attempts, first_delay, max_delay) \<Rightarrow>
             let max_attempts = (case a of None \<Rightarrow> max_attempts | Some v \<Rightarrow> v);
                 first_delay = (case f of None \<Rightarrow> first_delay | Some v \<Rightarrow> v);
                 max_delay = (case m of None \<Rightarrow> max_delay | Some v \<Rightarrow> v);
                 first_delay = (if first_delay \<noteq> 0 then in_range first_delay else DEF_FIRST_DELAY);
                 max_delay = (if max_delay \<noteq> 0 then in_range max_delay else DEF_MAX_DELAY);
                 (first_delay, max_delay) =
                   (if first_delay > max_delay then (max_delay, first_delay) else (first_delay, max_delay))
             in do {
               n \<leftarrow> get_max_attach_attempts first_delay max_delay MAX_TOTAL_DELAY;
               Some (if max_attempts > n then n else max_attempts, first_delay, max_delay)
             }))"

section \<open>One series of attempts\<close>

text \<open>The fields of \<open>vhci_ctx\<close> that the attempts depend on.\<close>

record reattach_cfg =
  reattach_max_attempts :: u32
  reattach_first_delay :: u32
  reattach_max_delay :: u32

text \<open>Where the request is: sent to the driver, waiting for its timer, or deleted. \<open>ar_sent\<close> and
  \<open>ar_waited\<close> count the sends and the seconds of all timers.\<close>

datatype attach_phase = Sent | TimerSet u32 | Deleted

record attach_ctx =
  ar_location_hash :: u32
  ar_retry_cnt :: u32
  ar_delay :: u32
  ar_phase :: attach_phase
  ar_sent :: nat
  ar_waited :: nat

text \<open>\<open>as_usbip_status\<close> maps the status to the enumeration of the USBIP codes, in which other codes
  are none of the cases.\<close>

definition can_reattach :: "vhci_hub \<Rightarrow> u32 \<Rightarrow> ntstatus \<Rightarrow> bool" where
  "can_reattach h location_hash status =
     (case status of
        USBIP_ERROR_ABI \<Rightarrow> False
      | USBIP_ERROR_VERSION \<Rightarrow> False
      | USBIP_ERROR_PROTOCOL \<Rightarrow> False
      | USBIP_ERROR_ST_DEV_BUSY \<Rightarrow> \<not> has_device h location_hash
      | _ \<Rightarrow> status \<noteq> STATUS_CANCELLED)"

text \<open>\<open>WdfIoTargetFormatRequestForIoctl\<close> and \<open>WdfRequestSend\<close>: if one fails the request is deleted.\<close>

definition send_plugin_hardware :: "ntstatus \<Rightarrow> bool \<Rightarrow> attach_ctx \<Rightarrow> attach_ctx" where
  "send_plugin_hardware fmt sent r =
     (if fmt \<noteq> STATUS_SUCCESS then r\<lparr>ar_phase := Deleted\<rparr>
      else if \<not> sent then r\<lparr>ar_phase := Deleted\<rparr>
      else r\<lparr>ar_phase := Sent, ar_sent := ar_sent r + 1\<rparr>)"

definition start_timer :: "u32 \<Rightarrow> attach_ctx \<Rightarrow> attach_ctx" where
  "start_timer secs r = r\<lparr>ar_phase := TimerSet secs, ar_waited := ar_waited r + unat secs\<rparr>"

definition on_plugin_hardware ::
    "reattach_cfg \<Rightarrow> vhci_hub \<Rightarrow> bool \<Rightarrow> ntstatus \<Rightarrow> ntstatus \<Rightarrow> attach_ctx \<Rightarrow> attach_ctx" where
  "on_plugin_hardware cfg h removing reuse st r =
     (let retry_cnt = ar_retry_cnt r;
          r = r\<lparr>ar_retry_cnt := retry_cnt + 1\<rparr>;
          failed = NT_ERROR st;
          retry = (failed \<and> retry_cnt < reattach_max_attempts cfg \<and> can_reattach h (ar_location_hash r) st);
          ok = (retry \<and> \<not> removing)
      in if \<not> ok then r\<lparr>ar_phase := Deleted\<rparr>
         else if reuse \<noteq> STATUS_SUCCESS then r\<lparr>ar_phase := Deleted\<rparr>
         else let delay = ar_delay r in
           start_timer delay (r\<lparr>ar_delay := get_next_delay delay (reattach_max_delay cfg)\<rparr>))"

definition on_attach_timer :: "bool \<Rightarrow> ntstatus \<Rightarrow> bool \<Rightarrow> attach_ctx \<Rightarrow> attach_ctx" where
  "on_attach_timer removing fmt sent r =
     (if removing then r\<lparr>ar_phase := Deleted\<rparr> else send_plugin_hardware fmt sent r)"

definition init_attach_ctx :: "reattach_cfg \<Rightarrow> u32 \<Rightarrow> attach_ctx" where
  "init_attach_ctx cfg location_hash =
     \<lparr>ar_location_hash = location_hash, ar_retry_cnt = 0, ar_delay = reattach_first_delay cfg,
      ar_phase = Deleted, ar_sent = 0, ar_waited = 0\<rparr>"

text \<open>\<open>count\<close> is the number of requests in the collection, \<open>created\<close> tells whether
  \<open>create_attach_request\<close> succeeds. The delay of a postponed first attempt is 30 seconds.\<close>

definition start_attach_attempts ::
    "reattach_cfg \<Rightarrow> bool \<Rightarrow> u32 \<Rightarrow> int \<Rightarrow> bool \<Rightarrow> ntstatus \<Rightarrow> bool \<Rightarrow> u32 \<Rightarrow> bool \<Rightarrow> attach_ctx option" where
  "start_attach_attempts cfg removing count dev_cnt created fmt sent location_hash delayed =
     (if removing then None
      else if count \<ge> 4 * word_of_int dev_cnt then None
      else if \<not> created then None
      else let r = init_attach_ctx cfg location_hash in
        if \<not> delayed then Some (send_plugin_hardware fmt sent r)
        else Some (start_timer 30 (r\<lparr>ar_retry_cnt := ar_retry_cnt r + 1\<rparr>)))"

inductive attach_step :: "reattach_cfg \<Rightarrow> attach_ctx \<Rightarrow> attach_ctx \<Rightarrow> bool" for cfg where
  attach_completed: "ar_phase r = Sent \<Longrightarrow> attach_step cfg r (on_plugin_hardware cfg h removing reuse st r)"
| attach_timer: "ar_phase r = TimerSet secs \<Longrightarrow> attach_step cfg r (on_attach_timer removing fmt sent r)"

section \<open>The collection of requests\<close>

type_synonym reattach_req = "(wdf_handle \<times> u32) list"

fun reattach_req_remove :: "wdf_handle \<Rightarrow> reattach_req \<Rightarrow> reattach_req" where
  "reattach_req_remove request [] = []"
| "reattach_req_remove request (x # xs) =
     (if fst x = request then xs else x # reattach_req_remove request xs)"

text \<open>\<open>!location_hash || location_hash == get_attach_ctx(req)->location_hash\<close>\<close>

definition hash_matches :: "u32 \<Rightarrow> wdf_handle \<times> u32 \<Rightarrow> bool" where
  "hash_matches location_hash x \<longleftrightarrow> location_hash = 0 \<or> location_hash = snd x"

fun reattach_req_remove_hash :: "u32 \<Rightarrow> reattach_req \<Rightarrow> wdf_handle option \<times> reattach_req" where
  "reattach_req_remove_hash location_hash [] = (None, [])"
| "reattach_req_remove_hash location_hash (x # xs) =
     (if hash_matches location_hash x then (Some (fst x), xs)
      else case reattach_req_remove_hash location_hash xs of (r, xs) \<Rightarrow> (r, x # xs))"

lemma reattach_req_remove_hash_length:
  "reattach_req_remove_hash hash xs = (Some r, xs') \<Longrightarrow> length xs' < length xs"
  by (induction xs arbitrary: xs') (auto split: if_splits prod.splits)

text \<open>The requests that are cancelled, in order, and what is left; the result of the code is their
  number.\<close>

function stop_attach_loop :: "u32 \<Rightarrow> reattach_req \<Rightarrow> wdf_handle list \<times> reattach_req" where
  "stop_attach_loop location_hash xs =
     (case reattach_req_remove_hash location_hash xs of
        (None, _) \<Rightarrow> ([], xs)
      | (Some r, xs) \<Rightarrow> (case stop_attach_loop location_hash xs of (rs, xs) \<Rightarrow> (r # rs, xs)))"
  by pat_completeness auto
termination
  by (relation "measure (\<lambda>(_, xs). length xs)") (auto dest: reattach_req_remove_hash_length [OF sym])

declare stop_attach_loop.simps [simp del]

definition stop_attach_attempts :: "u32 \<Rightarrow> reattach_req \<Rightarrow> int \<times> wdf_handle list \<times> reattach_req" where
  "stop_attach_attempts location_hash xs =
     (case stop_attach_loop location_hash xs of (rs, xs) \<Rightarrow> (int (length rs), rs, xs))"

section \<open>Delays: bounds\<close>

text \<open>The sum of the first \<open>n\<close> delays.\<close>

fun total_delay :: "nat \<Rightarrow> u32 \<Rightarrow> u32 \<Rightarrow> nat" where
  "total_delay 0 d m = 0"
| "total_delay (Suc n) d m = unat d + total_delay n (get_next_delay d m) m"

definition delay_ok :: "u32 \<Rightarrow> u32 \<Rightarrow> bool" where
  "delay_ok d m \<longleftrightarrow> 1 \<le> unat d \<and> unat d \<le> unat m \<and> unat m \<le> 3600"

lemma unat_next_delay:
  assumes "delay_ok d m"
  shows "unat (get_next_delay d m) = min (3 * unat d div 2) (unat m)"
proof -
  have d: "unat d \<le> 3600" "1 \<le> unat d" "unat d \<le> unat m" using assms by (auto simp: delay_ok_def)
  have up: "unat (ucast w :: u64) = unat w" for w :: u32
  proof -
    have "unat w < 2 ^ 64" by (rule less_trans [OF unat_u32_lt]) simp
    then show ?thesis by (simp add: unsigned_ucast_eq take_bit_nat_eq_self)
  qed
  have n: "unat ((3 * ucast d :: u64) div 2) = 3 * unat d div 2"
    using d(1) by (simp add: unat_div unat_word_ariths up)
  have "((3 * ucast d :: u64) div 2 < ucast m) = (3 * unat d div 2 < unat m)"
    by (simp add: word_less_nat_alt n up)
  moreover have "unat (ucast ((3 * ucast d :: u64) div 2) :: u32) = 3 * unat d div 2"
    using d(1) by (simp add: unsigned_ucast_eq n take_bit_nat_eq_self)
  ultimately show ?thesis
    using d(2,3) by (auto simp: get_next_delay_def Let_def min_def)
qed

lemma next_delay_ok: "delay_ok d m \<Longrightarrow> delay_ok (get_next_delay d m) m"
  by (auto simp: delay_ok_def unat_next_delay)

lemma total_delay_ge: "delay_ok d m \<Longrightarrow> n \<le> total_delay n d m"
proof (induction n arbitrary: d)
  case (Suc n)
  then show ?case using Suc.IH [OF next_delay_ok [OF Suc.prems]] by (simp add: delay_ok_def)
qed simp

lemma total_delay_mono: "n \<le> k \<Longrightarrow> total_delay n d m \<le> total_delay k d m"
proof (induction n arbitrary: d k)
  case (Suc n)
  then obtain k' where "k = Suc k'" by (cases k) auto
  then show ?case using Suc by simp
qed simp

lemma attempts_loop_spec:
  assumes "delay_ok d m" "unat T \<le> 259200" "unat tot \<le> unat T"
  shows "\<exists>n. attempts_loop d m T tot cnt = Some (cnt + of_nat n) \<and>
    unat tot + total_delay n d m \<le> unat T \<and> unat T < unat tot + total_delay (Suc n) d m"
  using assms
proof (induction "unat T - unat tot" arbitrary: d tot cnt rule: less_induct)
  case less
  have d: "1 \<le> unat d" "unat d \<le> 3600" using less.prems(1) by (auto simp: delay_ok_def)
  have t: "unat (tot + d) = unat tot + unat d"
    using less.prems d by (simp add: unat_word_ariths)
  show ?case
  proof (cases "tot + d \<le> T")
    case True
    then have le: "unat (tot + d) \<le> unat T" by (simp add: word_le_nat_alt)
    have "unat T - unat (tot + d) < unat T - unat tot" using t d le by linarith
    from less.hyps [OF this next_delay_ok [OF less.prems(1)] less.prems(2) le, of "cnt + 1"]
    obtain n where n: "attempts_loop (get_next_delay d m) m T (tot + d) (cnt + 1) = Some (cnt + 1 + of_nat n)"
      "unat (tot + d) + total_delay n (get_next_delay d m) m \<le> unat T"
      "unat T < unat (tot + d) + total_delay (Suc n) (get_next_delay d m) m" by blast
    have "attempts_loop d m T tot cnt = Some (cnt + of_nat (Suc n))"
      using n(1) True by (subst attempts_loop.simps) (simp add: add.assoc)
    moreover have "unat tot + total_delay (Suc n) d m \<le> unat T" using n(2) t by simp
    moreover have "unat T < unat tot + total_delay (Suc (Suc n)) d m" using n(3) t by simp
    ultimately show ?thesis by blast
  next
    case False
    then have "attempts_loop d m T tot cnt = Some (cnt + of_nat 0)" by (subst attempts_loop.simps) simp
    moreover have "unat T < unat tot + total_delay (Suc 0) d m" using False t by (simp add: word_le_nat_alt)
    ultimately show ?thesis using less.prems(3) by fastforce
  qed
qed

lemma get_max_attach_attempts_spec:
  assumes "delay_ok d m" "unat T \<le> 259200"
  shows "\<exists>n. get_max_attach_attempts d m T = Some n \<and> total_delay (unat n) d m \<le> unat T \<and>
    unat T < total_delay (Suc (unat n)) d m"
proof -
  obtain n where n: "attempts_loop d m T 0 0 = Some (of_nat n)" "total_delay n d m \<le> unat T"
      "unat T < total_delay (Suc n) d m"
    using attempts_loop_spec [OF assms, of 0 0] by auto
  have "n \<le> 259200" using total_delay_ge [OF assms(1), of n] n(2) assms(2) by linarith
  then have "unat (of_nat n :: u32) = n" by (simp add: unat_of_nat take_bit_nat_eq_self)
  with n show ?thesis by (auto simp: get_max_attach_attempts_def)
qed

text \<open>The default: \<open>static_assert(DEF_MAX_ATTEMPTS == 20)\<close>.\<close>

lemma default_total:
  "total_delay 20 DEF_FIRST_DELAY DEF_MAX_DELAY \<le> 7200 \<and> 7200 < total_delay 21 DEF_FIRST_DELAY DEF_MAX_DELAY"
  by code_simp

lemma default_attempts: "get_max_attach_attempts DEF_FIRST_DELAY DEF_MAX_DELAY (2 * HOUR) = Some DEF_MAX_ATTEMPTS"
proof -
  obtain n where n: "get_max_attach_attempts DEF_FIRST_DELAY DEF_MAX_DELAY (2 * HOUR) = Some n"
    "total_delay (unat n) DEF_FIRST_DELAY DEF_MAX_DELAY \<le> 7200"
    "7200 < total_delay (Suc (unat n)) DEF_FIRST_DELAY DEF_MAX_DELAY"
    using get_max_attach_attempts_spec [of DEF_FIRST_DELAY DEF_MAX_DELAY "2 * HOUR"]
    by (auto simp: delay_consts delay_ok_def)
  have "unat n = 20"
    using total_delay_mono [of 21 "unat n" DEF_FIRST_DELAY DEF_MAX_DELAY]
      total_delay_mono [of "Suc (unat n)" 20 DEF_FIRST_DELAY DEF_MAX_DELAY] n default_total by linarith
  then have "of_nat (unat n) = (20 :: u32)" by simp
  then have "n = 20" by simp
  then show ?thesis using n(1) by (simp add: DEF_MAX_ATTEMPTS_def)
qed

lemma in_range_bounds: "1 \<le> unat (in_range v)" "unat (in_range v) \<le> 3600"
  by (auto simp: in_range_def delay_consts max_def min_def word_le_nat_alt)

lemma init_constants_spec:
  "\<exists>a f m. init_constants reg vars = Some (a, f, m) \<and> delay_ok f m \<and> total_delay (unat a) f m \<le> 259200"
proof (cases reg)
  case None
  have "unat DEF_MAX_ATTEMPTS = 20" by (simp add: DEF_MAX_ATTEMPTS_def)
  then have "total_delay (unat DEF_MAX_ATTEMPTS) DEF_FIRST_DELAY DEF_MAX_DELAY \<le> 259200"
    by (simp only:) (rule le_trans [OF conjunct1 [OF default_total]], simp)
  moreover have "delay_ok DEF_FIRST_DELAY DEF_MAX_DELAY" by (simp add: delay_ok_def delay_consts)
  ultimately show ?thesis unfolding None init_constants_def by (simp del: total_delay.simps)
next
  case (Some v)
  define a f m where "a = (case fst v of None \<Rightarrow> fst vars | Some x \<Rightarrow> x)"
    and "f = (case fst (snd v) of None \<Rightarrow> fst (snd vars) | Some x \<Rightarrow> x)"
    and "m = (case snd (snd v) of None \<Rightarrow> snd (snd vars) | Some x \<Rightarrow> x)"
  define f' m' where "f' = (if f \<noteq> 0 then in_range f else DEF_FIRST_DELAY)"
    and "m' = (if m \<noteq> 0 then in_range m else DEF_MAX_DELAY)"
  define f'' m'' where "f'' = (if f' > m' then m' else f')" and "m'' = (if f' > m' then f' else m')"
  have "1 \<le> unat f'" "unat f' \<le> 3600" "1 \<le> unat m'" "unat m' \<le> 3600"
    using in_range_bounds by (simp_all add: f'_def m'_def delay_consts)
  then have ok: "delay_ok f'' m''"
    by (auto simp: delay_ok_def f''_def m''_def word_less_nat_alt)
  have "unat MAX_TOTAL_DELAY = 259200" by (simp add: delay_consts)
  with get_max_attach_attempts_spec [OF ok, of MAX_TOTAL_DELAY]
  obtain n where n: "get_max_attach_attempts f'' m'' MAX_TOTAL_DELAY = Some n"
    "total_delay (unat n) f'' m'' \<le> 259200" by auto
  have "init_constants reg vars = Some (if a > n then n else a, f'', m'')"
  proof -
    have "init_constants reg vars =
        (case if f' > m' then (m', f') else (f', m') of (fd, md) \<Rightarrow>
           get_max_attach_attempts fd md MAX_TOTAL_DELAY \<bind>
             (\<lambda>n. Some (if a > n then n else a, fd, md)))"
      unfolding init_constants_def Some f'_def m'_def a_def f_def m_def Let_def
      by (simp only: option.case prod.case_eq_if)
    also have "\<dots> = get_max_attach_attempts f'' m'' MAX_TOTAL_DELAY \<bind> (\<lambda>n. Some (if a > n then n else a, f'', m''))"
      by (cases "f' > m'") (simp_all add: f''_def m''_def)
    finally show ?thesis using n(1) by simp
  qed
  moreover have "unat (if a > n then n else a) \<le> unat n" by (simp add: word_less_nat_alt)
  then have "total_delay (unat (if a > n then n else a)) f'' m'' \<le> 259200"
    by (rule le_trans [OF total_delay_mono n(2)])
  ultimately show ?thesis using ok by blast
qed

section \<open>A series of attempts ends\<close>

fun nth_delay :: "nat \<Rightarrow> u32 \<Rightarrow> u32 \<Rightarrow> u32" where
  "nth_delay 0 d m = d"
| "nth_delay (Suc n) d m = get_next_delay (nth_delay n d m) m"

lemma nth_delay_shift: "nth_delay n (get_next_delay d m) m = get_next_delay (nth_delay n d m) m"
  by (induction n) simp_all

lemma total_delay_snoc: "total_delay (Suc n) d m = total_delay n d m + unat (nth_delay n d m)"
proof (induction n arbitrary: d)
  case (Suc n)
  show ?case using Suc.IH [of "get_next_delay d m"] by (simp add: nth_delay_shift)
qed simp

text \<open>After \<open>n\<close> steps: \<open>j\<close> delays have been chosen, one is subtracted from the limit if the first
  attempt was postponed (\<open>b\<close>).\<close>

definition attach_inv :: "reattach_cfg \<Rightarrow> nat \<Rightarrow> attach_ctx \<Rightarrow> bool" where
  "attach_inv cfg n r \<longleftrightarrow>
     (let M = unat (reattach_max_attempts cfg);
          f = reattach_first_delay cfg; m = reattach_max_delay cfg in
      ar_sent r \<le> M + 1 \<and> ar_waited r \<le> 30 + total_delay M f m \<and> n \<le> 2 * M + 2 \<and>
      (ar_phase r \<noteq> Deleted \<longrightarrow>
        (\<exists>j b. j \<le> M \<and> b \<le> 1 \<and> unat (ar_retry_cnt r) = j + b \<and>
           ar_waited r = 30 * b + total_delay j f m \<and> ar_delay r = nth_delay j f m \<and>
           (if ar_phase r = Sent then ar_sent r = j + 1 \<and> n = 2 * j + b
            else ar_sent r = j \<and> n + 1 = 2 * j + b))))"

lemma attach_inv_start:
  assumes "start_attach_attempts cfg removing count dc created fmt sent hash delayed = Some r"
  shows "attach_inv cfg 0 r"
proof (cases delayed)
  case True
  then have r: "r = start_timer 30 ((init_attach_ctx cfg hash)\<lparr>ar_retry_cnt := 1\<rparr>)"
    using assms by (auto simp: start_attach_attempts_def init_attach_ctx_def Let_def split: if_splits)
  have "ar_phase r \<noteq> Deleted" "ar_phase r \<noteq> Sent" "ar_waited r = 30" "ar_sent r = 0" "unat (ar_retry_cnt r) = 1"
    "ar_delay r = reattach_first_delay cfg"
    by (simp_all add: r start_timer_def init_attach_ctx_def)
  then show ?thesis unfolding attach_inv_def Let_def
    by (intro conjI impI exI [of _ 0] exI [of _ 1]) simp_all
next
  case False
  then have r: "r = send_plugin_hardware fmt sent (init_attach_ctx cfg hash)"
    using assms by (auto simp: start_attach_attempts_def Let_def split: if_splits)
  then have "ar_waited r = 0" "ar_retry_cnt r = 0" "ar_delay r = reattach_first_delay cfg"
    "ar_phase r = Deleted \<and> ar_sent r = 0 \<or> ar_phase r = Sent \<and> ar_sent r = 1"
    by (auto simp: send_plugin_hardware_def init_attach_ctx_def)
  then show ?thesis unfolding attach_inv_def Let_def
    by (intro conjI impI exI [of _ 0]) auto
qed

lemma attach_inv_step:
  assumes small: "unat (reattach_max_attempts cfg) \<le> 259200"
    and inv: "attach_inv cfg n r" and step: "attach_step cfg r r'"
  shows "attach_inv cfg (Suc n) r'"
proof -
  let ?M = "unat (reattach_max_attempts cfg)" and ?f = "reattach_first_delay cfg" and ?m = "reattach_max_delay cfg"
  have "ar_phase r \<noteq> Deleted" using step by (auto elim: attach_step.cases)
  then obtain j b where j: "j \<le> ?M" "b \<le> 1" "unat (ar_retry_cnt r) = j + b"
      "ar_waited r = 30 * b + total_delay j ?f ?m" "ar_delay r = nth_delay j ?f ?m"
    and ph: "if ar_phase r = Sent then ar_sent r = j + 1 \<and> n = 2 * j + b else ar_sent r = j \<and> n + 1 = 2 * j + b"
    using inv by (auto simp: attach_inv_def Let_def)
  have tj: "total_delay j ?f ?m \<le> total_delay ?M ?f ?m" using j(1) by (rule total_delay_mono)
  have del: "attach_inv cfg (Suc n) r'" if "ar_phase r' = Deleted" "ar_sent r' \<le> j + 1" "ar_waited r' = ar_waited r"
      "Suc n \<le> 2 * j + b + 1" for r'
    using that j tj by (auto simp: attach_inv_def Let_def)
  from step show ?thesis
  proof cases
    case (attach_completed h removing reuse st)
    then have sent: "ar_sent r = j + 1" "n = 2 * j + b" using ph by simp_all
    show ?thesis
    proof (cases "ar_phase r' = Deleted")
      case True
      then show ?thesis
        using attach_completed sent
        by (intro del) (auto simp: on_plugin_hardware_def Let_def start_timer_def split: if_splits)
    next
      case False
      then have r': "r' = start_timer (ar_delay r) (r\<lparr>ar_retry_cnt := ar_retry_cnt r + 1,
            ar_delay := get_next_delay (ar_delay r) ?m\<rparr>)"
        and lt: "ar_retry_cnt r < reattach_max_attempts cfg"
        using attach_completed by (auto simp: on_plugin_hardware_def Let_def split: if_splits)
      have jb: "j + b < ?M" using lt j(3) by (simp add: word_less_nat_alt)
      have "unat (ar_retry_cnt r + 1) = Suc (j + b)"
        using jb small j(3) by (simp add: unat_word_ariths)
      moreover have "ar_waited r + unat (ar_delay r) = 30 * b + total_delay (Suc j) ?f ?m"
        using j(4,5) total_delay_snoc [of j ?f ?m] by simp
      moreover have "total_delay (Suc j) ?f ?m \<le> total_delay ?M ?f ?m"
        using jb by (intro total_delay_mono) simp
      ultimately show ?thesis
        unfolding attach_inv_def Let_def
        using jb j(2,5) sent
        by (intro conjI impI exI [of _ "Suc j"] exI [of _ b]) (auto simp: r' start_timer_def)
    qed
  next
    case (attach_timer secs removing fmt sent)
    then have t: "ar_sent r = j" "n + 1 = 2 * j + b" using ph by simp_all
    show ?thesis
    proof (cases "ar_phase r' = Deleted")
      case True
      then show ?thesis
        using attach_timer t
        by (intro del) (auto simp: on_attach_timer_def send_plugin_hardware_def split: if_splits)
    next
      case False
      then have r': "r' = r\<lparr>ar_phase := Sent, ar_sent := ar_sent r + 1\<rparr>"
        using attach_timer by (auto simp: on_attach_timer_def send_plugin_hardware_def split: if_splits)
      show ?thesis
        unfolding attach_inv_def Let_def
        using j tj t by (intro conjI impI exI [of _ j] exI [of _ b]) (auto simp: r')
    qed
  qed
qed

lemma attach_inv_run:
  assumes "unat (reattach_max_attempts cfg) \<le> 259200"
    and "start_attach_attempts cfg removing count dc created fmt sent hash delayed = Some r"
    and "(attach_step cfg ^^ n) r r'"
  shows "attach_inv cfg n r'"
  using assms(3)
proof (induction n arbitrary: r')
  case 0
  then show ?case using attach_inv_start [OF assms(2)] by simp
next
  case (Suc n)
  then obtain r1 where "(attach_step cfg ^^ n) r r1" "attach_step cfg r1 r'" by auto
  then show ?case using attach_inv_step [OF assms(1)] Suc.IH by blast
qed

text \<open>C12. Attempts to attach a device in the background end. Whatever the registry holds, the driver
  computes its limits, and with them a series of attempts, whatever the servers answer, sends its
  request at most once more than the configured number of retries, waits no longer than 72 hours and
  30 seconds in total, and is over after at most two steps for each retry and two more.\<close>

theorem attach_attempts_end:
  "\<exists>attempts first_delay max_delay.
     init_constants reg (0, 0, 0) = Some (attempts, first_delay, max_delay) \<and>
     (\<forall>cfg removing count dc created fmt sent hash delayed r r' n.
        cfg = \<lparr>reattach_max_attempts = attempts, reattach_first_delay = first_delay,
               reattach_max_delay = max_delay\<rparr> \<longrightarrow>
        start_attach_attempts cfg removing count dc created fmt sent hash delayed = Some r \<longrightarrow>
        (attach_step cfg ^^ n) r r' \<longrightarrow>
        ar_sent r' \<le> unat attempts + 1 \<and> ar_waited r' \<le> 30 + 72 * 60 * 60 \<and> n \<le> 2 * unat attempts + 2)"
proof -
  obtain a f m where i: "init_constants reg (0, 0, 0) = Some (a, f, m)" "delay_ok f m"
    "total_delay (unat a) f m \<le> 259200" using init_constants_spec by blast
  then have a: "unat a \<le> 259200" using total_delay_ge [OF i(2), of "unat a"] by linarith
  have "ar_sent r' \<le> unat a + 1 \<and> ar_waited r' \<le> 30 + 72 * 60 * 60 \<and> n \<le> 2 * unat a + 2"
    if "start_attach_attempts \<lparr>reattach_max_attempts = a, reattach_first_delay = f, reattach_max_delay = m\<rparr>
        removing count dc created fmt sent hash delayed = Some r"
      "(attach_step \<lparr>reattach_max_attempts = a, reattach_first_delay = f, reattach_max_delay = m\<rparr> ^^ n) r r'"
    for removing count dc created fmt sent hash delayed r r' n
    using attach_inv_run [OF _ that] a i(3) by (auto simp: attach_inv_def Let_def)
  with i(1) show ?thesis by blast
qed

theorem attach_attempts_end_witness:
  "\<exists>r r' cfg n. start_attach_attempts cfg False 0 2 True STATUS_SUCCESS True 5 False = Some r \<and>
     (attach_step cfg ^^ n) r r' \<and> ar_phase r' = TimerSet 30 \<and> ar_sent r' \<le> 21 \<and> n \<le> 42 \<and> n = 1"
proof -
  define cfg where "cfg = \<lparr>reattach_max_attempts = 20, reattach_first_delay = 30, reattach_max_delay = 480\<rparr>"
  define h where "h = \<lparr>usb2_ports = 1, devices_cnt = 2, devices = [],
    device_of = \<lambda>_ :: wdf_handle. \<lparr>dev_speed = 3, dev_location_hash = 1 :: u32, dev_port = 0, dev_refs = 1\<rparr>\<rparr>"
  have ex: "init_constants None (0, 0, 0) = Some (20, 30, 480)"
    by (simp add: init_constants_def delay_consts)
  define r where "r = send_plugin_hardware STATUS_SUCCESS True (init_attach_ctx cfg 5)"
  have s: "start_attach_attempts cfg False 0 2 True STATUS_SUCCESS True 5 False = Some r"
    by (simp add: start_attach_attempts_def r_def)
  define r' where "r' = on_plugin_hardware cfg h False STATUS_SUCCESS STATUS_UNSUCCESSFUL r"
  have "attach_step cfg r r'"
    unfolding r'_def by (rule attach_completed) (simp add: r_def send_plugin_hardware_def)
  then have st: "(attach_step cfg ^^ 1) r r'" by auto
  have ph: "ar_phase r' = TimerSet 30"
    by (simp add: r'_def on_plugin_hardware_def r_def send_plugin_hardware_def init_attach_ctx_def cfg_def
        start_timer_def NT_ERROR_def NT_SUCCESS_def NT_WARNING_def can_reattach_def)
  from attach_attempts_end [of None] obtain a f m where l: "init_constants None (0, 0, 0) = Some (a, f, m)"
    "start_attach_attempts \<lparr>reattach_max_attempts = a, reattach_first_delay = f, reattach_max_delay = m\<rparr>
       False 0 2 True STATUS_SUCCESS True 5 False = Some r \<longrightarrow>
     (attach_step \<lparr>reattach_max_attempts = a, reattach_first_delay = f, reattach_max_delay = m\<rparr> ^^ 1) r r' \<longrightarrow>
     ar_sent r' \<le> unat a + 1 \<and> (1 :: nat) \<le> 2 * unat a + 2" by blast
  then have "ar_sent r' \<le> 21" using ex s st by (simp add: cfg_def)
  with s st ph show ?thesis by (intro exI [of _ r] exI [of _ r'] exI [of _ cfg] exI [of _ 1]) simp
qed

section \<open>Stopping the attempts\<close>

lemma remove_hash_eq:
  "reattach_req_remove_hash hash xs = (case dropWhile (\<lambda>x. \<not> hash_matches hash x) xs of
     [] \<Rightarrow> (None, xs)
   | x # rest \<Rightarrow> (Some (fst x), takeWhile (\<lambda>x. \<not> hash_matches hash x) xs @ rest))"
proof (induction xs)
  case (Cons a xs)
  then show ?case
    by (cases "dropWhile (\<lambda>x. \<not> hash_matches hash x) xs") (simp_all del: dropWhile_eq_Nil_conv)
qed simp

text \<open>All requests of the location, or all if it is zero, are cancelled, each once and in order; the
  others stay.\<close>

lemma stop_attach_loop_eq:
  "stop_attach_loop hash xs =
     (map fst (filter (hash_matches hash) xs), filter (\<lambda>x. \<not> hash_matches hash x) xs)"
proof (induction hash xs rule: stop_attach_loop.induct)
  case (1 hash xs)
  let ?P = "hash_matches hash"
  show ?case
  proof (cases "dropWhile (\<lambda>x. \<not> ?P x) xs")
    case Nil
    then have "\<forall>x \<in> set xs. \<not> ?P x" by (simp add: dropWhile_eq_Nil_conv)
    then have "filter ?P xs = []" "filter (\<lambda>x. \<not> ?P x) xs = xs"
      by (simp_all add: filter_empty_conv filter_id_conv)
    then show ?thesis using Nil
      by (subst stop_attach_loop.simps) (simp add: remove_hash_eq del: dropWhile_eq_Nil_conv)
  next
    case (Cons x rest)
    let ?pre = "takeWhile (\<lambda>x. \<not> ?P x) xs"
    have xs: "xs = ?pre @ x # rest" using takeWhile_dropWhile_id [of "\<lambda>x. \<not> ?P x" xs] Cons by simp
    have x: "?P x" using Cons hd_dropWhile [of "\<lambda>x. \<not> ?P x" xs] by simp
    have pre: "\<forall>y \<in> set ?pre. \<not> ?P y" using set_takeWhileD by metis
    have r: "reattach_req_remove_hash hash xs = (Some (fst x), ?pre @ rest)"
      using Cons by (simp add: remove_hash_eq)
    have "filter ?P xs = x # filter ?P (?pre @ rest)" "filter (\<lambda>x. \<not> ?P x) xs = filter (\<lambda>x. \<not> ?P x) (?pre @ rest)"
      using pre x by (subst xs, simp add: filter_empty_conv)+
    then show ?thesis
      using 1 [OF r [symmetric]] by (subst stop_attach_loop.simps) (simp add: r)
  qed
qed

lemma stop_attach_attempts_eq:
  "stop_attach_attempts hash xs =
     (int (length (filter (hash_matches hash) xs)),
      map fst (filter (hash_matches hash) xs),
      filter (\<lambda>x. \<not> hash_matches hash x) xs)"
  by (simp add: stop_attach_attempts_def stop_attach_loop_eq)

end
