(* ===== verification/Attach.thy ===== *)
theory Attach
  imports Device_Filter Headers Vhci_Events
begin

text \<open>
  Attaching a device (\<open>vhci_ioctl.cpp\<close>, \<open>device.cpp\<close>): the work item \<open>complete\<close> connects to the server,
  imports the device, asks the filter, creates the emulated device from the accepted descriptors,
  claims a port and plugs the device in; \<open>detach\<close> undoes it. This theory composes the models of the
  network transfers, of the filter, of the root hub and of the notifications.

  The memory \<open>ctx_ext\<close> with the attributes of the device belongs first to the work item and then to
  the device; \<open>wi_holds\<close> and \<open>dev_holds\<close> tell who has its handle and \<open>ext_alive\<close> whether it exists. An
  access after its deletion is the outcome \<open>UseAfterFree\<close>. What the framework, UdeCx and the network
  stack answer to one attach is the record \<open>plug_env\<close>.
\<close>

section \<open>Importing the device\<close>

text \<open>\<open>RtlUnicodeToUTF8N\<close> on the string at hand is \<open>rtl\<close>: from the size of the buffer to the status and
  the bytes written, at most as many as the buffer has.\<close>

definition unicode_to_utf8 :: "(nat \<Rightarrow> ntstatus \<times> bytes) \<Rightarrow> bytes \<Rightarrow> ntstatus \<times> bytes" where
  "unicode_to_utf8 rtl buf =
     (case rtl (length buf) of (st, out) \<Rightarrow>
        let buf' = overwrite buf 0 out in
        (st, if length out < length buf then buf'[length out := 0] else buf'))"

text \<open>\<open>strncmp\<close> of two arrays of the given size returns zero.\<close>

fun strncmp_equal :: "nat \<Rightarrow> bytes \<Rightarrow> bytes \<Rightarrow> bool" where
  "strncmp_equal (Suc n) (a # as) (b # bs) =
     (if a \<noteq> b then False else if a = 0 then True else strncmp_equal n as bs)"
| "strncmp_equal n as bs = True"

record device_ctx_ext =
  dx_ext :: device_ext
  dx_vendor :: u16
  dx_product :: u16
  dx_location_hash :: u32

definition send_req_import :: "(nat \<Rightarrow> ntstatus \<times> bytes) \<Rightarrow> kenv \<Rightarrow> ntstatus \<times> kenv" where
  "send_req_import rtl env =
     (case unicode_to_utf8 rtl (replicate BUS_ID_SIZE 0) of (err, busid) \<Rightarrow>
        if err \<noteq> STATUS_SUCCESS then (err, env)
        else send env
          (op_common_bytes (byteswap_op_common
             \<lparr>op_version = USBIP_VERSION, op_code = OP_REQ_IMPORT, op_status = 0\<rparr>) @ busid))"

text \<open>\<open>junk\<close> is what the buffer for the name holds before.\<close>

definition recv_rep_import ::
    "(nat \<Rightarrow> ntstatus \<times> bytes) \<Rightarrow> bytes \<Rightarrow> kenv \<Rightarrow> ntstatus \<times> usbip_usb_device \<times> kenv" where
  "recv_rep_import rtl junk env =
     (let zero = usb_device_of_bytes (replicate sizeof_usbip_usb_device 0) in
      case recv_op_common env OP_REP_IMPORT of (err, env) \<Rightarrow>
        if err \<noteq> STATUS_SUCCESS then (err, zero, env)
        else case recv env (replicate sizeof_usbip_usb_device 0) sizeof_usbip_usb_device of
          (err, bs, env) \<Rightarrow>
            if err \<noteq> STATUS_SUCCESS then (err, usb_device_of_bytes bs, env)
            else
              let udev = byteswap_usb_device (usb_device_of_bytes bs) in
              case unicode_to_utf8 rtl junk of (err, busid) \<Rightarrow>
                if err \<noteq> STATUS_SUCCESS then (err, udev, env)
                else if \<not> strncmp_equal (length busid) (ud_busid udev) busid then (USBIP_ERROR_PROTOCOL, udev, env)
                else (STATUS_SUCCESS, udev, env))"

definition set_properties :: "usbip_usb_device \<Rightarrow> device_ctx_ext \<Rightarrow> device_ctx_ext" where
  "set_properties udev x =
     x\<lparr>dx_ext := (dx_ext x)\<lparr>ext_devid := make_devid (ucast (ud_busnum udev)) (ucast (ud_devnum udev)),
                            ext_speed := sint (ud_speed udev)\<rparr>,
       dx_vendor := ud_idVendor udev, dx_product := ud_idProduct udev\<rparr>"

text \<open>The arguments of the filter: the registry, the scratch buffer, and the descriptor search.\<close>

record 'r filter_env =
  fe_api :: "'r registry_api"
  fe_registry :: 'r
  fe_tmp :: bytes
  fe_parse :: "bytes \<Rightarrow> nat \<Rightarrow> nat \<Rightarrow> u8 \<Rightarrow> nat option"

definition import_remote_device ::
    "'r filter_env \<Rightarrow> (nat \<Rightarrow> ntstatus \<times> bytes) \<Rightarrow> bytes \<Rightarrow> device_ctx_ext \<Rightarrow>
     (ntstatus \<times> device_ctx_ext) option" where
  "import_remote_device fe rtl junk x =
     (let set_env = (\<lambda>x env. x\<lparr>dx_ext := (dx_ext x)\<lparr>kernel := env\<rparr>\<rparr>) in
      case send_req_import rtl (kernel (dx_ext x)) of (err, env) \<Rightarrow>
        if err \<noteq> STATUS_SUCCESS then Some (err, set_env x env)
        else case recv_rep_import rtl junk env of (err, udev, env) \<Rightarrow>
          if err \<noteq> STATUS_SUCCESS then Some (err, set_env x env)
          else
            let x = set_properties udev (set_env x env) in
            case check_device (fe_api fe) (fe_registry fe) (fe_tmp fe) (fe_parse fe) (dx_ext x) udev of
              None \<Rightarrow> None
            | Some (err, e) \<Rightarrow>
                if err \<noteq> STATUS_SUCCESS then Some (err, x\<lparr>dx_ext := e\<rparr>)
                else Some (STATUS_SUCCESS, x\<lparr>dx_ext := e\<rparr>))"

section \<open>The emulated device\<close>

datatype udecx_speed = UdecxUsbLowSpeed | UdecxUsbFullSpeed | UdecxUsbHighSpeed | UdecxUsbSuperSpeed

definition to_udex_speed :: "int \<Rightarrow> udecx_speed" where
  "to_udex_speed speed =
     (if speed = 6 \<or> speed = 5 then UdecxUsbSuperSpeed
      else if speed = 4 \<or> speed = 3 then UdecxUsbHighSpeed
      else if speed = 2 then UdecxUsbFullSpeed
      else if speed = 1 then UdecxUsbLowSpeed
      else UdecxUsbHighSpeed)"

text \<open>\<open>vd_plugged\<close>: UdeCx has the device in a port; the descriptors are those it was given.\<close>

record emulated_device =
  vd_speed :: udecx_speed
  vd_device_descriptor :: "bytes option"
  vd_configurations :: "bytes list"
  vd_unplugged :: bool
  vd_thread :: bool
  vd_plugged :: bool
  vd_deleted :: bool

record attach_state =
  hub :: vhci_hub
  dev :: "emulated_device option"
  ext :: device_ctx_ext
  ext_alive :: bool
  wi_holds :: bool
  dev_holds :: bool
  sock_open :: bool
  req_port :: int
  states :: "(int \<times> vhci_state) list"
  restarts :: "bool list"

text \<open>The answers: allocation of the init structure, additions of the device descriptor (0) and of
  configuration \<open>i\<close> (\<open>i + 1\<close>), creation of the device and of its locks, plugging in, the receive
  thread, plugging out and whether that destroys the device at once, whether UdeCx had added the
  default endpoint, and closing of the socket.\<close>

record plug_env =
  pe_init :: bool
  pe_add :: "nat \<Rightarrow> ntstatus"
  pe_create :: ntstatus
  pe_locks :: "ntstatus list"
  pe_plugin :: ntstatus
  pe_thread :: ntstatus
  pe_plugout :: ntstatus
  pe_plugout_deletes :: bool
  pe_ep0_added :: bool
  pe_close :: ntstatus

definition log_state :: "int \<Rightarrow> vhci_state \<Rightarrow> attach_state \<Rightarrow> attach_state" where
  "log_state port st s = s\<lparr>states := states s @ [(port, st)]\<rparr>"

definition upd_dev :: "(emulated_device \<Rightarrow> emulated_device) \<Rightarrow> attach_state \<Rightarrow> attach_state" where
  "upd_dev f s = s\<lparr>dev := map_option f (dev s)\<rparr>"

fun add_configurations :: "(nat \<Rightarrow> ntstatus) \<Rightarrow> nat \<Rightarrow> bytes option list \<Rightarrow> ntstatus \<times> bytes list" where
  "add_configurations add i [] = (STATUS_SUCCESS, [])"
| "add_configurations add i (config # r) =
     (case config of
        None \<Rightarrow> (STATUS_INVALID_DEVICE_STATE, [])
      | Some data \<Rightarrow>
          if data = [] then (STATUS_INVALID_DEVICE_STATE, [])
          else if add (i + 1) \<noteq> STATUS_SUCCESS then (add (i + 1), [])
          else case add_configurations add (i + 1) r of (st, ds) \<Rightarrow> (st, data # ds))"

definition add_snapshot_descriptors ::
    "(nat \<Rightarrow> ntstatus) \<Rightarrow> device_ext \<Rightarrow> ntstatus \<times> bytes option \<times> bytes list" where
  "add_snapshot_descriptors add e =
     (if \<not> snap_ready e then (STATUS_SUCCESS, None, [])
      else if add 0 \<noteq> STATUS_SUCCESS then (add 0, None, [])
      else case add_configurations add 0 (take (snap_configuration_count e) (snap_configurations e)) of
        (st, ds) \<Rightarrow> (st, Some (snap_device e), ds))"

definition init_device :: "ntstatus list \<Rightarrow> ntstatus" where
  "init_device locks =
     (case filter (\<lambda>st. st \<noteq> STATUS_SUCCESS) (take 3 locks) of [] \<Rightarrow> STATUS_SUCCESS | st # _ \<Rightarrow> st)"

text \<open>The context of a new device is zero; the framework holds one reference.\<close>

definition new_device :: "wdf_handle \<Rightarrow> attach_state \<Rightarrow> vhci_hub" where
  "new_device d s =
     set_device (hub s) d (\<lambda>_. \<lparr>dev_speed = ext_speed (dx_ext (ext s)),
       dev_location_hash = dx_location_hash (ext s), dev_port = 0, dev_refs = 1\<rparr>)"

definition create :: "plug_env \<Rightarrow> wdf_handle \<Rightarrow> attach_state \<Rightarrow> ntstatus \<times> attach_state" where
  "create env d s =
     (if \<not> pe_init env then (STATUS_INSUFFICIENT_RESOURCES, s)
      else case add_snapshot_descriptors (pe_add env) (dx_ext (ext s)) of
        (err, device, configs) \<Rightarrow>
          if err \<noteq> STATUS_SUCCESS then (err, s)
          else if pe_create env \<noteq> STATUS_SUCCESS then (pe_create env, s)
          else
            let s = s\<lparr>hub := new_device d s, dev_holds := True,
                      dev := Some \<lparr>vd_speed = to_udex_speed (ext_speed (dx_ext (ext s))),
                        vd_device_descriptor = device, vd_configurations = configs, vd_unplugged = False,
                        vd_thread = False, vd_plugged = False, vd_deleted = False\<rparr>\<rparr>
            in (init_device (pe_locks env), s))"

definition plugin :: "plug_env \<Rightarrow> wdf_handle \<Rightarrow> attach_state \<Rightarrow> ntstatus \<times> bool \<times> attach_state" where
  "plugin env d s =
     (case claim_roothub_port (hub s) d of (h, port) \<Rightarrow>
        let s = s\<lparr>hub := h, req_port := port\<rparr> in
        if port = 0 then (USBIP_ERROR_PORTFULL, False, s)
        else if pe_plugin env \<noteq> STATUS_SUCCESS then (pe_plugin env, False, s)
        else
          let s = upd_dev (\<lambda>v. v\<lparr>vd_plugged := True\<rparr>) s in
          if pe_thread env \<noteq> STATUS_SUCCESS then (pe_thread env, True, s)
          else (STATUS_SUCCESS, True, upd_dev (\<lambda>v. v\<lparr>vd_thread := True\<rparr>) s))"

text \<open>\<open>close_socket\<close> succeeds once.\<close>

definition close_socket :: "plug_env \<Rightarrow> attach_state \<Rightarrow> bool \<times> attach_state" where
  "close_socket env s =
     (if sock_open s \<and> pe_close env = STATUS_SUCCESS then (True, s\<lparr>sock_open := False\<rparr>) else (False, s))"

text \<open>The destruction of the device object calls \<open>device_cleanup\<close>, which deletes the memory.\<close>

definition destroy_device :: "attach_state \<Rightarrow> attach_state" where
  "destroy_device s = (upd_dev (\<lambda>v. v\<lparr>vd_deleted := True\<rparr>) s)\<lparr>ext_alive := False, dev_holds := False\<rparr>"

definition plugout_and_delete :: "plug_env \<Rightarrow> int \<Rightarrow> bool \<Rightarrow> attach_state \<Rightarrow> attach_state" where
  "plugout_and_delete env port force_delete s =
     (let s = log_state port unplugging s in
      if pe_plugout env \<noteq> STATUS_SUCCESS then s
      else
        let s = upd_dev (\<lambda>v. v\<lparr>vd_plugged := False\<rparr>) s;
            s = log_state port Vhci_Events.unplugged s
        in if force_delete \<or> pe_plugout_deletes env then destroy_device s else s)"

text \<open>\<open>restarts\<close> records the calls of \<open>start_attach_attempts\<close> with their argument \<open>delayed\<close>.\<close>

definition detach :: "plug_env \<Rightarrow> wdf_handle \<Rightarrow> bool \<Rightarrow> bool \<Rightarrow> attach_state \<Rightarrow> attach_state" where
  "detach env d plugout reattach s =
     (case dev s of
        None \<Rightarrow> s
      | Some v \<Rightarrow>
          if vd_unplugged v then s
          else
            let s = upd_dev (\<lambda>v. v\<lparr>vd_unplugged := True\<rparr>) s;
                (was_closed, s) = close_socket env s;
                s = (if was_closed then log_state (dev_port (device_of (hub s) d)) disconnected s else s);
                s = upd_dev (\<lambda>v. v\<lparr>vd_thread := False\<rparr>) s;
                (h, port) = reclaim_roothub_port (hub s) d;
                s = s\<lparr>hub := h\<rparr>;
                s = (if plugout then plugout_and_delete env port (\<not> pe_ep0_added env) s else s)
            in if reattach then s\<lparr>restarts := restarts s @ [plugout]\<rparr> else s)"

text \<open>\<open>WdfObjectDelete(dev)\<close> of a device that was not plugged in: \<open>device_cleanup\<close> detaches it, which
  has been done.\<close>

definition delete_device :: "plug_env \<Rightarrow> wdf_handle \<Rightarrow> attach_state \<Rightarrow> attach_state" where
  "delete_device env d s = destroy_device (detach env d False False s)"

definition connected ::
    "'r filter_env \<Rightarrow> (nat \<Rightarrow> ntstatus \<times> bytes) \<Rightarrow> bytes \<Rightarrow> plug_env \<Rightarrow> wdf_handle \<Rightarrow> attach_state \<Rightarrow>
     (ntstatus \<times> attach_state) option" where
  "connected fe rtl junk env d s =
     (let s = log_state 0 Vhci_Events.connected s in
      case import_remote_device fe rtl junk (ext s) of
        None \<Rightarrow> None
      | Some (err, x) \<Rightarrow>
          let s = s\<lparr>ext := x\<rparr> in
          if err \<noteq> STATUS_SUCCESS then Some (err, s)
          else case create env d s of (err, s) \<Rightarrow>
            if err \<noteq> STATUS_SUCCESS then Some (err, s)
            else
              let s = s\<lparr>wi_holds := False\<rparr> in
              case plugin env d s of (err, in_port, s) \<Rightarrow>
                if err \<noteq> STATUS_SUCCESS then
                  let s = detach env d in_port False s;
                      s = (if \<not> in_port then delete_device env d s else s)
                  in Some (err, s)
                else Some (STATUS_SUCCESS, log_state (dev_port (device_of (hub s) d)) Vhci_Events.plugged s))"

section \<open>Descriptors that reach UdeCx\<close>

lemma add_configurations_success:
  "add_configurations add i cs = (STATUS_SUCCESS, ds) \<Longrightarrow> map Some ds = cs"
proof (induction cs arbitrary: i ds)
  case (Cons c cs)
  obtain st es where r: "add_configurations add (i + 1) cs = (st, es)" by fastforce
  with Cons.prems obtain d where "c = Some d" "st = STATUS_SUCCESS" "ds = d # es"
    by (cases c) (simp_all split: if_splits)
  then show ?case using Cons.IH [OF r [unfolded \<open>st = STATUS_SUCCESS\<close>]] by simp
qed simp

text \<open>What the snapshot of an accepted device is (\<^const>\<open>check_device\<close>).\<close>

definition snapshot_accepted :: "policy \<Rightarrow> device_ext \<Rightarrow> bool" where
  "snapshot_accepted p e \<longleftrightarrow>
     snap_ready e \<and> is_valid_device (snap_device e) \<and> snap_configurations e \<noteq> [] \<and>
     snap_configuration_count e = length (snap_configurations e) \<and>
     (\<forall>c \<in> set (snap_configurations e). \<exists>d ds. c = Some d \<and> acceptable (allowed_by p) d ds)"

text \<open>What UdeCx was given for a device.\<close>

definition presents :: "policy \<Rightarrow> emulated_device \<Rightarrow> bool" where
  "presents p v \<longleftrightarrow>
     (\<exists>dd. vd_device_descriptor v = Some dd \<and> is_valid_device dd) \<and> vd_configurations v \<noteq> [] \<and>
     (\<forall>c \<in> set (vd_configurations v). \<exists>ds. acceptable (allowed_by p) c ds)"

lemma add_snapshot_descriptors_success:
  assumes "snapshot_accepted p e" "add_snapshot_descriptors add e = (STATUS_SUCCESS, dd, cs)"
  shows "dd = Some (snap_device e)" "map Some cs = snap_configurations e"
  using assms add_configurations_success [of add 0 "snap_configurations e" cs]
  by (auto simp: snapshot_accepted_def add_snapshot_descriptors_def split: if_splits prod.splits)

lemma presents_snapshot:
  assumes "snapshot_accepted p e" "map Some cs = snap_configurations e"
    "vd_device_descriptor v = Some (snap_device e)" "vd_configurations v = cs"
  shows "presents p v"
proof -
  have "Some c \<in> set (snap_configurations e)" if "c \<in> set cs" for c
    using that unfolding assms(2) [symmetric] by simp
  moreover have "cs \<noteq> []" using assms(1) unfolding snapshot_accepted_def assms(2) [symmetric] by simp
  ultimately show ?thesis
    using assms(1,3,4) by (fastforce simp: presents_def snapshot_accepted_def)
qed

lemma import_cases:
  assumes "descriptor_search (fe_parse fe)"
  obtains st x' where "import_remote_device fe rtl junk x = Some (st, x')"
    "dx_location_hash x' = dx_location_hash x"
    "st = STATUS_SUCCESS \<Longrightarrow> snapshot_accepted (load (fe_api fe) (fe_registry fe) (fe_tmp fe)) (dx_ext x')"
proof -
  let ?p = "load (fe_api fe) (fe_registry fe) (fe_tmp fe)"
  have "\<exists>st e. check_device (fe_api fe) (fe_registry fe) (fe_tmp fe) (fe_parse fe) y u = Some (st, e) \<and>
    (st = STATUS_SUCCESS \<longrightarrow> snapshot_accepted ?p e)" for y u
    by (rule check_device_result [OF assms, where api = "fe_api fe" and r = "fe_registry fe" and
        tmp = "fe_tmp fe" and ext = y and udev = u])
      (auto simp: snapshot_accepted_def in_set_conv_nth unat_gt_0 simp flip: length_greater_0_conv)
  then obtain st e where c: "check_device (fe_api fe) (fe_registry fe) (fe_tmp fe) (fe_parse fe) y u =
      Some (st y u, e y u)" "st y u = STATUS_SUCCESS \<longrightarrow> snapshot_accepted ?p (e y u)" for y u
    by metis
  have "\<exists>st x'. import_remote_device fe rtl junk x = Some (st, x') \<and>
      dx_location_hash x' = dx_location_hash x \<and> (st = STATUS_SUCCESS \<longrightarrow> snapshot_accepted ?p (dx_ext x'))"
    using c(2) by (auto simp: import_remote_device_def Let_def set_properties_def c(1) split: prod.splits)
  then show thesis using that by blast
qed

section \<open>The root hub during an attach\<close>

lemma new_device_hub:
  assumes "hub_wf (hub s)" "d \<noteq> WDF_NO_HANDLE" "port_of (hub s) d = 0"
  shows "hub_wf (new_device d s)" "roothub (new_device d s) = roothub (hub s)"
    "port_of (new_device d s) d = 0"
proof -
  have "roothub (hub s) p \<noteq> Some d" for p using hub_wfD(4) [OF assms(1,2), of p] assms(3) by simp
  then show "hub_wf (new_device d s)"
    by (intro hub_wf_update [OF assms(1,2)]) (simp_all add: new_device_def port_of_def)
qed (simp_all add: new_device_def port_of_def)

lemma claim_result:
  assumes "hub_wf h" "d \<noteq> WDF_NO_HANDLE" "port_of h d = 0" "claim_roothub_port h d = (h', p)"
  shows "hub_wf h'" "port_of h' d = p" "p = 0 \<Longrightarrow> roothub h' = roothub h"
    "p \<noteq> 0 \<Longrightarrow> roothub h p = None \<and> roothub h' = (roothub h)(p \<mapsto> d)"
  using claim_refines [OF assms] port_candidates_bounds(1) [OF assms(1), of 0]
  by (auto simp: abs_claim_def dest!: find_SomeD split: option.splits)

lemma claim_empty:
  assumes "hub_wf h" "\<And>p. roothub h p = None"
  shows "snd (claim_roothub_port h d) \<noteq> 0"
proof -
  have "find (\<lambda>p. roothub h p = None) (port_candidates h s) = Some (hd (port_candidates h s))" for s
    using hub_wfD(1,2) [OF assms(1)] assms(2)
    by (cases "port_candidates h s") (auto simp: port_candidates_def split: if_splits)
  moreover obtain h' p where c: "claim_roothub_port h d = (h', p)" by force
  ultimately show ?thesis
    using claim_cases [OF assms(1) c] port_candidates_bounds(1) [OF assms(1)] find_SomeD
    by (metis less_le not_one_le_zero option.distinct(1) snd_conv)
qed

text \<open>Releasing the port restores the table from before the claim.\<close>

lemma abs_reclaim_claimed:
  assumes "hub_wf h" "d \<noteq> WDF_NO_HANDLE" "port_of h d = 0"
    and "m = roothub h \<or> (\<exists>p. roothub h p = None \<and> m = (roothub h)(p \<mapsto> d))"
  shows "abs_reclaim d m = roothub h"
proof -
  have "roothub h p \<noteq> Some d" for p using hub_wfD(4) [OF assms(1,2), of p] assms(3) by simp
  then show ?thesis using assms(4) by (auto simp: abs_reclaim_def intro!: HOL.ext split: if_splits)
qed

section \<open>Detaching\<close>

lemma upd_dev_simps [simp]:
  "dev (upd_dev f s) = map_option f (dev s)" "hub (upd_dev f s) = hub s" "ext (upd_dev f s) = ext s"
  "ext_alive (upd_dev f s) = ext_alive s" "wi_holds (upd_dev f s) = wi_holds s"
  "dev_holds (upd_dev f s) = dev_holds s" "sock_open (upd_dev f s) = sock_open s"
  "req_port (upd_dev f s) = req_port s"
  by (simp_all add: upd_dev_def)

lemma log_state_simps [simp]:
  "dev (log_state p st s) = dev s" "hub (log_state p st s) = hub s" "ext (log_state p st s) = ext s"
  "ext_alive (log_state p st s) = ext_alive s" "wi_holds (log_state p st s) = wi_holds s"
  "dev_holds (log_state p st s) = dev_holds s" "sock_open (log_state p st s) = sock_open s"
  "req_port (log_state p st s) = req_port s"
  by (simp_all add: log_state_def)

lemma detach_idle: "dev s = Some v \<Longrightarrow> vd_unplugged v \<Longrightarrow> detach env d plugout reattach s = s"
  by (simp add: detach_def)

text \<open>The first \<^const>\<open>detach\<close> of a device: the port is released, the thread has ended, the socket is
  closed if closing succeeds, and UdeCx has the device only if it was not plugged out.\<close>

lemma detach_device:
  assumes "dev s = Some v" "\<not> vd_unplugged v" "hub_wf (hub s)" "d \<noteq> WDF_NO_HANDLE"
  obtains v' where "dev (detach env d plugout reattach s) = Some v'" "vd_unplugged v'" "\<not> vd_thread v'"
    "vd_plugged v' \<longleftrightarrow> vd_plugged v \<and> \<not> (plugout \<and> pe_plugout env = STATUS_SUCCESS)"
    "hub_wf (hub (detach env d plugout reattach s))"
    "roothub (hub (detach env d plugout reattach s)) = abs_reclaim d (roothub (hub s))"
    "port_of (hub (detach env d plugout reattach s)) d = 0"
    "sock_open (detach env d plugout reattach s) \<longleftrightarrow> sock_open s \<and> pe_close env \<noteq> STATUS_SUCCESS"
    "wi_holds (detach env d plugout reattach s) = wi_holds s"
    "ext (detach env d plugout reattach s) = ext s"
proof -
  obtain h p where h: "reclaim_roothub_port (hub s) d = (h, p)" by force
  note r = reclaim_refines [OF assms(3,4) h]
  show thesis
    by (rule that [of "v\<lparr>vd_unplugged := True, vd_thread := False,
        vd_plugged := vd_plugged v \<and> \<not> (plugout \<and> pe_plugout env = STATUS_SUCCESS),
        vd_deleted := vd_deleted v \<or> plugout \<and> pe_plugout env = STATUS_SUCCESS \<and>
          (\<not> pe_ep0_added env \<or> pe_plugout_deletes env)\<rparr>"])
      (use assms(1,2) h r in \<open>auto simp: detach_def close_socket_def plugout_and_delete_def Let_def
         destroy_device_def\<close>)
qed

section \<open>Outcome of an attach\<close>

lemma create_result:
  assumes "create env d s = (st, s1)" "st = STATUS_SUCCESS"
    and "snapshot_accepted p (dx_ext (ext s))"
  obtains v where "s1 = s\<lparr>hub := new_device d s, dev_holds := True, dev := Some v\<rparr>" "presents p v"
    "\<not> vd_unplugged v" "\<not> vd_plugged v" "\<not> vd_thread v" "\<not> vd_deleted v"
proof -
  obtain err dd cs where a: "add_snapshot_descriptors (pe_add env) (dx_ext (ext s)) = (err, dd, cs)"
    using prod_cases3 by blast
  let ?v = "\<lparr>vd_speed = to_udex_speed (ext_speed (dx_ext (ext s))), vd_device_descriptor = dd,
    vd_configurations = cs, vd_unplugged = False, vd_thread = False, vd_plugged = False, vd_deleted = False\<rparr>"
  from a assms(1,2) have c: "err = STATUS_SUCCESS"
    "s1 = s\<lparr>hub := new_device d s, dev_holds := True, dev := Some ?v\<rparr>"
    by (auto simp: create_def Let_def split: if_splits)
  note d = add_snapshot_descriptors_success [OF assms(3) a [unfolded c(1)]]
  have "presents p ?v" by (rule presents_snapshot [OF assms(3) d(2)]) (simp_all add: d(1))
  then show thesis using c(2) by (intro that [of ?v]) simp_all
qed

text \<open>A device that could not be created is not in UdeCx, and the table is as before.\<close>

lemma create_error:
  assumes "create env d s = (st, s1)" "hub_wf (hub s)" "d \<noteq> WDF_NO_HANDLE" "port_of (hub s) d = 0" "dev s = None"
  shows "hub_wf (hub s1)" "roothub (hub s1) = roothub (hub s)" "port_of (hub s1) d = 0"
    "dev s1 = None \<or> (\<exists>v. dev s1 = Some v \<and> \<not> vd_plugged v)" "wi_holds s1 = wi_holds s"
    "sock_open s1 = sock_open s" "req_port s1 = req_port s"
  using assms new_device_hub [OF assms(2-4)]
  by (auto simp: create_def Let_def split: if_splits prod.splits)

text \<open>The part of \<^const>\<open>connected\<close> after the creation of the device.\<close>

definition finish_plugin :: "plug_env \<Rightarrow> wdf_handle \<Rightarrow> attach_state \<Rightarrow> ntstatus \<times> attach_state" where
  "finish_plugin env d s =
     (case plugin env d s of (err, in_port, s) \<Rightarrow>
        if err \<noteq> STATUS_SUCCESS then
          let s = detach env d in_port False s;
              s = (if \<not> in_port then delete_device env d s else s)
          in (err, s)
        else (STATUS_SUCCESS, log_state (dev_port (device_of (hub s) d)) Vhci_Events.plugged s))"

text \<open>The table before and after an attach, and what UdeCx has.\<close>

definition attach_done :: "policy \<Rightarrow> wdf_handle \<Rightarrow> attach_state \<Rightarrow> attach_state \<Rightarrow> bool" where
  "attach_done p d s s' \<longleftrightarrow>
     roothub (hub s) (req_port s') = None \<and> roothub (hub s') = (roothub (hub s))(req_port s' \<mapsto> d) \<and>
     (\<exists>v. dev s' = Some v \<and> presents p v \<and> vd_plugged v \<and> vd_thread v \<and> \<not> vd_unplugged v)"

definition attach_undone :: "plug_env \<Rightarrow> attach_state \<Rightarrow> attach_state \<Rightarrow> bool" where
  "attach_undone env s s' \<longleftrightarrow>
     roothub (hub s') = roothub (hub s) \<and>
     (\<forall>v. dev s' = Some v \<longrightarrow> \<not> vd_thread v \<and> (vd_plugged v \<longrightarrow> pe_plugout env \<noteq> STATUS_SUCCESS)) \<and>
     (\<not> wi_holds s' \<longrightarrow> (sock_open s' \<longrightarrow> pe_close env \<noteq> STATUS_SUCCESS))"

lemma delete_device_undone:
  assumes "dev s = Some v" "vd_unplugged v"
  shows "hub (delete_device env d s) = hub s" "sock_open (delete_device env d s) = sock_open s"
    "wi_holds (delete_device env d s) = wi_holds s" "dev (delete_device env d s) = Some (v\<lparr>vd_deleted := True\<rparr>)"
  using assms by (simp_all add: delete_device_def detach_idle destroy_device_def)

lemma undo_plugin:
  assumes h: "hub_wf (hub s0)" "d \<noteq> WDF_NO_HANDLE" "port_of (hub s0) d = 0"
    and s: "hub_wf (hub s)" "dev s = Some v" "\<not> vd_unplugged v" "vd_plugged v = in_port"
    and m: "roothub (hub s) = roothub (hub s0) \<or>
      (\<exists>p. roothub (hub s0) p = None \<and> roothub (hub s) = (roothub (hub s0))(p \<mapsto> d))"
    and s2: "s2 = (if \<not> in_port then delete_device env d (detach env d in_port False s) else detach env d in_port False s)"
  shows "hub_wf (hub s2) \<and> attach_undone env s0 s2 \<and> wi_holds s2 = wi_holds s"
proof (rule detach_device [OF s(2,3,1) h(2), where env = env and plugout = in_port and reattach = False])
  fix v'
  let ?s1 = "detach env d in_port False s"
  assume v': "dev ?s1 = Some v'" "vd_unplugged v'" "\<not> vd_thread v'"
    "vd_plugged v' \<longleftrightarrow> vd_plugged v \<and> \<not> (in_port \<and> pe_plugout env = STATUS_SUCCESS)"
    "hub_wf (hub ?s1)" "roothub (hub ?s1) = abs_reclaim d (roothub (hub s))"
    "sock_open ?s1 \<longleftrightarrow> sock_open s \<and> pe_close env \<noteq> STATUS_SUCCESS" "wi_holds ?s1 = wi_holds s"
  show ?thesis
    using v' abs_reclaim_claimed [OF h m] s(4) delete_device_undone [OF v'(1,2), of env d]
    by (auto simp: s2 attach_undone_def split: if_splits)
qed

lemma finish_plugin_outcome:
  assumes h: "hub_wf (hub s)" "d \<noteq> WDF_NO_HANDLE" "port_of (hub s) d = 0"
    and v: "dev s = Some v" "presents p v" "\<not> vd_unplugged v" "\<not> vd_plugged v"
    and f: "finish_plugin env d s = (st, s')"
  shows "hub_wf (hub s') \<and> wi_holds s' = wi_holds s \<and>
    (if st = STATUS_SUCCESS then req_port s' \<noteq> 0 \<and> attach_done p d s s' else attach_undone env s s')"
proof -
  obtain g port where c: "claim_roothub_port (hub s) d = (g, port)" by force
  note cr = claim_result [OF h c]
  define t where "t = s\<lparr>hub := g, req_port := port\<rparr>"
  show ?thesis
  proof (cases "port = 0 \<or> pe_plugin env \<noteq> STATUS_SUCCESS")
    case True
    then have "finish_plugin env d s = (st, delete_device env d (detach env d False False t))" "st \<noteq> STATUS_SUCCESS"
      using f c by (auto simp: finish_plugin_def plugin_def Let_def t_def split: if_splits)
    moreover have "roothub (hub t) = roothub (hub s) \<or>
      (\<exists>p. roothub (hub s) p = None \<and> roothub (hub t) = (roothub (hub s))(p \<mapsto> d))"
      using cr(3,4) by (cases "port = 0") (auto simp: t_def)
    ultimately show ?thesis using undo_plugin [OF h, where s = t and v = v and in_port = False and env = env] cr(1) v f by (simp add: t_def)
  next
    case False
    define t' where "t' = upd_dev (\<lambda>v. v\<lparr>vd_plugged := True\<rparr>) t"
    show ?thesis
    proof (cases "pe_thread env = STATUS_SUCCESS")
      case True
      then have "st = STATUS_SUCCESS" "s' = log_state port Vhci_Events.plugged (upd_dev (\<lambda>v. v\<lparr>vd_thread := True\<rparr>) t')"
        using False f c cr(2) by (auto simp: finish_plugin_def plugin_def Let_def t_def t'_def port_of_def)
      then show ?thesis using False cr(1,4) v
        by (simp add: attach_done_def t'_def t_def presents_def)
    next
      case nothr: False
      then have "finish_plugin env d s = (st, detach env d True False t')" "st \<noteq> STATUS_SUCCESS"
        using False f c by (auto simp: finish_plugin_def plugin_def Let_def t_def t'_def)
      moreover have "\<exists>p. roothub (hub s) p = None \<and> roothub (hub t') = (roothub (hub s))(p \<mapsto> d)"
        using cr(4) False by (auto simp: t_def t'_def)
      ultimately show ?thesis using undo_plugin [OF h, where s = t' and v = "v\<lparr>vd_plugged := True\<rparr>" and
          in_port = True and env = env] cr(1) v f
        by (simp add: t_def t'_def)
    qed
  qed
qed

lemma connected_eq:
  "connected fe rtl junk env d s =
     (case import_remote_device fe rtl junk (ext s) of
        None \<Rightarrow> None
      | Some (err, x) \<Rightarrow>
          let s = (log_state 0 Vhci_Events.connected s)\<lparr>ext := x\<rparr> in
          if err \<noteq> STATUS_SUCCESS then Some (err, s)
          else case create env d s of (err, s) \<Rightarrow>
            if err \<noteq> STATUS_SUCCESS then Some (err, s)
            else Some (finish_plugin env d (s\<lparr>wi_holds := False\<rparr>)))"
  by (simp add: connected_def finish_plugin_def Let_def split: option.split prod.split)

lemma connected_outcome:
  assumes search: "descriptor_search (fe_parse fe)"
    and h: "hub_wf (hub s)" "d \<noteq> WDF_NO_HANDLE" "port_of (hub s) d = 0" and new: "dev s = None"
  obtains st s' where "connected fe rtl junk env d s = Some (st, s')" "hub_wf (hub s')"
    "st = STATUS_SUCCESS \<Longrightarrow> \<not> wi_holds s' \<and> req_port s' \<noteq> 0 \<and>
       attach_done (load (fe_api fe) (fe_registry fe) (fe_tmp fe)) d s s'"
    "st \<noteq> STATUS_SUCCESS \<Longrightarrow> wi_holds s \<Longrightarrow> attach_undone env s s'"
proof -
  let ?p = "load (fe_api fe) (fe_registry fe) (fe_tmp fe)"
  obtain st x where i: "import_remote_device fe rtl junk (ext s) = Some (st, x)"
      "st = STATUS_SUCCESS \<Longrightarrow> snapshot_accepted ?p (dx_ext x)"
    by (rule import_cases [OF search, where rtl = rtl and junk = junk and x = "ext s"]) blast
  define s1 where "s1 = (log_state 0 Vhci_Events.connected s)\<lparr>ext := x\<rparr>"
  have s1: "hub s1 = hub s" "dev s1 = None" "wi_holds s1 = wi_holds s" "ext s1 = x" using new by (simp_all add: s1_def)
  show thesis
  proof (cases "st = STATUS_SUCCESS")
    case False
    then have "connected fe rtl junk env d s = Some (st, s1)" using i(1) by (simp add: connected_eq s1_def Let_def)
    then show thesis using False h s1 by (intro that [of st s1]) (simp_all add: attach_undone_def)
  next
    case ok: True
    obtain err s2 where c: "create env d s1 = (err, s2)" by force
    note ce = create_error [OF c, unfolded s1, OF h refl]
    show thesis
    proof (cases "err = STATUS_SUCCESS")
      case False
      then have "connected fe rtl junk env d s = Some (err, s2)"
        using i(1) ok c by (simp add: connected_eq s1_def [symmetric] Let_def)
      moreover have "\<not> vd_thread v" if "dev s2 = Some v" for v
        using c s1(2) that by (auto simp: create_def Let_def split: if_splits prod.splits)
      ultimately show thesis using False ce s1 by (intro that [of err s2]) (auto simp: attach_undone_def)
    next
      case True
      define s3 where "s3 = s2\<lparr>wi_holds := False\<rparr>"
      obtain st' s' where f: "finish_plugin env d s3 = (st', s')" by force
      have run: "connected fe rtl junk env d s = Some (st', s')"
        using i(1) ok c True f by (simp add: connected_eq s1_def [symmetric] s3_def Let_def)
      obtain v where v: "s2 = s1\<lparr>hub := new_device d s1, dev_holds := True, dev := Some v\<rparr>" "presents ?p v"
          "\<not> vd_unplugged v" "\<not> vd_plugged v"
        using create_result [OF c True, unfolded s1(4), OF i(2) [OF ok]] by blast
      have s3: "hub_wf (hub s3)" "port_of (hub s3) d = 0" "dev s3 = Some v" "roothub (hub s3) = roothub (hub s)"
        "\<not> wi_holds s3"
        using ce v(1) by (simp_all add: s3_def)
      from finish_plugin_outcome [OF s3(1) h(2) s3(2,3) v(2-4) f] show thesis
        using run s3(4,5) by (intro that [of st' s']) (auto simp: attach_done_def attach_undone_def)
    qed
  qed
qed

section \<open>A concrete attach\<close>

text \<open>The keyboard of \<^const>\<open>sample_udev\<close> under the name \<open>1-2\<close>, and an empty root hub with two ports.\<close>

definition sample_rtl :: "nat \<Rightarrow> ntstatus \<times> bytes" where
  "sample_rtl n = (STATUS_SUCCESS, [0x31, 0x2D, 0x32])"

definition sample_import :: usbip_usb_device where
  "sample_import = sample_udev\<lparr>ud_busid := [0x31, 0x2D, 0x32] @ replicate 29 0\<rparr>"

definition sample_fe :: "(u32 \<times> bytes) option filter_env" where
  "sample_fe = \<lparr>fe_api = mem_registry, fe_registry = sample_registry, fe_tmp = sample_memory,
     fe_parse = find_loop\<rparr>"

definition sample_ctx :: device_ctx_ext where
  "sample_ctx = \<lparr>dx_ext = sample_ext\<lparr>kernel := (kernel sample_ext)
       \<lparr>sends := (STATUS_SUCCESS, 40) # sends (kernel sample_ext),
        receives := (STATUS_SUCCESS, op_common_bytes (byteswap_op_common
            \<lparr>op_version = USBIP_VERSION, op_code = OP_REP_IMPORT, op_status = 0\<rparr>)) #
          (STATUS_SUCCESS, usb_device_bytes (byteswap_usb_device sample_import)) #
          receives (kernel sample_ext)\<rparr>\<rparr>,
     dx_vendor = 0, dx_product = 0, dx_location_hash = 7\<rparr>"

definition sample_start :: attach_state where
  "sample_start = \<lparr>hub = \<lparr>usb2_ports = 1, devices_cnt = 2, devices = [0, 0],
       device_of = (\<lambda>_. \<lparr>dev_speed = 0, dev_location_hash = 0, dev_port = 0, dev_refs = 0\<rparr>)\<rparr>,
     dev = None, ext = sample_ctx, ext_alive = True, wi_holds = True, dev_holds = False, sock_open = True,
     req_port = 0, states = [], restarts = []\<rparr>"

definition sample_plug :: plug_env where
  "sample_plug = \<lparr>pe_init = True, pe_add = (\<lambda>_. STATUS_SUCCESS), pe_create = STATUS_SUCCESS, pe_locks = [],
     pe_plugin = STATUS_SUCCESS, pe_thread = STATUS_SUCCESS, pe_plugout = STATUS_SUCCESS,
     pe_plugout_deletes = True, pe_ep0_added = True, pe_close = STATUS_SUCCESS\<rparr>"

lemma sample_start_empty: "roothub (hub sample_start) p = None"
proof -
  have "nat (p - 1) = 0 \<or> nat (p - 1) = 1" if "0 < p" "p \<le> 2" using that by auto
  then show ?thesis by (auto simp: roothub_def sample_start_def is_valid_port_def WDF_NO_HANDLE_def)
qed

lemma sample_start_hub: "hub_wf (hub sample_start)" "port_of (hub sample_start) 1 = 0" "dev sample_start = None"
  by (simp add: hub_wf_def port_of_def sample_start_empty)
    (simp_all add: sample_start_def port_of_def)

lemma sample_names:
  "unicode_to_utf8 sample_rtl (replicate BUS_ID_SIZE b) =
     (STATUS_SUCCESS, [0x31, 0x2D, 0x32, 0] @ replicate 28 b)"
  by (simp add: unicode_to_utf8_def sample_rtl_def overwrite_def BUS_ID_SIZE_def numeral_eq_Suc)

lemma wf_sample_import: "wf_usb_device sample_import"
  by (simp add: wf_usb_device_def sample_import_def sample_udev_def DEV_PATH_MAX_def BUS_ID_SIZE_def)

lemma sample_send: "send_req_import sample_rtl (kernel (dx_ext sample_ctx)) =
  (STATUS_SUCCESS, (kernel (dx_ext sample_ctx))\<lparr>sends := sends (kernel sample_ext),
     sent_log := [op_common_bytes (byteswap_op_common
             \<lparr>op_version = USBIP_VERSION, op_code = OP_REQ_IMPORT, op_status = 0\<rparr>) @
             [0x31, 0x2D, 0x32, 0] @ replicate 28 0]\<rparr>)"
  by (simp add: send_req_import_def sample_names send_def prepare_mdl_def wsk_send_def transfer_send_def
      WskSend_def sample_ctx_def sample_ext_def Let_def)

lemma recv_all:
  assumes "mdl_prepare env = []" "receives env = (STATUS_SUCCESS, bs) # r" "length bs = n"
  shows "recv env (replicate n 0) n = (STATUS_SUCCESS, bs, env\<lparr>receives := r\<rparr>)"
  using assms by (simp add: recv_def prepare_mdl_def wsk_receive_def transfer_recv_def WskReceive_def overwrite_def)

lemma recv_op_common_ok:
  assumes "mdl_prepare env = []" "receives env = (STATUS_SUCCESS, op_common_bytes (byteswap_op_common
    \<lparr>op_version = USBIP_VERSION, op_code = code, op_status = 0\<rparr>)) # r"
  shows "recv_op_common env code = (STATUS_SUCCESS, env\<lparr>receives := r\<rparr>)"
  using recv_all [OF assms, of 8]
  by (simp add: recv_op_common_def Let_def op_common_codec.sent_is_received op_status_error_zero)

lemma sample_reply:
  assumes "mdl_prepare env = []" "receives env = (STATUS_SUCCESS, op_common_bytes (byteswap_op_common
      \<lparr>op_version = USBIP_VERSION, op_code = OP_REP_IMPORT, op_status = 0\<rparr>)) #
    (STATUS_SUCCESS, usb_device_bytes (byteswap_usb_device sample_import)) # r"
  shows "recv_rep_import sample_rtl (replicate BUS_ID_SIZE b) env =
    (STATUS_SUCCESS, sample_import, env\<lparr>receives := r\<rparr>)"
proof -
  have len: "length (usb_device_bytes (byteswap_usb_device sample_import)) = sizeof_usbip_usb_device"
    by (rule usb_device_codec.length_enc [OF usb_device_codec.wf_to_net [OF wf_sample_import]])
  have same: "strncmp_equal 32 (ud_busid sample_import) ([0x31, 0x2D, 0x32, 0] @ replicate 28 b)"
    by (simp add: sample_import_def numeral_eq_Suc)
  have "recv (env\<lparr>receives := (STATUS_SUCCESS, usb_device_bytes (byteswap_usb_device sample_import)) # r\<rparr>)
      (replicate sizeof_usbip_usb_device 0) sizeof_usbip_usb_device =
      (STATUS_SUCCESS, usb_device_bytes (byteswap_usb_device sample_import), env\<lparr>receives := r\<rparr>)"
    using recv_all [OF _ _ len, where env = "env\<lparr>receives := (STATUS_SUCCESS,
      usb_device_bytes (byteswap_usb_device sample_import)) # r\<rparr>"] assms(1) by simp
  then show ?thesis
    using same by (simp add: recv_rep_import_def recv_op_common_ok [OF assms] sample_names Let_def
        usb_device_codec.sent_is_received [OF wf_sample_import])
qed

lemma sample_imported:
  "\<exists>x. import_remote_device sample_fe sample_rtl (replicate BUS_ID_SIZE b) sample_ctx = Some (STATUS_SUCCESS, x)"
proof -
  obtain env where s: "send_req_import sample_rtl (kernel (dx_ext sample_ctx)) = (STATUS_SUCCESS, env)"
    "mdl_prepare env = []" "sends env = sends (kernel sample_ext)" "allocs env = allocs (kernel sample_ext)"
    "receives env = receives (kernel (dx_ext sample_ctx))"
    using sample_send by (simp add: sample_ctx_def sample_ext_def)
  define x where "x = set_properties sample_import (sample_ctx\<lparr>dx_ext := (dx_ext sample_ctx)\<lparr>kernel :=
    env\<lparr>receives := receives (kernel sample_ext)\<rparr>\<rparr>\<rparr>)"
  have r: "recv_rep_import sample_rtl (replicate BUS_ID_SIZE b) env =
      (STATUS_SUCCESS, sample_import, env\<lparr>receives := receives (kernel sample_ext)\<rparr>)"
    by (rule sample_reply [OF s(2)]) (simp add: s(5) sample_ctx_def)
  have "honest (Suc (2 * length [sample_config])) (answers sample_device @ config_answers [sample_config])
     (Suc (length [sample_config])) (kernel (dx_ext x))"
    using sample_honest s by (simp add: honest_def x_def set_properties_def)
  then obtain e where "check_device mem_registry sample_registry sample_memory find_loop (dx_ext x) sample_import =
      Some (STATUS_SUCCESS, e)"
    using check_device_honest [OF own_search.descriptor_search_axioms sample_load [symmetric], of sample_import
      "[sample_config]" sample_device "dx_ext x"] sample_acceptable sample_device_ok
    by (auto simp: sample_udev_def sample_import_def device_consistent_def)
  then show ?thesis by (simp add: import_remote_device_def s(1) r Let_def sample_fe_def x_def)
qed

lemma add_configurations_all:
  "\<forall>c \<in> set cs. \<exists>d. c = Some d \<and> d \<noteq> [] \<Longrightarrow> \<forall>i. add i = STATUS_SUCCESS \<Longrightarrow>
   fst (add_configurations add i cs) = STATUS_SUCCESS"
  by (induction cs arbitrary: i) (auto split: prod.splits, metis fst_conv)

lemma acceptable_not_empty: "acceptable p d ds \<Longrightarrow> d \<noteq> []"
  by (auto simp: acceptable_def valid_header_def)

lemma sample_created:
  assumes "snapshot_accepted p (dx_ext (ext s))"
  shows "fst (create sample_plug d s) = STATUS_SUCCESS"
proof -
  have "\<forall>c \<in> set (snap_configurations (dx_ext (ext s))). \<exists>d. c = Some d \<and> d \<noteq> []"
    using assms acceptable_not_empty by (fastforce simp: snapshot_accepted_def)
  then have "fst (add_snapshot_descriptors (\<lambda>_. STATUS_SUCCESS) (dx_ext (ext s))) = STATUS_SUCCESS"
    using assms add_configurations_all
    by (simp add: add_snapshot_descriptors_def snapshot_accepted_def split: prod.split) (metis fst_conv)
  then show ?thesis
    by (cases "add_snapshot_descriptors (\<lambda>_. STATUS_SUCCESS) (dx_ext (ext s))")
      (simp add: create_def sample_plug_def init_device_def Let_def)
qed

text \<open>C8. Attaching either succeeds or is undone. Whatever the server, the framework and UdeCx answer,
  \<open>connected\<close> returns. When it succeeds the device sits in a port that was free, the port is the one
  that is reported, all other ports are as before, and what UdeCx was given are a valid device
  descriptor and at least one configuration, each of them accepted under the loaded policy. When it
  fails every port is as before, no thread receives for the device, UdeCx has the device at most when
  it refused to plug it out, and the connection is closed unless that failed or it still belongs
  to the work item, whose cleanup closes it.\<close>

theorem attach_all_or_nothing:
  assumes "descriptor_search (fe_parse fe)"
    and "hub_wf (hub s)" "d \<noteq> WDF_NO_HANDLE" "port_of (hub s) d = 0" "dev s = None" "wi_holds s"
  shows "\<exists>st s'. connected fe rtl junk env d s = Some (st, s') \<and> hub_wf (hub s') \<and>
    (if st = STATUS_SUCCESS then
       \<not> wi_holds s' \<and> req_port s' \<noteq> 0 \<and> roothub (hub s) (req_port s') = None \<and>
       roothub (hub s') = (roothub (hub s))(req_port s' \<mapsto> d) \<and>
       (\<exists>v. dev s' = Some v \<and> vd_plugged v \<and> vd_thread v \<and>
          presents (load (fe_api fe) (fe_registry fe) (fe_tmp fe)) v)
     else
       roothub (hub s') = roothub (hub s) \<and>
       (\<forall>v. dev s' = Some v \<longrightarrow> \<not> vd_thread v \<and> (vd_plugged v \<longrightarrow> pe_plugout env \<noteq> STATUS_SUCCESS)) \<and>
       (sock_open s' \<longrightarrow> wi_holds s' \<or> pe_close env \<noteq> STATUS_SUCCESS))"
  by (rule connected_outcome [OF assms(1-5), where rtl = rtl and junk = junk and env = env])
    (use assms(6) in \<open>auto simp: attach_done_def attach_undone_def\<close>)

lemma sample_connected:
  "\<exists>s'. connected sample_fe sample_rtl (replicate BUS_ID_SIZE 0) sample_plug 1 sample_start = Some (STATUS_SUCCESS, s')"
proof -
  obtain x where i: "import_remote_device sample_fe sample_rtl (replicate BUS_ID_SIZE 0) sample_ctx =
      Some (STATUS_SUCCESS, x)" using sample_imported by blast
  have "descriptor_search (fe_parse sample_fe)"
    using own_search.descriptor_search_axioms by (simp add: sample_fe_def)
  then have acc: "snapshot_accepted (load (fe_api sample_fe) (fe_registry sample_fe) (fe_tmp sample_fe)) (dx_ext x)"
    using i by (metis import_cases option.inject prod.inject)
  define s1 where "s1 = (log_state 0 Vhci_Events.connected sample_start)\<lparr>ext := x\<rparr>"
  have s1: "hub s1 = hub sample_start" "ext s1 = x" by (simp_all add: s1_def)
  obtain s2 where c: "create sample_plug 1 s1 = (STATUS_SUCCESS, s2)"
    using sample_created acc s1(2) by (metis prod.collapse)
  then obtain v where s2: "s2 = s1\<lparr>hub := new_device 1 s1, dev_holds := True, dev := Some v\<rparr>"
    using create_result acc s1(2) by metis
  have "snd (claim_roothub_port (hub s2) 1) \<noteq> 0"
    using claim_empty new_device_hub [of s1 1] sample_start_hub sample_start_empty
    by (simp add: s2 s1 WDF_NO_HANDLE_def)
  then have "fst (finish_plugin sample_plug 1 (s2\<lparr>wi_holds := False\<rparr>)) = STATUS_SUCCESS"
    by (cases "claim_roothub_port (hub s2) 1")
      (simp add: finish_plugin_def plugin_def Let_def sample_plug_def)
  then show ?thesis using i c
    by (simp add: connected_eq s1_def Let_def) (simp add: sample_start_def, metis prod.collapse)
qed

theorem attach_all_or_nothing_witness:
  "\<exists>s'. connected sample_fe sample_rtl (replicate BUS_ID_SIZE 0) sample_plug 1 sample_start =
     Some (STATUS_SUCCESS, s') \<and> roothub (hub s') (req_port s') = Some 1 \<and>
     (\<exists>v. dev s' = Some v \<and> vd_plugged v \<and> presents (normalized sample_policy) v)"
proof -
  have "descriptor_search (fe_parse sample_fe)" "wi_holds sample_start" "(1 :: wdf_handle) \<noteq> WDF_NO_HANDLE"
    using own_search.descriptor_search_axioms by (simp_all add: sample_fe_def sample_start_def WDF_NO_HANDLE_def)
  from attach_all_or_nothing [OF this(1) sample_start_hub(1) this(3) sample_start_hub(2,3) this(2),
      where rtl = sample_rtl and junk = "replicate BUS_ID_SIZE 0" and env = sample_plug]
  show ?thesis using sample_connected sample_load by (auto simp: sample_fe_def)
qed

end
