(* ===== verification/Attach_Work.thy ===== *)
theory Attach_Work
  imports Attach Reattach
begin

text \<open>
  The work item of an attach (\<open>vhci_ioctl.cpp\<close>): \<open>plugin_hardware\<close> creates it and looks the server up;
  each completion of an asynchronous call runs \<open>complete\<close>, which connects to the next address, or
  goes on to \<open>connected\<close>, or completes the request and deletes the work item. The arguments kept in
  the IRP between the calls (\<open>set_args\<close>) are \<open>wk_ai\<close>: \<open>None\<close> after \<open>getaddrinfo\<close>, otherwise the address in
  use and those after it.
\<close>

section \<open>Sockets\<close>

datatype sockopt = SO_KEEPALIVE | TCP_KEEPIDLE | TCP_KEEPCNT | TCP_KEEPINTVL

text \<open>The registry values are \<open>TCP_KEEPIDLE\<close>, \<open>TCP_KEEPCNT\<close> and \<open>TCP_KEEPINTVL\<close>, \<open>None\<close> for one that cannot be
  read; a \<open>ULONG\<close> is assigned to an \<open>int\<close>.\<close>

type_synonym keepalive_registry = "(u32 option \<times> u32 option \<times> u32 option) option"

definition query_keepalive_parameters :: "keepalive_registry \<Rightarrow> int \<times> int \<times> int \<Rightarrow> int \<times> int \<times> int" where
  "query_keepalive_parameters reg vars =
     (case reg of
        None \<Rightarrow> vars
      | Some (r_idle, r_cnt, r_intvl) \<Rightarrow>
          (case vars of (idle, cnt, intvl) \<Rightarrow>
             let query = (\<lambda>v old. case v of None \<Rightarrow> old | Some val \<Rightarrow> sint (val :: u32)) in
             (query r_idle idle, query r_cnt cnt, query r_intvl intvl)))"

text \<open>The answers of the network stack for one socket, and the driver's registry key.\<close>

record sock_env =
  se_socket :: ntstatus
  se_getsockopt :: "sockopt \<Rightarrow> ntstatus \<times> int"
  se_setsockopt :: "sockopt \<Rightarrow> ntstatus"
  se_registry :: keepalive_registry
  se_bind :: ntstatus

definition get_keepalive_opts :: "(sockopt \<Rightarrow> ntstatus \<times> int) \<Rightarrow> ntstatus \<times> int \<times> int \<times> int" where
  "get_keepalive_opts getsockopt =
     (case getsockopt TCP_KEEPIDLE of (err, idle) \<Rightarrow>
        if err \<noteq> STATUS_SUCCESS then (err, 0, 0, 0)
        else case getsockopt TCP_KEEPCNT of (err, cnt) \<Rightarrow>
          if err \<noteq> STATUS_SUCCESS then (err, idle, 0, 0)
          else case getsockopt TCP_KEEPINTVL of (err, intvl) \<Rightarrow>
            if err \<noteq> STATUS_SUCCESS then (err, idle, cnt, 0)
            else (STATUS_SUCCESS, idle, cnt, intvl))"

text \<open>The options set, in order.\<close>

definition set_keepalive ::
    "(sockopt \<Rightarrow> ntstatus) \<Rightarrow> int \<Rightarrow> int \<Rightarrow> int \<Rightarrow> ntstatus \<times> (sockopt \<times> int) list" where
  "set_keepalive setsockopt idle cnt intvl =
     (let err = setsockopt SO_KEEPALIVE; opts = [(SO_KEEPALIVE, 1)] in
      if err \<noteq> STATUS_SUCCESS then (err, [])
      else
        let err = (if idle > 0 then setsockopt TCP_KEEPIDLE else STATUS_SUCCESS) in
        if err \<noteq> STATUS_SUCCESS then (err, opts)
        else
          let opts = (if idle > 0 then opts @ [(TCP_KEEPIDLE, idle)] else opts);
              err = (if cnt > 0 then setsockopt TCP_KEEPCNT else STATUS_SUCCESS) in
          if err \<noteq> STATUS_SUCCESS then (err, opts)
          else
            let opts = (if cnt > 0 then opts @ [(TCP_KEEPCNT, cnt)] else opts);
                err = (if intvl > 0 then setsockopt TCP_KEEPINTVL else STATUS_SUCCESS) in
            if err \<noteq> STATUS_SUCCESS then (err, opts)
            else (STATUS_SUCCESS, if intvl > 0 then opts @ [(TCP_KEEPINTVL, intvl)] else opts))"

definition set_options :: "sock_env \<Rightarrow> ntstatus \<times> (sockopt \<times> int) list" where
  "set_options env =
     (case get_keepalive_opts (se_getsockopt env) of (err, vars) \<Rightarrow>
        if err \<noteq> STATUS_SUCCESS then (err, [])
        else case query_keepalive_parameters (se_registry env) vars of (idle, cnt, intvl) \<Rightarrow>
          set_keepalive (se_setsockopt env) idle cnt intvl)"

text \<open>The second component tells whether the socket exists afterwards.\<close>

definition create_socket :: "sock_env \<Rightarrow> ntstatus \<times> bool" where
  "create_socket env =
     (if se_socket env \<noteq> STATUS_SUCCESS then (se_socket env, False)
      else if fst (set_options env) \<noteq> STATUS_SUCCESS then (fst (set_options env), True)
      else if se_bind env \<noteq> STATUS_SUCCESS then (se_bind env, True)
      else (STATUS_SUCCESS, True))"

section \<open>The work item\<close>

datatype wk_action = StopAttempts u32 | StartAttempts u32

record work_item =
  wk_attach :: attach_state
  wk_addrinfo :: "nat list"
  wk_ai :: "nat list option"
  wk_one_attempt :: bool
  wk_deleted :: bool
  wk_completed :: "ntstatus list"
  wk_actions :: "wk_action list"
  wk_connects :: "nat list"

datatype 'a wk_outcome = Fine 'a | UseAfterFree | NullPointer

text \<open>What one run of \<open>complete\<close> finds: whether the controller is being removed, the status of the
  request, the answers for a new socket, and those for an attach.\<close>

record 'r wk_env =
  we_removing :: bool
  we_status :: ntstatus
  we_sock :: sock_env
  we_filter :: "'r filter_env"
  we_rtl :: "nat \<Rightarrow> ntstatus \<times> bytes"
  we_junk :: bytes
  we_plug :: plug_env
  we_device :: wdf_handle

definition upd_attach :: "(attach_state \<Rightarrow> attach_state) \<Rightarrow> work_item \<Rightarrow> work_item" where
  "upd_attach f w = w\<lparr>wk_attach := f (wk_attach w)\<rparr>"

text \<open>\<open>ai\<close> is the address to connect to with the rest of its list. The asynchronous \<open>connect\<close> runs the
  completion routine in any case.\<close>

definition connect :: "sock_env \<Rightarrow> nat list \<Rightarrow> work_item \<Rightarrow> ntstatus \<times> work_item" where
  "connect env ai w =
     (case create_socket env of (err, exists) \<Rightarrow>
        let w = upd_attach (\<lambda>s. s\<lparr>sock_open := exists\<rparr>) w in
        if err \<noteq> STATUS_SUCCESS then (err, w)
        else (STATUS_PENDING, w\<lparr>wk_ai := Some ai, wk_connects := wk_connects w @ [hd ai]\<rparr>))"

definition on_connect :: "'r wk_env \<Rightarrow> nat list \<Rightarrow> work_item \<Rightarrow> (ntstatus \<times> work_item) option" where
  "on_connect env ai w =
     (let st = we_status env in
      if NT_SUCCESS st then
        (case connected (we_filter env) (we_rtl env) (we_junk env) (we_plug env) (we_device env) (wk_attach w) of
           None \<Rightarrow> None
         | Some (st, s) \<Rightarrow> Some (st, w\<lparr>wk_attach := s\<rparr>))
      else
        let w = upd_attach (\<lambda>s. s\<lparr>sock_open := False\<rparr>) w in
        if st \<noteq> STATUS_CANCELLED \<and> tl ai \<noteq> [] then Some (connect (we_sock env) (tl ai) w)
        else Some (st, w))"

definition workitem_cleanup :: "plug_env \<Rightarrow> work_item \<Rightarrow> work_item" where
  "workitem_cleanup env w =
     (let w = w\<lparr>wk_addrinfo := []\<rparr> in
      if wi_holds (wk_attach w) then
        upd_attach (\<lambda>s. (log_state 0 disconnected (snd (close_socket env s)))
                          \<lparr>ext_alive := False, wi_holds := False\<rparr>) w
      else w)"

text \<open>The part after the call that may be asynchronous. \<open>ext\<close> is a reference to the memory that the
  work item had at the start.\<close>

definition finish_request :: "plug_env \<Rightarrow> ntstatus \<Rightarrow> work_item \<Rightarrow> work_item wk_outcome" where
  "finish_request env st w =
     (let w = w\<lparr>wk_completed := wk_completed w @ [st]\<rparr>;
          s = wk_attach w;
          delete_wi = (\<lambda>w. (workitem_cleanup env w)\<lparr>wk_deleted := True\<rparr>)
      in if wk_one_attempt w then Fine (delete_wi w)
         else if \<not> ext_alive s then UseAfterFree
         else let hash = dx_location_hash (ext s) in
           if NT_SUCCESS st then Fine (delete_wi (w\<lparr>wk_actions := wk_actions w @ [StopAttempts hash]\<rparr>))
           else if NT_ERROR st \<and> can_reattach (hub s) hash st then
             Fine (delete_wi (w\<lparr>wk_actions := wk_actions w @ [StopAttempts hash, StartAttempts hash]\<rparr>))
           else Fine (delete_wi w))"

definition workitem_complete :: "'r wk_env \<Rightarrow> work_item \<Rightarrow> work_item wk_outcome option" where
  "workitem_complete env w =
     (let fin = (\<lambda>r. case r of
            None \<Rightarrow> None
          | Some (st, w) \<Rightarrow>
              if st = STATUS_PENDING then Some (Fine w) else Some (finish_request (we_plug env) st w))
      in if we_removing env then fin (Some (STATUS_CANCELLED, w))
         else case wk_ai w of
           Some ai \<Rightarrow> fin (on_connect env ai w)
         | None \<Rightarrow>
             if NT_SUCCESS (we_status env) then
               (case wk_addrinfo w of
                  [] \<Rightarrow> Some NullPointer
                | ai \<Rightarrow> fin (Some (connect (we_sock env) ai w)))
             else fin (Some (we_status env, w)))"

text \<open>The runs of \<open>complete\<close> for one request: \<open>None\<close> while it is pending.\<close>

fun run_workitem :: "'r wk_env list \<Rightarrow> work_item \<Rightarrow> work_item wk_outcome option" where
  "run_workitem [] w = None"
| "run_workitem (env # envs) w =
     (case workitem_complete env w of
        None \<Rightarrow> None
      | Some (Fine w) \<Rightarrow> if wk_deleted w then Some (Fine w) else run_workitem envs w
      | Some bad \<Rightarrow> Some bad)"

section \<open>The memory of the device\<close>

lemma detach_alive:
  assumes "dev s = Some v" "ext_alive s" "\<not> vd_deleted v"
  shows "\<exists>v'. dev (detach env d plugout reattach s) = Some v' \<and> ext_alive (detach env d plugout reattach s) = (\<not> vd_deleted v')"
  using assms by (auto simp: detach_def close_socket_def plugout_and_delete_def destroy_device_def Let_def
      split: prod.splits)

lemma detach_dev: "dev s \<noteq> None \<Longrightarrow> dev (detach env d plugout reattach s) \<noteq> None"
  by (auto simp: detach_def close_socket_def plugout_and_delete_def destroy_device_def Let_def split: prod.splits)

lemma delete_device_dead:
  assumes "dev s = Some v"
  shows "\<not> ext_alive (delete_device env d s) \<and> (\<exists>v'. dev (delete_device env d s) = Some v' \<and> vd_deleted v')"
  using assms by (auto simp: delete_device_def destroy_device_def detach_def close_socket_def
      plugout_and_delete_def Let_def split: prod.splits)

lemma plugin_alive:
  assumes "plugin env d s = (st, in_port, s')" "dev s = Some v"
  shows "ext_alive s' = ext_alive s" "wi_holds s' = wi_holds s" "\<exists>v'. dev s' = Some v' \<and> vd_deleted v' = vd_deleted v"
  using assms by (auto simp: plugin_def Let_def split: prod.splits if_splits)

lemma detach_wi [simp]: "wi_holds (detach env d plugout reattach s) = wi_holds s"
  by (simp add: detach_def close_socket_def plugout_and_delete_def destroy_device_def Let_def
      split: prod.split option.split)

lemma finish_plugin_wi: "finish_plugin env d s = (st, s') \<Longrightarrow> wi_holds s' = wi_holds s"
  by (auto simp: finish_plugin_def plugin_def delete_device_def destroy_device_def Let_def
      split: prod.splits if_splits)

text \<open>The memory is gone exactly when the device was created and destroyed.\<close>

lemma finish_plugin_alive:
  assumes f: "finish_plugin env d s = (st, s')" and v: "dev s = Some v" "\<not> vd_deleted v" "ext_alive s"
  shows "(\<exists>v'. dev s' = Some v' \<and> ext_alive s' = (\<not> vd_deleted v')) \<and> (st = STATUS_SUCCESS \<longrightarrow> ext_alive s')"
proof -
  obtain err in_port s1 where p: "plugin env d s = (err, in_port, s1)" by (metis prod_cases3)
  note a = plugin_alive [OF p v(1)]
  then obtain v1 where v1: "dev s1 = Some v1" "ext_alive s1" "\<not> vd_deleted v1" using v by auto
  obtain v2 where v2: "dev (detach env d in_port False s1) = Some v2"
      "ext_alive (detach env d in_port False s1) = (\<not> vd_deleted v2)" using detach_alive [OF v1] by blast
  show ?thesis
    using f p v1 v2 delete_device_dead [OF v2(1), of env d]
    by (cases "err = STATUS_SUCCESS"; cases in_port) (auto simp: finish_plugin_def Let_def)
qed

lemma connected_alive:
  assumes c: "connected fe rtl junk env d s = Some (st, s')" and s: "dev s = None" "ext_alive s" "wi_holds s"
  shows "ext_alive s' \<longleftrightarrow> \<not> (\<exists>v. dev s' = Some v \<and> vd_deleted v)" "st = STATUS_SUCCESS \<longrightarrow> ext_alive s'"
    "\<not> ext_alive s' \<longrightarrow> \<not> wi_holds s'"
proof -
  obtain err x where i: "import_remote_device fe rtl junk (ext s) = Some (err, x)"
    using c by (auto simp: connected_eq split: option.splits)
  define s1 where "s1 = (log_state 0 Vhci_Events.connected s)\<lparr>ext := x\<rparr>"
  have s1: "dev s1 = None" "ext_alive s1" "wi_holds s1" using s by (simp_all add: s1_def)
  obtain err' s2 where cr: "create env d s1 = (err', s2)" by force
  have s2: "dev s2 = None \<or> (\<exists>v. dev s2 = Some v \<and> \<not> vd_deleted v)" "ext_alive s2" "wi_holds s2"
    "err' = STATUS_SUCCESS \<longrightarrow> dev s2 \<noteq> None"
    using cr s1 by (auto simp: create_def Let_def split: if_splits prod.splits)
  have cases: "Some (st, s') = (if err \<noteq> STATUS_SUCCESS then Some (err, s1)
      else if err' \<noteq> STATUS_SUCCESS then Some (err', s2)
      else Some (finish_plugin env d (s2\<lparr>wi_holds := False\<rparr>)))"
    using c i cr by (auto simp: connected_eq s1_def Let_def)
  have *: "(ext_alive s' \<longleftrightarrow> \<not> (\<exists>v. dev s' = Some v \<and> vd_deleted v)) \<and> (st = STATUS_SUCCESS \<longrightarrow> ext_alive s') \<and>
    (\<not> ext_alive s' \<longrightarrow> \<not> wi_holds s')"
  proof (cases "err = STATUS_SUCCESS \<and> err' = STATUS_SUCCESS")
    case True
    then have f: "finish_plugin env d (s2\<lparr>wi_holds := False\<rparr>) = (st, s')" using cases by simp
    obtain v where v: "dev (s2\<lparr>wi_holds := False\<rparr>) = Some v" "\<not> vd_deleted v" "ext_alive (s2\<lparr>wi_holds := False\<rparr>)"
      using s2 True by auto
    have "\<not> wi_holds s'" using finish_plugin_wi [OF f] by simp
    then show ?thesis using finish_plugin_alive [OF f v] by auto
  qed (use cases s1 s2 in \<open>auto split: if_splits\<close>)
  then show "ext_alive s' \<longleftrightarrow> \<not> (\<exists>v. dev s' = Some v \<and> vd_deleted v)" "st = STATUS_SUCCESS \<longrightarrow> ext_alive s'"
    "\<not> ext_alive s' \<longrightarrow> \<not> wi_holds s'" by blast+
qed

section \<open>The answers are final\<close>

text \<open>The calls of the network stack are waited for, and the functions of the framework and of UdeCx
  that are used here are synchronous: none of them answers \<open>STATUS_PENDING\<close>.\<close>

definition sync_kenv :: "kenv \<Rightarrow> bool" where
  "sync_kenv k \<longleftrightarrow> STATUS_PENDING \<notin> set (mdl_prepare k) \<and> STATUS_PENDING \<notin> fst ` set (sends k) \<and>
     STATUS_PENDING \<notin> fst ` set (receives k)"

definition sync_plug :: "plug_env \<Rightarrow> bool" where
  "sync_plug env \<longleftrightarrow> (\<forall>i. pe_add env i \<noteq> STATUS_PENDING) \<and> pe_create env \<noteq> STATUS_PENDING \<and>
     STATUS_PENDING \<notin> set (pe_locks env) \<and> pe_plugin env \<noteq> STATUS_PENDING \<and> pe_thread env \<noteq> STATUS_PENDING"

definition sync_sock :: "sock_env \<Rightarrow> bool" where
  "sync_sock env \<longleftrightarrow> se_socket env \<noteq> STATUS_PENDING \<and> se_bind env \<noteq> STATUS_PENDING \<and>
     (\<forall>opt. se_setsockopt env opt \<noteq> STATUS_PENDING \<and> fst (se_getsockopt env opt) \<noteq> STATUS_PENDING)"

lemma send_sync:
  "sync_kenv k \<Longrightarrow> send k bs = (st, k') \<Longrightarrow> st \<noteq> STATUS_PENDING \<and> sync_kenv k'"
  by (auto simp: sync_kenv_def send_def prepare_mdl_def wsk_send_def transfer_send_def WskSend_def
      split: list.splits if_splits prod.splits)

lemma recv_sync:
  "sync_kenv k \<Longrightarrow> recv k buf n = (st, bs, k') \<Longrightarrow> st \<noteq> STATUS_PENDING \<and> sync_kenv k'"
  by (auto simp: sync_kenv_def recv_def prepare_mdl_def wsk_receive_def transfer_recv_def WskReceive_def
      split: list.splits if_splits prod.splits)

lemma op_status_error_sync: "op_status_error st \<noteq> STATUS_PENDING"
  by (simp add: op_status_error_def Let_def nth_Cons')

lemma recv_op_common_sync:
  "sync_kenv k \<Longrightarrow> recv_op_common k code = (st, k') \<Longrightarrow> st \<noteq> STATUS_PENDING \<and> sync_kenv k'"
  by (auto simp: recv_op_common_def op_status_error_sync Let_def dest: recv_sync split: if_splits prod.splits)

lemma unicode_sync:
  "(\<And>n. fst (rtl n) \<noteq> STATUS_PENDING) \<Longrightarrow> fst (unicode_to_utf8 rtl buf) \<noteq> STATUS_PENDING"
  by (auto simp: unicode_to_utf8_def Let_def split: prod.splits) (metis fst_conv)

lemma send_req_import_sync:
  assumes "sync_kenv k" "\<And>n. fst (rtl n) \<noteq> STATUS_PENDING" "send_req_import rtl k = (st, k')"
  shows "st \<noteq> STATUS_PENDING \<and> sync_kenv k'"
proof (cases "unicode_to_utf8 rtl (replicate BUS_ID_SIZE 0)")
  case (Pair err busid)
  have "err \<noteq> STATUS_PENDING"
    using unicode_sync [where rtl = rtl and buf = "replicate BUS_ID_SIZE 0", OF assms(2)] Pair by simp
  then show ?thesis
    using assms(1,3) Pair send_sync [OF assms(1)]
    by (cases "err = STATUS_SUCCESS") (auto simp: send_req_import_def)
qed

lemma recv_rep_import_sync:
  assumes "sync_kenv k" "\<And>n. fst (rtl n) \<noteq> STATUS_PENDING" "recv_rep_import rtl junk k = (st, u, k')"
  shows "st \<noteq> STATUS_PENDING"
proof -
  obtain e1 k1 where c: "recv_op_common k OP_REP_IMPORT = (e1, k1)" by force
  obtain e2 bs k2 where r: "recv k1 (replicate sizeof_usbip_usb_device 0) sizeof_usbip_usb_device = (e2, bs, k2)"
    by (metis prod_cases3)
  obtain e3 busid where n: "unicode_to_utf8 rtl junk = (e3, busid)" by force
  have "e1 \<noteq> STATUS_PENDING \<and> sync_kenv k1" by (rule recv_op_common_sync [OF assms(1) c])
  moreover from this have "e2 \<noteq> STATUS_PENDING" using recv_sync [OF _ r] by blast
  moreover have "e3 \<noteq> STATUS_PENDING"
    using unicode_sync [where rtl = rtl and buf = junk, OF assms(2)] n by simp
  ultimately show ?thesis
    using assms(3) by (auto simp: recv_rep_import_def Let_def c r n split: if_splits)
qed

lemma import_sync:
  assumes search: "descriptor_search (fe_parse fe)" and k: "sync_kenv (kernel (dx_ext x))"
    and rtl: "\<And>n. fst (rtl n) \<noteq> STATUS_PENDING" and i: "import_remote_device fe rtl junk x = Some (st, x')"
  shows "st \<noteq> STATUS_PENDING"
proof -
  have c: "st \<noteq> STATUS_PENDING" if "check_device api r tmp (fe_parse fe) y u = Some (st, e)" for api r tmp y u st e
    by (rule check_device_result [OF search, where api = api and r = r and tmp = tmp and ext = y and udev = u])
      (use that in auto)
  obtain st1 k1 where s: "send_req_import rtl (kernel (dx_ext x)) = (st1, k1)" by force
  note s' = send_req_import_sync [OF k rtl s]
  obtain st2 u k2 where r: "recv_rep_import rtl junk k1 = (st2, u, k2)" by (metis prod_cases3)
  have "st2 \<noteq> STATUS_PENDING" by (rule recv_rep_import_sync [OF conjunct2 [OF s'] rtl r])
  then show ?thesis
    using i s' by (auto simp: import_remote_device_def Let_def s r dest: c split: if_splits option.splits)
qed

lemma add_configurations_sync:
  "\<forall>i. add i \<noteq> STATUS_PENDING \<Longrightarrow> fst (add_configurations add i cs) \<noteq> STATUS_PENDING"
  by (induction cs arbitrary: i) (auto split: option.splits prod.splits, metis fst_conv)

lemma init_device_sync: "STATUS_PENDING \<notin> set locks \<Longrightarrow> init_device locks \<noteq> STATUS_PENDING"
proof -
  assume l: "STATUS_PENDING \<notin> set locks"
  have "set (filter (\<lambda>st. st \<noteq> STATUS_SUCCESS) (take 3 locks)) \<subseteq> set locks"
    by (auto dest: in_set_takeD)
  with l show ?thesis
    by (cases "filter (\<lambda>st. st \<noteq> STATUS_SUCCESS) (take 3 locks)") (auto simp: init_device_def)
qed

lemma create_sync: "sync_plug env \<Longrightarrow> create env d s = (st, s') \<Longrightarrow> st \<noteq> STATUS_PENDING"
  using add_configurations_sync [of "pe_add env" 0] init_device_sync [of "pe_locks env"]
  by (auto simp: create_def sync_plug_def add_snapshot_descriptors_def Let_def split: if_splits prod.splits)
    (metis fst_conv)+

lemma finish_plugin_sync: "sync_plug env \<Longrightarrow> finish_plugin env d s = (st, s') \<Longrightarrow> st \<noteq> STATUS_PENDING"
  by (auto simp: finish_plugin_def plugin_def sync_plug_def Let_def split: if_splits prod.splits)

lemma connected_sync:
  assumes "descriptor_search (fe_parse fe)" "sync_kenv (kernel (dx_ext (ext s)))"
    "\<And>n. fst (rtl n) \<noteq> STATUS_PENDING" "sync_plug env" "connected fe rtl junk env d s = Some (st, s')"
  shows "st \<noteq> STATUS_PENDING"
  using assms(5) import_sync [OF assms(1-3), where junk = junk]
  by (auto simp: connected_eq Let_def dest: create_sync [OF assms(4)] finish_plugin_sync [OF assms(4)]
      split: option.splits if_splits prod.splits)

lemma get_keepalive_opts_sync:
  "\<forall>opt. fst (getsockopt opt) \<noteq> STATUS_PENDING \<Longrightarrow> fst (get_keepalive_opts getsockopt) \<noteq> STATUS_PENDING"
  by (auto simp: get_keepalive_opts_def split: prod.split) (metis fst_conv)+

lemma set_keepalive_sync:
  "\<forall>opt. setsockopt opt \<noteq> STATUS_PENDING \<Longrightarrow> fst (set_keepalive setsockopt idle cnt intvl) \<noteq> STATUS_PENDING"
  by (simp add: set_keepalive_def Let_def)

lemma create_socket_sync:
  assumes "sync_sock env"
  shows "fst (create_socket env) \<noteq> STATUS_PENDING"
proof -
  have "fst (set_options env) \<noteq> STATUS_PENDING"
    using assms get_keepalive_opts_sync [of "se_getsockopt env"] set_keepalive_sync [of "se_setsockopt env"]
    by (auto simp: set_options_def sync_sock_def split: prod.split)
  then show ?thesis using assms by (simp add: create_socket_def sync_sock_def)
qed

section \<open>An attach ends\<close>

definition sync_env :: "'r wk_env \<Rightarrow> bool" where
  "sync_env env \<longleftrightarrow> sync_sock (we_sock env) \<and> sync_plug (we_plug env) \<and>
     (\<forall>n. fst (we_rtl env n) \<noteq> STATUS_PENDING) \<and> descriptor_search (fe_parse (we_filter env))"

definition env_policy :: "'r wk_env \<Rightarrow> policy" where
  "env_policy env = load (fe_api (we_filter env)) (fe_registry (we_filter env)) (fe_tmp (we_filter env))"

text \<open>The handle of the new device is not one of a device in the root hub.\<close>

definition fresh_device :: "attach_state \<Rightarrow> 'r wk_env \<Rightarrow> bool" where
  "fresh_device s env \<longleftrightarrow> we_device env \<noteq> WDF_NO_HANDLE \<and> port_of (hub s) (we_device env) = 0"

text \<open>A work item that waits for a completion: nothing has been created, and the addresses that were
  tried and those left are all addresses. \<open>wk_left\<close> counts the runs of \<open>complete\<close> that may follow.\<close>

definition waiting :: "nat list \<Rightarrow> attach_state \<Rightarrow> work_item \<Rightarrow> bool" where
  "waiting addrs s0 w \<longleftrightarrow>
     (\<exists>open log. wk_attach w = s0\<lparr>sock_open := open, states := log\<rparr>) \<and>
     wk_completed w = [] \<and> \<not> wk_deleted w \<and> wk_addrinfo w = addrs \<and>
     (case wk_ai w of None \<Rightarrow> wk_connects w = [] | Some ai \<Rightarrow> ai \<noteq> [] \<and> wk_connects w @ tl ai = addrs)"

definition wk_left :: "work_item \<Rightarrow> nat" where
  "wk_left w = (case wk_ai w of None \<Rightarrow> Suc (length (wk_addrinfo w)) | Some ai \<Rightarrow> length ai)"

text \<open>A finished request.\<close>

definition finished :: "nat list \<Rightarrow> attach_state \<Rightarrow> 'r wk_env \<Rightarrow> work_item \<Rightarrow> bool" where
  "finished addrs s0 env w \<longleftrightarrow>
     wk_deleted w \<and> \<not> wi_holds (wk_attach w) \<and> (\<exists>rest. wk_connects w @ rest = addrs) \<and>
     (\<exists>st. wk_completed w = [st] \<and>
        (if st = STATUS_SUCCESS then attach_done (env_policy env) (we_device env) s0 (wk_attach w)
         else attach_undone (we_plug env) s0 (wk_attach w)))"

definition start_state :: "attach_state \<Rightarrow> bool" where
  "start_state s \<longleftrightarrow> hub_wf (hub s) \<and> dev s = None \<and> ext_alive s \<and> wi_holds s \<and>
     sync_kenv (kernel (dx_ext (ext s)))"

lemma attach_undone_cleanup:
  assumes "attach_undone env s0 s"
  shows "attach_undone env s0 (wk_attach (workitem_cleanup env (w\<lparr>wk_attach := s\<rparr>)))"
    "\<not> wi_holds (wk_attach (workitem_cleanup env (w\<lparr>wk_attach := s\<rparr>)))"
  using assms by (auto simp: attach_undone_def workitem_cleanup_def upd_attach_def close_socket_def Let_def)

lemma workitem_cleanup_simps [simp]:
  "wk_completed (workitem_cleanup env w) = wk_completed w" "wk_connects (workitem_cleanup env w) = wk_connects w"
  by (simp_all add: workitem_cleanup_def upd_attach_def Let_def)

lemma workitem_cleanup_owner: "\<not> wi_holds (wk_attach w) \<Longrightarrow> wk_attach (workitem_cleanup env w) = wk_attach w"
  by (simp add: workitem_cleanup_def Let_def)

lemma attach_done_states [simp]:
  "attach_done p d (s0\<lparr>sock_open := q, states := l\<rparr>) s = attach_done p d s0 s"
  by (simp add: attach_done_def)

lemma attach_undone_states [simp]:
  "attach_undone env (s0\<lparr>sock_open := q, states := l\<rparr>) s = attach_undone env s0 s"
  by (simp add: attach_undone_def)

lemma wk_attach_same: "wk_attach w = s \<Longrightarrow> w\<lparr>wk_attach := s\<rparr> = w"
  by simp

text \<open>The end of a request whose device, if there is one, is plugged in or gone.\<close>

lemma finish_request_cases:
  assumes "wk_completed w = []" "\<exists>rest. wk_connects w @ rest = addrs"
    and ok: "st = STATUS_SUCCESS \<Longrightarrow> \<not> wi_holds (wk_attach w) \<and>
      attach_done (env_policy env) (we_device env) s0 (wk_attach w)"
    and bad: "st \<noteq> STATUS_SUCCESS \<Longrightarrow> attach_undone (we_plug env) s0 (wk_attach w)"
  shows "finish_request (we_plug env) st w = UseAfterFree \<and> \<not> wk_one_attempt w \<and> \<not> ext_alive (wk_attach w) \<or>
    (\<exists>w'. finish_request (we_plug env) st w = Fine w' \<and> finished addrs s0 env w')"
proof -
  have u: "attach_undone (we_plug env) s0 (wk_attach (workitem_cleanup (we_plug env) v))"
      "\<not> wi_holds (wk_attach (workitem_cleanup (we_plug env) v))"
    if "wk_attach v = wk_attach w" "st \<noteq> STATUS_SUCCESS" for v
    using attach_undone_cleanup [OF bad [OF that(2)], of v] that(1) [symmetric] by simp_all
  have d: "wk_attach (workitem_cleanup (we_plug env) v) = wk_attach w"
    if "wk_attach v = wk_attach w" "st = STATUS_SUCCESS" for v
    using ok that by (simp add: workitem_cleanup_owner)
  have fin: "finished addrs s0 env ((workitem_cleanup (we_plug env) v)\<lparr>wk_deleted := True\<rparr>)"
    if "wk_attach v = wk_attach w" "wk_completed v = [st]" "wk_connects v = wk_connects w" for v
    using that assms(2) ok u [OF that(1)] d [OF that(1)] by (auto simp: finished_def)
  show ?thesis
    by (cases "wk_one_attempt w"; cases "ext_alive (wk_attach w)")
      (auto simp: finish_request_def Let_def assms(1) intro!: fin)
qed

lemma waiting_undone:
  assumes "start_state s0" "waiting addrs s0 w"
  shows "attach_undone env s0 (wk_attach w)" "wi_holds (wk_attach w)" "ext_alive (wk_attach w)"
    "hub (wk_attach w) = hub s0" "dev (wk_attach w) = None" "ext (wk_attach w) = ext s0"
  using assms by (auto simp: start_state_def waiting_def attach_undone_def)

lemma waiting_connects: "waiting addrs s0 w \<Longrightarrow> \<exists>rest. wk_connects w @ rest = addrs"
  by (auto simp: waiting_def split: option.splits)

text \<open>What one run of \<open>complete\<close> may do to a waiting work item.\<close>

definition step_result :: "nat list \<Rightarrow> attach_state \<Rightarrow> 'r wk_env \<Rightarrow> work_item \<Rightarrow> work_item wk_outcome \<Rightarrow> bool" where
  "step_result addrs s0 env w out \<longleftrightarrow>
     out = UseAfterFree \<and> \<not> wk_one_attempt w \<or>
     (\<exists>w'. out = Fine w' \<and>
       (finished addrs s0 env w' \<or>
        waiting addrs s0 w' \<and> wk_left w' < wk_left w \<and> wk_one_attempt w' = wk_one_attempt w))"

lemma upd_attach_simps [simp]:
  "wk_attach (upd_attach f w) = f (wk_attach w)" "wk_completed (upd_attach f w) = wk_completed w"
  "wk_connects (upd_attach f w) = wk_connects w" "wk_ai (upd_attach f w) = wk_ai w"
  "wk_addrinfo (upd_attach f w) = wk_addrinfo w" "wk_one_attempt (upd_attach f w) = wk_one_attempt w"
  "wk_deleted (upd_attach f w) = wk_deleted w"
  by (simp_all add: upd_attach_def)

lemma waiting_sock: "waiting addrs s0 w \<Longrightarrow> waiting addrs s0 (upd_attach (\<lambda>s. s\<lparr>sock_open := q\<rparr>) w)"
proof -
  assume w: "waiting addrs s0 w"
  then obtain q' log where "wk_attach w = s0\<lparr>sock_open := q', states := log\<rparr>" by (auto simp: waiting_def)
  then have "(wk_attach w)\<lparr>sock_open := q\<rparr> = s0\<lparr>sock_open := q, states := log\<rparr>" by simp
  then show ?thesis using w by (auto simp: waiting_def split: option.splits)
qed

lemma finish_unattached:
  assumes "start_state s0" "waiting addrs s0 w" "st \<noteq> STATUS_SUCCESS" "wk_one_attempt w = wk_one_attempt wb"
  shows "step_result addrs s0 env wb (finish_request (we_plug env) st w)"
proof -
  have "wk_completed w = []" using assms(2) by (simp add: waiting_def)
  from finish_request_cases [where st = st and env = env, OF this waiting_connects [OF assms(2)]]
  show ?thesis
    using waiting_undone(1) [OF assms(1,2), where env = "we_plug env"] assms(3,4) by (auto simp: step_result_def)
qed

lemma connect_step:
  assumes s: "start_state s0" "sync_env env" and w: "waiting addrs s0 w"
    and ai: "ai \<noteq> []" "wk_connects w @ ai = addrs" "length ai < wk_left w0"
      "wk_one_attempt w = wk_one_attempt w0"
    and c: "connect (we_sock env) ai w = (st, w')"
  shows "step_result addrs s0 env w0
    (if st = STATUS_PENDING then Fine w' else finish_request (we_plug env) st w')"
proof (cases "create_socket (we_sock env)")
  case (Pair err exists)
  have e: "err \<noteq> STATUS_PENDING"
    using create_socket_sync [of "we_sock env"] s(2) Pair by (simp add: sync_env_def)
  have w1: "waiting addrs s0 (upd_attach (\<lambda>s. s\<lparr>sock_open := exists\<rparr>) w)" by (rule waiting_sock [OF w])
  show ?thesis
  proof (cases "err = STATUS_SUCCESS")
    case True
    then have "st = STATUS_PENDING" and w': "w' = (upd_attach (\<lambda>s. s\<lparr>sock_open := exists\<rparr>) w)
        \<lparr>wk_ai := Some ai, wk_connects := wk_connects w @ [hd ai]\<rparr>"
      using c Pair by (auto simp: connect_def Let_def)
    moreover have "waiting addrs s0 w'"
      using w1 ai(1,2) by (auto simp: w' waiting_def neq_Nil_conv)
    ultimately show ?thesis using ai(3,4) by (simp add: step_result_def wk_left_def)
  next
    case False
    then have "st = err" "w' = upd_attach (\<lambda>s. s\<lparr>sock_open := exists\<rparr>) w"
      using c Pair by (auto simp: connect_def Let_def)
    then show ?thesis using finish_unattached [OF s(1) w1 False, where env = env and wb = w0] e ai(4) by simp
  qed
qed

lemma attach_run:
  assumes s: "start_state s0" "sync_env env" "fresh_device s0 env" and w: "waiting addrs s0 w"
    and c: "connected (we_filter env) (we_rtl env) (we_junk env) (we_plug env) (we_device env) (wk_attach w) =
      Some (st, s1)"
  shows "st \<noteq> STATUS_PENDING"
    "step_result addrs s0 env w (finish_request (we_plug env) st (w\<lparr>wk_attach := s1\<rparr>))"
proof -
  note u = waiting_undone(2-) [OF s(1) w]
  have search: "descriptor_search (fe_parse (we_filter env))" using s(2) by (simp add: sync_env_def)
  have h: "hub_wf (hub (wk_attach w))" "we_device env \<noteq> WDF_NO_HANDLE" "port_of (hub (wk_attach w)) (we_device env) = 0"
    using s u(3) by (simp_all add: start_state_def fresh_device_def)
  have k: "sync_kenv (kernel (dx_ext (ext (wk_attach w))))" using s(1) u(5) by (simp add: start_state_def)
  show "st \<noteq> STATUS_PENDING"
    by (rule connected_sync [OF search k _ _ c]) (use s(2) in \<open>simp_all add: sync_env_def\<close>)
  obtain q l where q: "wk_attach w = s0\<lparr>sock_open := q, states := l\<rparr>" using w by (auto simp: waiting_def)
  have out: "st = STATUS_SUCCESS \<Longrightarrow> \<not> wi_holds s1 \<and> attach_done (env_policy env) (we_device env) s0 s1"
    "st \<noteq> STATUS_SUCCESS \<Longrightarrow> attach_undone (we_plug env) s0 s1"
    by (rule connected_outcome [OF search h u(4), where rtl = "we_rtl env" and junk = "we_junk env" and
        env = "we_plug env"]; use c u(1) q in \<open>simp add: env_policy_def\<close>)+
  have "wk_completed (w\<lparr>wk_attach := s1\<rparr>) = []" using w by (simp add: waiting_def)
  moreover have "\<exists>rest. wk_connects (w\<lparr>wk_attach := s1\<rparr>) @ rest = addrs" using waiting_connects [OF w] by simp
  ultimately show "step_result addrs s0 env w (finish_request (we_plug env) st (w\<lparr>wk_attach := s1\<rparr>))"
    using finish_request_cases [where env = env and st = st and w = "w\<lparr>wk_attach := s1\<rparr>" and addrs = addrs] out
    by (auto simp: step_result_def)
qed

lemma complete_step:
  assumes s: "start_state s0" "sync_env env" "fresh_device s0 env" and w: "waiting addrs s0 w" and "addrs \<noteq> []"
  shows "\<exists>out. workitem_complete env w = Some out \<and> step_result addrs s0 env w out"
proof (cases "we_removing env")
  case True
  then show ?thesis using finish_unattached [OF s(1) w, of STATUS_CANCELLED w env] by (simp add: workitem_complete_def)
next
  case run: False
  note un = finish_unattached [OF s(1) w, of "we_status env" w env]
  have no: "we_status env \<noteq> STATUS_SUCCESS \<and> we_status env \<noteq> STATUS_PENDING" if "\<not> NT_SUCCESS (we_status env)"
    using that by auto
  show ?thesis
  proof (cases "wk_ai w")
    case None
    then have a: "wk_addrinfo w = addrs" "wk_connects w @ addrs = addrs" "length addrs < wk_left w"
      using w by (simp_all add: waiting_def wk_left_def)
    obtain st w' where c: "connect (we_sock env) addrs w = (st, w')" by force
    obtain x xs where x: "addrs = x # xs" using assms(5) by (cases addrs) auto
    show ?thesis
      using un connect_step [OF s(1,2) w assms(5) a(2,3) refl c] a(1) no c
      by (cases "NT_SUCCESS (we_status env)") (auto simp: workitem_complete_def run None x Let_def)
  next
    case (Some ai)
    then have ai: "ai \<noteq> []" "wk_connects w @ tl ai = addrs" "length (tl ai) < wk_left w"
      using w by (simp_all add: waiting_def wk_left_def)
    define w1 where "w1 = upd_attach (\<lambda>s. s\<lparr>sock_open := False\<rparr>) w"
    have w1: "waiting addrs s0 w1" unfolding w1_def by (rule waiting_sock [OF w])
    obtain st w' where c: "connect (we_sock env) (tl ai) w1 = (st, w')" by force
    show ?thesis
    proof (cases "NT_SUCCESS (we_status env)")
      case True
      obtain st s1 where c: "connected (we_filter env) (we_rtl env) (we_junk env) (we_plug env) (we_device env)
          (wk_attach w) = Some (st, s1)"
        by (rule connected_outcome [where fe = "we_filter env" and s = "wk_attach w" and d = "we_device env" and
            rtl = "we_rtl env" and junk = "we_junk env" and env = "we_plug env"])
          (use s waiting_undone(4,5) [OF s(1) w] in \<open>simp_all add: start_state_def fresh_device_def sync_env_def\<close>)
      then show ?thesis using attach_run [OF s w c] True Some
        by (simp add: workitem_complete_def run on_connect_def)
    next
      case False
      then have "on_connect env ai w = (if we_status env \<noteq> STATUS_CANCELLED \<and> tl ai \<noteq> [] then Some (st, w')
          else Some (we_status env, w1))"
        by (simp add: on_connect_def Let_def w1_def [symmetric] c)
      then show ?thesis
        using connect_step [OF s(1,2) w1, of "tl ai" w st w'] ai c False Some
          finish_unattached [OF s(1) w1, of "we_status env" w env] no [OF False]
        by (auto simp: workitem_complete_def run Let_def w1_def)
    qed
  qed
qed

lemma run_workitem_ends:
  assumes "start_state s0" "addrs \<noteq> []" "waiting addrs s0 w" "wk_left w \<le> length envs"
    and "\<forall>env \<in> set envs. sync_env env \<and> fresh_device s0 env"
  shows "run_workitem envs w = Some UseAfterFree \<and> \<not> wk_one_attempt w \<or>
    (\<exists>w' env. run_workitem envs w = Some (Fine w') \<and> env \<in> set envs \<and> finished addrs s0 env w')"
  using assms(3-)
proof (induction envs arbitrary: w)
  case Nil
  then show ?case by (auto simp: wk_left_def waiting_def split: option.splits)
next
  case (Cons env envs)
  obtain out where out: "workitem_complete env w = Some out" "step_result addrs s0 env w out"
    using complete_step [OF assms(1) _ _ Cons.prems(1) assms(2), of env] Cons.prems(3) by auto
  from out(2) [unfolded step_result_def] show ?case
  proof (elim disjE exE conjE)
    fix w' assume w': "out = Fine w'" "waiting addrs s0 w'" "wk_left w' < wk_left w"
      "wk_one_attempt w' = wk_one_attempt w"
    then have "\<not> wk_deleted w'" by (simp add: waiting_def)
    then show ?thesis using Cons.IH [OF w'(2)] Cons.prems(2,3) w' out(1) by auto
  next
    fix w' assume w': "out = Fine w'" "finished addrs s0 env w'"
    then have "run_workitem (env # envs) w = Some (Fine w')" using out(1) by (simp add: finished_def)
    then show ?thesis using w'(2) by auto
  qed (use out(1) in simp)
qed

section \<open>Properties\<close>

text \<open>C9. An attach request ends. After at most one more run of \<open>complete\<close> than there are addresses, in
  whatever way the network, the server, the framework and UdeCx answer, the request has been completed
  exactly once and the work item is deleted. The addresses are tried in order and each at most once.
  If the status is success the device is plugged in as accepted by the filter; otherwise the ports
  are as before and the connection is closed, unless closing or plugging out fails. The one other end
  is an access to freed memory, and only in an attach that is to be repeated.\<close>

theorem attach_request_ends:
  assumes "start_state s" "wk_attach w = s" "wk_ai w = None" "wk_addrinfo w \<noteq> []"
    and "wk_completed w = []" "wk_connects w = []" "\<not> wk_deleted w"
    and "\<forall>env \<in> set envs. sync_env env \<and> fresh_device s env"
    and "length (wk_addrinfo w) < length envs"
  shows "run_workitem envs w = Some UseAfterFree \<and> \<not> wk_one_attempt w \<or>
    (\<exists>w' env st rest. run_workitem envs w = Some (Fine w') \<and> env \<in> set envs \<and> wk_deleted w' \<and>
       wk_completed w' = [st] \<and> wk_connects w' @ rest = wk_addrinfo w \<and> \<not> wi_holds (wk_attach w') \<and>
       (if st = STATUS_SUCCESS then attach_done (env_policy env) (we_device env) s (wk_attach w')
        else attach_undone (we_plug env) s (wk_attach w')))"
proof -
  have "\<exists>q l. s = s\<lparr>sock_open := q, states := l\<rparr>"
    by (rule exI [of _ "sock_open s"], rule exI [of _ "states s"]) simp
  then have "waiting (wk_addrinfo w) s w" using assms(2-7) unfolding waiting_def by simp
  from run_workitem_ends [OF assms(1,4) this, of envs] assms(3,8,9) show ?thesis
    by (fastforce simp: wk_left_def finished_def)
qed

text \<open>A server with two addresses, of which the first does not answer.\<close>

definition sample_sock :: sock_env where
  "sample_sock = \<lparr>se_socket = STATUS_SUCCESS, se_getsockopt = (\<lambda>_. (STATUS_SUCCESS, 0)),
     se_setsockopt = (\<lambda>_. STATUS_SUCCESS), se_registry = Some (Some 60, None, None), se_bind = STATUS_SUCCESS\<rparr>"

definition sample_env :: "ntstatus \<Rightarrow> plug_env \<Rightarrow> (u32 \<times> bytes) option wk_env" where
  "sample_env st plug = \<lparr>we_removing = False, we_status = st, we_sock = sample_sock, we_filter = sample_fe,
     we_rtl = sample_rtl, we_junk = replicate BUS_ID_SIZE 0, we_plug = plug, we_device = 1\<rparr>"

definition sample_work :: "bool \<Rightarrow> work_item" where
  "sample_work once = \<lparr>wk_attach = sample_start\<lparr>sock_open := False\<rparr>, wk_addrinfo = [10, 20], wk_ai = None,
     wk_one_attempt = once, wk_deleted = False, wk_completed = [], wk_actions = [], wk_connects = []\<rparr>"

definition sample_envs :: "plug_env \<Rightarrow> (u32 \<times> bytes) option wk_env list" where
  "sample_envs plug = map (\<lambda>st. sample_env st plug)
     [STATUS_SUCCESS, STATUS_DEVICE_NOT_CONNECTED, STATUS_SUCCESS]"

lemma sample_create_socket: "create_socket sample_sock = (STATUS_SUCCESS, True)"
  by (simp add: create_socket_def set_options_def get_keepalive_opts_def set_keepalive_def sample_sock_def
      query_keepalive_parameters_def)

lemma sample_run:
  "run_workitem (sample_envs plug) (sample_work once) =
     run_workitem [sample_env STATUS_SUCCESS plug]
       ((sample_work once)\<lparr>wk_attach := sample_start, wk_ai := Some [20], wk_connects := [10, 20]\<rparr>)"
proof -
  have "sample_start\<lparr>sock_open := True\<rparr> = sample_start" by (simp add: sample_start_def)
  then show ?thesis
    by (simp add: sample_envs_def sample_env_def sample_work_def workitem_complete_def connect_def on_connect_def
        sample_create_socket upd_attach_def Let_def NT_SUCCESS_def)
qed

lemma sample_ok:
  "start_state (sample_start\<lparr>sock_open := False\<rparr>)" "sync_plug plug \<Longrightarrow> sync_env (sample_env st plug)"
  "fresh_device (sample_start\<lparr>sock_open := False\<rparr>) (sample_env st plug)"
  using sample_start_hub own_search.descriptor_search_axioms
  by (auto simp: start_state_def sample_start_def sync_kenv_def sample_ctx_def sample_ext_def sync_env_def
      sample_env_def sync_sock_def sample_sock_def sample_rtl_def sample_fe_def fresh_device_def
      WDF_NO_HANDLE_def sent_ok_def answers_def config_answers_def)

theorem attach_request_ends_witness:
  "\<exists>w'. run_workitem (sample_envs sample_plug) (sample_work True) = Some (Fine w') \<and> wk_deleted w' \<and>
     wk_completed w' = [STATUS_SUCCESS] \<and> wk_connects w' = [10, 20] \<and>
     (\<exists>v. dev (wk_attach w') = Some v \<and> vd_plugged v)"
proof -
  have "sync_plug sample_plug" by (simp add: sync_plug_def sample_plug_def)
  then have envs: "\<forall>env \<in> set (sample_envs sample_plug). sync_env env \<and>
      fresh_device (sample_start\<lparr>sock_open := False\<rparr>) env"
    using sample_ok by (auto simp: sample_envs_def)
  obtain s' where "connected sample_fe sample_rtl (replicate BUS_ID_SIZE 0) sample_plug 1 sample_start =
      Some (STATUS_SUCCESS, s')" using sample_connected by blast
  then have "\<exists>w'. run_workitem (sample_envs sample_plug) (sample_work True) = Some (Fine w') \<and>
      wk_completed w' = [STATUS_SUCCESS] \<and> wk_connects w' = [10, 20]"
    unfolding sample_run
    by (simp add: sample_work_def sample_env_def workitem_complete_def on_connect_def finish_request_def Let_def)
  with attach_request_ends [OF sample_ok(1), of "sample_work True" "sample_envs sample_plug"] envs show ?thesis
    by (auto simp: sample_work_def sample_envs_def attach_done_def)
qed


definition broken_plug :: plug_env where
  "broken_plug = sample_plug\<lparr>pe_plugin := STATUS_UNSUCCESSFUL\<rparr>"

lemma create_broken_plug: "create broken_plug = create sample_plug"
  by (simp add: fun_eq_iff create_def broken_plug_def split: prod.split)

lemma broken_connected:
  "\<exists>s' v. connected sample_fe sample_rtl (replicate BUS_ID_SIZE 0) broken_plug 1 sample_start =
     Some (STATUS_UNSUCCESSFUL, s') \<and> dev s' = Some v \<and> vd_deleted v"
proof -
  obtain s1 where "connected sample_fe sample_rtl (replicate BUS_ID_SIZE 0) sample_plug 1 sample_start =
      Some (STATUS_SUCCESS, s1)" using sample_connected by blast
  then obtain x s2 where i: "import_remote_device sample_fe sample_rtl (replicate BUS_ID_SIZE 0) (ext sample_start) =
      Some (STATUS_SUCCESS, x)"
    and c: "create sample_plug 1 ((log_state 0 Vhci_Events.connected sample_start)\<lparr>ext := x\<rparr>) = (STATUS_SUCCESS, s2)"
    and p: "fst (finish_plugin sample_plug 1 (s2\<lparr>wi_holds := False\<rparr>)) = STATUS_SUCCESS"
    by (auto simp: connected_eq Let_def split: option.splits prod.splits if_splits)
  let ?s = "s2\<lparr>wi_holds := False\<rparr>"
  obtain h port where cl: "claim_roothub_port (hub s2) 1 = (h, port)" by force
  then have "port \<noteq> 0" using p by (auto simp: finish_plugin_def plugin_def Let_def)
  then have f: "finish_plugin broken_plug 1 ?s = (STATUS_UNSUCCESSFUL,
      delete_device broken_plug 1 (detach broken_plug 1 False False (?s\<lparr>hub := h, req_port := port\<rparr>)))"
    using cl by (simp add: finish_plugin_def plugin_def Let_def broken_plug_def)
  obtain v where "dev s2 = Some v" using c by (auto simp: create_def Let_def split: if_splits prod.splits)
  then obtain v' where "dev (detach broken_plug 1 False False (?s\<lparr>hub := h, req_port := port\<rparr>)) = Some v'"
    using detach_dev [of "?s\<lparr>hub := h, req_port := port\<rparr>" broken_plug 1 False False] by auto
  from delete_device_dead [OF this, of broken_plug 1] show ?thesis
    using i c f by (auto simp: connected_eq create_broken_plug Let_def)
qed


end
