(* ===== verification/Submit.thy ===== *)
theory Submit
  imports Receive_Safety Filter_Request
begin

text \<open>
  The way of a URB to the server, \<open>drivers/ude/device_ioctl.cpp\<close>: the handlers of control, bulk or
  interrupt and isochronous transfers fill the header of a submit command, \<open>prepare_wsk_buf\<close> chains the
  header, the data of an OUT transfer and the isochronous descriptors, and \<open>send\<close> puts the request in
  the list and hands the chain to the socket. What happens after that to the request is the subject of
  \<open>Request_List\<close>.

  An operation yields \<open>None\<close> for an access outside of the memory the driver has been given.
\<close>

section \<open>State\<close>

text \<open>\<open>sb_lookaside\<close> are the contexts that \<open>ExAllocateFromLookasideListEx\<close> returns, the empty list is a
  failure; they come with what an earlier transfer left in them. \<open>sb_wire\<close> are the messages given to the
  socket, \<open>sb_done\<close> the requests that have been completed.\<close>

record submitter =
  sb_dev :: device_ctx
  sb_unplugged :: bool
  sb_endps :: "endpoint_ctx list"
  sb_descriptor :: "nat \<Rightarrow> bytes"
  sb_ep0 :: nat
  sb_iserial :: u8
  sb_serial :: bytes
  sb_requests :: "request_ctx list"
  sb_lookaside :: "wsk_context list"
  sb_env :: kenv
  sb_wire :: "bytes list"
  sb_done :: "(nat \<times> completion) list"

text \<open>A URB. \<open>cx_TransferBufferLength\<close> of a control transfer is the \<open>TransferBufferLength\<close> of its buffer; the
  packets of an isochronous transfer are their offsets.\<close>

datatype sub_urb =
    SubControl nat control_transfer_ex
  | SubBulk nat u32
  | SubIsoch nat u32 u32 "u32 list"
  | SubOther u16

text \<open>The memory of the transfer buffer and what the framework and the memory manager answer for it.\<close>

record transfer =
  tr_urb :: sub_urb
  tr_buf :: urb_buffer
  tr_mem :: bytes
  tr_retrieve :: ntstatus
  tr_mapped :: bool
  tr_alloc :: bool
  tr_has_ctx :: bool
  tr_alloc_ctx :: ntstatus

abbreviation tr_length :: "transfer \<Rightarrow> u32" where
  "tr_length t \<equiv> TransferBufferLength (tr_buf t)"

section \<open>Contexts\<close>

definition alloc_wsk_context :: "u32 \<Rightarrow> submitter \<Rightarrow> wsk_context option \<times> submitter" where
  "alloc_wsk_context NumberOfPackets \<sigma> =
     (case sb_lookaside \<sigma> of
        [] \<Rightarrow> (None, \<sigma>)
      | ctx # rest \<Rightarrow>
          (case prepare_isoc (sb_env \<sigma>) ctx NumberOfPackets of
             (err, ctx, env) \<Rightarrow>
               let \<sigma> = \<sigma>\<lparr>sb_lookaside := rest, sb_env := env\<rparr> in
               if err \<noteq> STATUS_SUCCESS then (None, \<sigma>) else (Some ctx, \<sigma>)))"

section \<open>Sending\<close>

definition iso_bytes :: "iso_packet_descriptor \<Rightarrow> bytes" where
  "iso_bytes d = le32 (iso_offset d) @ le32 (iso_length d) @ le32 (iso_actual_length d) @ le32 (iso_status d)"

text \<open>\<open>byteswap(ctx.isoc, number_of_packets(ctx))\<close>; the number of packets is taken from the MDL.\<close>

definition swap_isoc :: "wsk_context \<Rightarrow> bytes option" where
  "swap_isoc ctx =
     map_option (\<lambda>ds. concat (map iso_bytes ds))
       (byteswap_iso (isoc_array (wc_isoc ctx)) (wc_mdl_isoc ctx div sizeof_iso_packet_descriptor))"

fun mdl_size :: "made_mdl \<Rightarrow> nat" where
  "mdl_size no_mdl = 0"
| "mdl_size (partial_mdl n) = n"
| "mdl_size (buffer_mdl n) = n"

text \<open>The data of the chain behind the header, and \<open>buf.Length\<close>.\<close>

definition prepare_wsk_buf ::
    "kenv \<Rightarrow> wsk_context \<Rightarrow> transfer option \<Rightarrow> (ntstatus \<times> bytes \<times> u64 \<times> kenv) option" where
  "prepare_wsk_buf env ctx transfer_buffer =
     (case (case transfer_buffer of
              Some t \<Rightarrow>
                if direction (wc_hdr ctx) = direction_out then
                  (case make_transfer_buffer_mdl env URB_BUF_LEN IoReadAccess (tr_buf t) (tr_mapped t) (tr_alloc t) of
                     (err, mdl, env) \<Rightarrow>
                       (err, if mdl_size mdl \<le> length (tr_mem t) then Some (take (mdl_size mdl) (tr_mem t)) else None, env))
                else (STATUS_SUCCESS, Some [], env)
            | None \<Rightarrow> (STATUS_SUCCESS, Some [], env)) of
        (err, data, env) \<Rightarrow>
          if err \<noteq> STATUS_SUCCESS then Some (err, [], 0, env)
          else case data of None \<Rightarrow> None
          | Some data \<Rightarrow>
              (case (if wc_is_isoc ctx then map_option (take (wc_mdl_isoc ctx)) (swap_isoc ctx) else Some []) of
                 None \<Rightarrow> None
               | Some isoc \<Rightarrow> Some (STATUS_SUCCESS, data @ isoc, get_total_size (wc_hdr ctx), env)))"

text \<open>\<open>request\<close> and \<open>endpoint\<close> are 0 for \<open>WDF_NO_HANDLE\<close>. The socket reads \<open>buf.Length\<close> bytes of the chain.\<close>

definition send_ctx ::
    "nat \<Rightarrow> nat \<Rightarrow> wsk_context \<Rightarrow> transfer option \<Rightarrow> submitter \<Rightarrow> (ntstatus \<times> submitter) option" where
  "send_ctx endpoint request ctx transfer_buffer \<sigma> =
     (case prepare_wsk_buf (sb_env \<sigma>) ctx transfer_buffer of
        None \<Rightarrow> None
      | Some (err, data, len, env) \<Rightarrow>
          let \<sigma> = \<sigma>\<lparr>sb_env := env\<rparr> in
          if err \<noteq> STATUS_SUCCESS then Some (err, \<sigma>)
          else
            let \<sigma> = (if request \<noteq> 0 \<and> endpoint \<noteq> 0
                     then \<sigma>\<lparr>sb_requests := append_request (sb_requests \<sigma>) request (seqnum (wc_hdr ctx)) endpoint\<rparr>
                     else \<sigma>);
                chain = header_bytes (byteswap_header (wc_hdr ctx) host2net) @ data
            in if unat len > length chain then None
               else Some (STATUS_PENDING, \<sigma>\<lparr>sb_wire := sb_wire \<sigma> @ [take (unat len) chain]\<rparr>))"

section \<open>Serial numbers\<close>

definition get_device_string_descr :: "bytes \<Rightarrow> u8" where
  "get_device_string_descr s =
     (if s ! 0 = USB_DIR_IN OR USB_TYPE_STANDARD OR USB_RECIP_DEVICE \<and> s ! 1 = 6 \<and> s ! 3 = 3
      then s ! 2 else 0)"

text \<open>\<open>RtlStringCchLengthA\<close> fails if there is no terminator within the array.\<close>

definition strlen_max :: "bytes \<Rightarrow> nat option" where
  "strlen_max s = (if 0 \<in> set s then Some (length (takeWhile (\<lambda>c. c \<noteq> 0) s)) else None)"

text \<open>The result: the status, the memory of the buffer and the number of bytes completed; \<open>None\<close> for a
  write behind the buffer.\<close>

definition fill_usb_device_serial ::
    "ntstatus \<Rightarrow> bytes \<Rightarrow> u32 \<Rightarrow> bytes \<Rightarrow> (ntstatus \<times> bytes \<times> u32) option" where
  "fill_usb_device_serial retrieve serial tbl mem =
     (let hdr_sz = usb_string_descr_size 0 in
      if unat tbl < hdr_sz then Some (STATUS_BUFFER_TOO_SMALL, mem, tbl)
      else case strlen_max serial of
        None \<Rightarrow> Some (STATUS_INVALID_PARAMETER, mem, tbl)
      | Some serial_cch \<Rightarrow>
          if retrieve \<noteq> STATUS_SUCCESS then Some (retrieve, mem, tbl)
          else
            let buf_cch = (unat tbl - hdr_sz) div 2;
                cch = min buf_cch serial_cch;
                bs = [of_nat (usb_string_descr_size (serial_cch mod 256)), 3] @
                  concat (map (\<lambda>c. le16 (ucast c)) (take cch serial))
            in if length bs > length mem then None
               else Some (STATUS_SUCCESS, overwrite mem 0 bs, of_nat (usb_string_descr_size (cch mod 256))))"

section \<open>Transfers\<close>

text \<open>Each handler gets the endpoint, the request and the URB; it returns the status and the URB, which
  \<open>fill_usb_device_serial\<close> and \<open>unpack_request\<close> change.\<close>

type_synonym handled = "(ntstatus \<times> transfer \<times> submitter) option"

definition upd_handle :: "endpoint_ctx \<Rightarrow> nat \<Rightarrow> submitter \<Rightarrow> submitter" where
  "upd_handle endp h \<sigma> =
     (if PipeHandle endp \<noteq> h then \<sigma>\<lparr>sb_endps := store_handle (ep_object endp) h (sb_endps \<sigma>)\<rparr> else \<sigma>)"

text \<open>The end of a handler: header, context and send.\<close>

definition submit_ctx ::
    "endpoint_ctx \<Rightarrow> nat \<Rightarrow> transfer \<Rightarrow> u32 \<Rightarrow> u32 \<Rightarrow> u32 \<Rightarrow> bool option \<Rightarrow>
     (wsk_context \<Rightarrow> ntstatus \<times> wsk_context) \<Rightarrow> submitter \<Rightarrow> handled" where
  "submit_ctx endp request t npackets flags len setup_out fill \<sigma> =
     (case alloc_wsk_context npackets \<sigma> of
        (None, \<sigma>) \<Rightarrow> Some (STATUS_INSUFFICIENT_RESOURCES, t, \<sigma>)
      | (Some ctx, \<sigma>) \<Rightarrow>
          (case set_cmd_submit_usbip_header (wc_hdr ctx) (sb_dev \<sigma>) (sb_descriptor \<sigma> (ep_object endp)) flags len setup_out of
             (err, hdr, dev) \<Rightarrow>
               let \<sigma> = \<sigma>\<lparr>sb_dev := dev\<rparr> in
               if err \<noteq> STATUS_SUCCESS then Some (err, t, \<sigma>)
               else case fill (ctx\<lparr>wc_hdr := hdr\<rparr>) of (err, ctx) \<Rightarrow>
                 if err \<noteq> STATUS_SUCCESS then Some (err, t, \<sigma>)
                 else map_option (\<lambda>(st, \<sigma>). (st, t, \<sigma>)) (send_ctx (ep_object endp) request ctx (Some t) \<sigma>)))"

definition wLength :: "bytes \<Rightarrow> u16" where
  "wLength pkt = of_le16 (slice 6 2 pkt)"

definition set_control :: "nat \<Rightarrow> control_transfer_ex \<Rightarrow> transfer \<Rightarrow> transfer" where
  "set_control h r t =
     t\<lparr>tr_urb := SubControl h r, tr_buf := (tr_buf t)\<lparr>TransferBufferLength := cx_TransferBufferLength r\<rparr>\<rparr>"

definition submit_control ::
    "endpoint_ctx \<Rightarrow> nat \<Rightarrow> transfer \<Rightarrow> control_transfer_ex \<Rightarrow> u32 \<Rightarrow> submitter \<Rightarrow> handled" where
  "submit_control endp request t r buf_len \<sigma> =
     submit_ctx endp request t 0 (cx_TransferFlags r) buf_len (Some (is_transfer_dir_out (cx_SetupPacket r)))
       (\<lambda>ctx. (STATUS_SUCCESS, ctx\<lparr>wc_hdr := (wc_hdr ctx)\<lparr>setup_pkt := cx_SetupPacket r\<rparr>\<rparr>)) \<sigma>"

text \<open>From the check of the length on.\<close>

definition control_checked ::
    "endpoint_ctx \<Rightarrow> nat \<Rightarrow> transfer \<Rightarrow> nat \<Rightarrow> control_transfer_ex \<Rightarrow> submitter \<Rightarrow> handled" where
  "control_checked endp request t h r \<sigma> =
     (let buf_len = cx_TransferBufferLength r; pkt = cx_SetupPacket r; w = ucast (wLength pkt) in
      if buf_len < w then Some (STATUS_INVALID_PARAMETER, t, \<sigma>)
      else
        let buf_len = (if buf_len > w then w else buf_len);
            idx = get_device_string_descr pkt
        in if idx \<noteq> 0 \<and> idx = sb_iserial \<sigma> then
             (case fill_usb_device_serial (tr_retrieve t) (sb_serial \<sigma>) (cx_TransferBufferLength r) (tr_mem t) of
                None \<Rightarrow> None
              | Some (st, mem, tbl) \<Rightarrow>
                  if NT_SUCCESS st
                  then Some (st, (set_control h (r\<lparr>cx_TransferBufferLength := tbl\<rparr>) t)\<lparr>tr_mem := mem\<rparr>, \<sigma>)
                  else submit_control endp request t r buf_len \<sigma>)
           else submit_control endp request t r buf_len \<sigma>)"

definition control_transfer ::
    "endpoint_ctx \<Rightarrow> nat \<Rightarrow> transfer \<Rightarrow> nat \<Rightarrow> control_transfer_ex \<Rightarrow> submitter \<Rightarrow> handled" where
  "control_transfer endp request t h r \<sigma> =
     (let \<sigma> = (if h = 0 then \<sigma> else upd_handle endp h \<sigma>) in
      case receive_request (sb_endps \<sigma>) r of
        None \<Rightarrow> None
      | Some (err, endps, r) \<Rightarrow>
          let \<sigma> = \<sigma>\<lparr>sb_endps := endps\<rparr>; t = set_control h r t in
          if err \<noteq> STATUS_SUCCESS then Some (err, t, \<sigma>) else control_checked endp request t h r \<sigma>)"

definition bulk_or_interrupt_transfer ::
    "endpoint_ctx \<Rightarrow> nat \<Rightarrow> transfer \<Rightarrow> nat \<Rightarrow> u32 \<Rightarrow> submitter \<Rightarrow> handled" where
  "bulk_or_interrupt_transfer endp request t h flags \<sigma> =
     submit_ctx endp request t 0 flags (tr_length t) None (\<lambda>ctx. (STATUS_SUCCESS, ctx)) (upd_handle endp h \<sigma>)"

fun repack :: "u32 \<Rightarrow> u32 list \<Rightarrow> iso_packet_descriptor list option" where
  "repack tbl [] = Some []"
| "repack tbl (off # offs) =
     (let next = (case offs of [] \<Rightarrow> tbl | o2 # _ \<Rightarrow> o2) in
      if next \<ge> off \<and> next \<le> tbl then
        map_option ((#) \<lparr>iso_offset = off, iso_length = next - off, iso_actual_length = 0, iso_status = 0\<rparr>)
          (repack tbl offs)
      else None)"

text \<open>The descriptors are written to the array that \<open>alloc_wsk_context\<close> has prepared.\<close>

definition fill_isoc :: "u32 \<Rightarrow> u32 \<Rightarrow> u32 list \<Rightarrow> wsk_context \<Rightarrow> ntstatus \<times> wsk_context" where
  "fill_isoc tbl start_frame offs ctx =
     (case repack tbl offs of
        None \<Rightarrow> (STATUS_INVALID_PARAMETER, ctx)
      | Some ds \<Rightarrow>
          (STATUS_SUCCESS,
           ctx\<lparr>wc_isoc := overwrite (wc_isoc ctx) 0 (concat (map iso_bytes ds)),
               wc_hdr := (wc_hdr ctx)\<lparr>un2 := start_frame, un3 := of_nat (length offs)\<rparr>\<rparr>))"

definition isoch_submit ::
    "endpoint_ctx \<Rightarrow> nat \<Rightarrow> transfer \<Rightarrow> nat \<Rightarrow> u32 \<Rightarrow> u32 \<Rightarrow> u32 list \<Rightarrow> submitter \<Rightarrow> handled" where
  "isoch_submit endp request t h flags start_frame offs \<sigma> =
     (let \<sigma> = upd_handle endp h \<sigma> in
      if int (length offs) > max_iso_packets then Some (STATUS_INVALID_PARAMETER, t, \<sigma>)
      else submit_ctx endp request t (of_nat (length offs)) (flags OR USBD_START_ISO_TRANSFER_ASAP) (tr_length t) None
        (fill_isoc (tr_length t) start_frame offs) \<sigma>)"

definition usb_submit_urb :: "endpoint_ctx \<Rightarrow> nat \<Rightarrow> transfer \<Rightarrow> submitter \<Rightarrow> handled" where
  "usb_submit_urb endp request t \<sigma> =
     (if \<not> tr_has_ctx t \<and> tr_alloc_ctx t \<noteq> STATUS_SUCCESS then Some (tr_alloc_ctx t, t, \<sigma>)
      else case tr_urb t of
        SubBulk h flags \<Rightarrow> bulk_or_interrupt_transfer endp request t h flags \<sigma>
      | SubIsoch h flags start_frame offs \<Rightarrow> isoch_submit endp request t h flags start_frame offs \<sigma>
      | SubControl h r \<Rightarrow> control_transfer endp request t h r \<sigma>
      | SubOther _ \<Rightarrow> Some (STATUS_NOT_SUPPORTED, t, \<sigma>))"

definition IOCTL_INTERNAL_USB_SUBMIT_URB :: u32 where "IOCTL_INTERNAL_USB_SUBMIT_URB = 0x220003"

definition complete_with :: "nat \<Rightarrow> completion \<Rightarrow> submitter \<Rightarrow> submitter" where
  "complete_with request c \<sigma> = \<sigma>\<lparr>sb_done := sb_done \<sigma> @ [(request, c)]\<rparr>"

definition internal_control :: "u32 \<Rightarrow> endpoint_ctx \<Rightarrow> nat \<Rightarrow> transfer \<Rightarrow> submitter \<Rightarrow> submitter option" where
  "internal_control IoControlCode endp request t \<sigma> =
     (if IoControlCode \<noteq> IOCTL_INTERNAL_USB_SUBMIT_URB
      then Some (complete_with request (RequestComplete STATUS_INVALID_DEVICE_REQUEST) \<sigma>)
      else if sb_unplugged \<sigma> then Some (complete_with request (UrbComplete USBD_STATUS_DEVICE_GONE) \<sigma>)
      else case usb_submit_urb endp request t \<sigma> of
        None \<Rightarrow> None
      | Some (st, t, \<sigma>) \<Rightarrow>
          if st \<noteq> STATUS_PENDING then Some (complete_with request (UrbCompleteWithNtStatus st) \<sigma>) else Some \<sigma>)"

section \<open>Commands of the driver itself\<close>

text \<open>Requests to the default pipe without data; \<open>request\<close> may be 0. \<open>get_endpoint_ctx(dev.ep0)\<close> is the endpoint
  object \<open>sb_ep0\<close>.\<close>

definition send_ep0_out :: "nat \<Rightarrow> bytes \<Rightarrow> submitter \<Rightarrow> (ntstatus \<times> submitter) option" where
  "send_ep0_out request setup \<sigma> =
     (case alloc_wsk_context 0 \<sigma> of
        (None, \<sigma>) \<Rightarrow> Some (STATUS_INSUFFICIENT_RESOURCES, \<sigma>)
      | (Some ctx, \<sigma>) \<Rightarrow>
          (case set_cmd_submit_usbip_header (wc_hdr ctx) (sb_dev \<sigma>) (sb_descriptor \<sigma> (sb_ep0 \<sigma>))
                  (USBD_DEFAULT_PIPE_TRANSFER OR USBD_TRANSFER_DIRECTION_OUT) 0 (Some True) of
             (err, hdr, dev) \<Rightarrow>
               let \<sigma> = \<sigma>\<lparr>sb_dev := dev\<rparr> in
               if err \<noteq> STATUS_SUCCESS then Some (err, \<sigma>)
               else send_ctx (sb_ep0 \<sigma>) request (ctx\<lparr>wc_hdr := hdr\<lparr>setup_pkt := setup\<rparr>\<rparr>) None \<sigma>))"

definition set_configuration :: "nat \<Rightarrow> u8 \<Rightarrow> submitter \<Rightarrow> (ntstatus \<times> submitter) option" where
  "set_configuration request ConfigurationValue = send_ep0_out request (make_set_configuration ConfigurationValue)"

definition set_interface :: "nat \<Rightarrow> u8 \<Rightarrow> u8 \<Rightarrow> submitter \<Rightarrow> (ntstatus \<times> submitter) option" where
  "set_interface request num alt = send_ep0_out request (make_set_interface num alt)"

definition clear_stall :: "endpoint_ctx \<Rightarrow> nat \<Rightarrow> submitter \<Rightarrow> (ntstatus \<times> submitter) option" where
  "clear_stall endp request = send_ep0_out request (make_clear_endpoint_stall (bEndpointAddress endp))"

definition reset_port :: "int \<Rightarrow> nat \<Rightarrow> submitter \<Rightarrow> (ntstatus \<times> submitter) option" where
  "reset_port port request = send_ep0_out request (make_reset_port (word_of_int port))"

text \<open>\<open>seq\<close> is the sequence number in the context of the request. An error of the send is ignored.\<close>

definition send_cmd_unlink_and_complete ::
    "nat \<Rightarrow> u32 \<Rightarrow> completion \<Rightarrow> submitter \<Rightarrow> submitter option" where
  "send_cmd_unlink_and_complete request seq c \<sigma> =
     (if sb_unplugged \<sigma> then Some (complete_with request c \<sigma>)
      else case alloc_wsk_context 0 \<sigma> of
        (None, \<sigma>) \<Rightarrow> Some (complete_with request c \<sigma>)
      | (Some ctx, \<sigma>) \<Rightarrow>
          (case set_cmd_unlink_usbip_header (wc_hdr ctx) (sb_dev \<sigma>) seq of
             (hdr, dev) \<Rightarrow>
               (case send_ctx 0 0 (ctx\<lparr>wc_hdr := hdr\<rparr>) None (\<sigma>\<lparr>sb_dev := dev\<rparr>) of
                  None \<Rightarrow> None
                | Some (_, \<sigma>) \<Rightarrow> Some (complete_with request c \<sigma>))))"

section \<open>Messages\<close>

text \<open>What the server reads: the header in host order and what follows it.\<close>

definition msg_header :: "bytes \<Rightarrow> header" where
  "msg_header msg = byteswap_header (header_of_bytes (take sizeof_header msg)) net2host"

definition msg_payload :: "bytes \<Rightarrow> bytes" where
  "msg_payload msg = drop sizeof_header msg"

definition sent :: "nat \<Rightarrow> nat \<Rightarrow> submitter \<Rightarrow> header \<Rightarrow> bytes \<Rightarrow> submitter \<Rightarrow> bool" where
  "sent endpoint request \<sigma> h payload \<sigma>' \<longleftrightarrow>
     (\<exists>msg. sb_wire \<sigma>' = sb_wire \<sigma> @ [msg] \<and> msg_header msg = h \<and> msg_payload msg = payload) \<and>
     sb_requests \<sigma>' = append_request (sb_requests \<sigma>) request (seqnum h) endpoint"

lemma msg_split:
  assumes "length (setup_pkt h) = 8"
  shows "msg_header (header_bytes (byteswap_header h host2net) @ p) = h"
    "msg_payload (header_bytes (byteswap_header h host2net) @ p) = p"
    "length (header_bytes (byteswap_header h host2net)) = sizeof_header"
proof -
  show len: "length (header_bytes (byteswap_header h host2net)) = sizeof_header"
    using header_codec.length_enc [OF header_codec.wf_to_net] assms by blast
  show "msg_header (header_bytes (byteswap_header h host2net) @ p) = h"
    using header_codec.sent_is_received [OF assms] len by (simp add: msg_header_def)
  show "msg_payload (header_bytes (byteswap_header h host2net) @ p) = p"
    using len by (simp add: msg_payload_def)
qed

lemma mdl_for_read:
  assumes "make_transfer_buffer_mdl env URB_BUF_LEN IoReadAccess b m a = (STATUS_SUCCESS, mdl, env')"
  shows "mdl_size mdl = unat (TransferBufferLength b)"
  using assms by (auto simp: make_transfer_buffer_mdl_def Let_def min_def not_less
      split: if_splits list.splits prod.splits)

lemma mdl_for_read_le:
  assumes "make_transfer_buffer_mdl env URB_BUF_LEN IoReadAccess b m a = (st, mdl, env')"
  shows "mdl_size mdl \<le> unat (TransferBufferLength b)"
  using assms by (auto simp: make_transfer_buffer_mdl_def Let_def min_def not_less
      split: if_splits list.splits prod.splits)

text \<open>A submit header that may be sent with the buffer of \<open>t\<close>.\<close>

definition sendable :: "transfer \<Rightarrow> header \<Rightarrow> bool" where
  "sendable t h \<longleftrightarrow> command h = request_type_code CMD_SUBMIT \<and> length (setup_pkt h) = 8 \<and>
     0 \<le> transfer_buffer_length h \<and> nat (transfer_buffer_length h) \<le> unat (tr_length t) \<and>
     (cmd_number_of_packets h = number_of_packets_non_isoch \<or>
      is_valid_number_of_packets (cmd_number_of_packets h) \<and> nat (transfer_buffer_length h) = unat (tr_length t))"

definition out_data :: "transfer \<Rightarrow> header \<Rightarrow> bytes" where
  "out_data t h = (if direction h = direction_out then take (nat (transfer_buffer_length h)) (tr_mem t) else [])"

lemma total_size:
  assumes "sendable t h"
  shows "unat (get_total_size h) = sizeof_header +
    (if direction h = direction_out then nat (transfer_buffer_length h) else 0) +
    16 * isoc_count (cmd_number_of_packets h)"
proof -
  have valid: "cmd_number_of_packets h = number_of_packets_non_isoch \<or>
      is_valid_number_of_packets (cmd_number_of_packets h)"
    using assms by (auto simp: sendable_def)
  then have "isoc_count (cmd_number_of_packets h) \<le> 1024"
    by (auto simp: isoc_count_def is_valid_number_of_packets_def max_iso_packets_def)
  moreover have "nat (transfer_buffer_length h) < 2 ^ 31" using sint_u32_less [of "un1 h"] by auto
  moreover have p: "unat (get_payload_size h) = (if direction h = direction_out then nat (transfer_buffer_length h) else 0) +
      16 * isoc_count (cmd_number_of_packets h)"
    using payload_size_eq [of CMD_SUBMIT h] assms valid
    by (simp add: sendable_def sizeof_iso_packet_descriptor_def)
  ultimately have "unat (get_payload_size h) < 2 ^ 32" by (auto split: if_splits)
  then have "unat (get_payload_size h + of_nat sizeof_header) = unat (get_payload_size h) + sizeof_header"
    by (simp add: unat_word_ariths sizeof_header_def)
  then show ?thesis using p by (simp add: get_payload_size_def)
qed

text \<open>The descriptors behind the data.\<close>

definition isoc_part :: "wsk_context \<Rightarrow> bytes option" where
  "isoc_part ctx = (if wc_is_isoc ctx then map_option (take (wc_mdl_isoc ctx)) (swap_isoc ctx) else Some [])"

lemma send_ctx_sends:
  assumes t: "sendable t (wc_hdr ctx)" "length (tr_mem t) = unat (tr_length t)"
    and i: "isoc_part ctx = Some isoc" "length isoc = 16 * isoc_count (cmd_number_of_packets (wc_hdr ctx))"
    and h: "request \<noteq> 0" "endpoint \<noteq> 0"
  shows "(\<exists>err env. send_ctx endpoint request ctx (Some t) \<sigma> = Some (err, \<sigma>\<lparr>sb_env := env\<rparr>) \<and> err \<noteq> STATUS_SUCCESS \<and>
      (err = STATUS_PENDING \<longrightarrow> STATUS_PENDING \<in> set (mdl_prepare (sb_env \<sigma>)))) \<or>
    (\<exists>\<sigma>'. send_ctx endpoint request ctx (Some t) \<sigma> = Some (STATUS_PENDING, \<sigma>') \<and>
       sent endpoint request \<sigma> (wc_hdr ctx) (out_data t (wc_hdr ctx) @ isoc) \<sigma>' \<and>
       sb_done \<sigma>' = sb_done \<sigma> \<and> sb_lookaside \<sigma>' = sb_lookaside \<sigma> \<and> sb_dev \<sigma>' = sb_dev \<sigma> \<and> sb_endps \<sigma>' = sb_endps \<sigma>)"
proof -
  let ?h = "wc_hdr ctx"
  define n where "n = nat (transfer_buffer_length ?h)"
  define k where "k = unat (get_total_size ?h)"
  have len8: "length (setup_pkt ?h) = 8" using t(1) by (simp add: sendable_def)
  note m = msg_split [OF len8]
  have k: "k = sizeof_header + (if direction ?h = direction_out then n else 0) + length isoc"
    using total_size [OF t(1)] i(2) by (simp add: k_def n_def)
  have n: "n \<le> length (tr_mem t)" "isoc = [] \<or> n = length (tr_mem t)"
    using t i(2) by (auto simp: sendable_def n_def isoc_count_def)
  have fin: "\<exists>\<sigma>'. send_ctx endpoint request ctx (Some t) \<sigma> = Some (STATUS_PENDING, \<sigma>') \<and>
       sent endpoint request \<sigma> ?h (out_data t ?h @ isoc) \<sigma>' \<and>
       sb_done \<sigma>' = sb_done \<sigma> \<and> sb_lookaside \<sigma>' = sb_lookaside \<sigma> \<and> sb_dev \<sigma>' = sb_dev \<sigma> \<and> sb_endps \<sigma>' = sb_endps \<sigma>"
    if p: "prepare_wsk_buf (sb_env \<sigma>) ctx (Some t) = Some (STATUS_SUCCESS, data @ isoc, get_total_size ?h, env)"
      and d: "data = (if direction ?h = direction_out then tr_mem t else [])" for data env
  proof -
    have msg: "take k (header_bytes (byteswap_header ?h host2net) @ data @ isoc) =
        header_bytes (byteswap_header ?h host2net) @ out_data t ?h @ isoc"
      using n k m(3) by (auto simp: d out_data_def n_def [symmetric])
    have "k \<le> length (header_bytes (byteswap_header ?h host2net) @ data @ isoc)"
      using n k m(3) by (auto simp: d)
    then show ?thesis
      using h p m(1,2) msg by (simp add: send_ctx_def Let_def sent_def k_def [symmetric])
  qed
  show ?thesis
  proof (cases "direction ?h = direction_out")
    case False
    then have "prepare_wsk_buf (sb_env \<sigma>) ctx (Some t) = Some (STATUS_SUCCESS, [] @ isoc, get_total_size ?h, sb_env \<sigma>)"
      using i(1) by (simp add: prepare_wsk_buf_def isoc_part_def)
    from fin [OF this] False show ?thesis by simp
  next
    case True
    obtain err mdl env where mk: "make_transfer_buffer_mdl (sb_env \<sigma>) URB_BUF_LEN IoReadAccess (tr_buf t)
        (tr_mapped t) (tr_alloc t) = (err, mdl, env)" by (metis prod_cases3)
    show ?thesis
    proof (cases "err = STATUS_SUCCESS")
      case ok: True
      then have "mdl_size mdl = length (tr_mem t)" using mdl_for_read mk t(2) by simp
      then have "prepare_wsk_buf (sb_env \<sigma>) ctx (Some t) = Some (STATUS_SUCCESS, tr_mem t @ isoc, get_total_size ?h, env)"
        using i(1) True mk ok by (simp add: prepare_wsk_buf_def isoc_part_def)
      from fin [OF this] True show ?thesis by simp
    next
      case False
      have "err = STATUS_PENDING \<longrightarrow> STATUS_PENDING \<in> set (mdl_prepare (sb_env \<sigma>))"
        using mk by (auto simp: make_transfer_buffer_mdl_def Let_def prepare_mdl_def
            split: if_splits list.splits prod.splits)
      then show ?thesis using False True mk by (auto simp: send_ctx_def prepare_wsk_buf_def Let_def)
    qed
  qed
qed

section \<open>Submission\<close>

text \<open>A command of this device.\<close>

definition good_command :: "device_ctx \<Rightarrow> header \<Rightarrow> bool" where
  "good_command dev h \<longleftrightarrow> command h = request_type_code CMD_SUBMIT \<and> is_valid_seqnum (seqnum h) \<and>
     extract_dir (seqnum h) = direction h \<and> devid h = dev_devid dev \<and> unat (ep h) < 16"

text \<open>The contexts of the list are whole, and locking a buffer does not leave a pending status.\<close>

definition submitter_ok :: "submitter \<Rightarrow> bool" where
  "submitter_ok \<sigma> \<longleftrightarrow> (\<forall>ctx \<in> set (sb_lookaside \<sigma>). wf_ctx ctx) \<and> STATUS_PENDING \<notin> set (mdl_prepare (sb_env \<sigma>))"

definition nothing_sent :: "submitter \<Rightarrow> submitter \<Rightarrow> bool" where
  "nothing_sent \<sigma> \<sigma>' \<longleftrightarrow> sb_wire \<sigma>' = sb_wire \<sigma> \<and> sb_requests \<sigma>' = sb_requests \<sigma> \<and> sb_done \<sigma>' = sb_done \<sigma>"

text \<open>The direction of a command: that of the setup packet, otherwise that of the endpoint.\<close>

definition header_out :: "bytes \<Rightarrow> bool option \<Rightarrow> bool" where
  "header_out epd so = (case so of Some b \<Rightarrow> b | None \<Rightarrow> usb_endpoint_dir_out (epd ! 2))"

lemma header_cells:
  assumes "set_cmd_submit_usbip_header hdr dev epd flags len so = (STATUS_SUCCESS, hdr', dev')"
  shows "un1 hdr' = len" "un3 hdr' = - 1" "dev_devid dev' = dev_devid dev" "setup_pkt hdr' = replicate 8 0"
    "direction hdr' = (if header_out epd so then direction_out else direction_in)"
  using assms by (auto simp: set_cmd_submit_usbip_header_def Let_def number_of_packets_non_isoch_def header_out_def
      split: if_splits prod.splits option.splits)

lemma header_command:
  assumes "set_cmd_submit_usbip_header hdr dev epd flags len so = (STATUS_SUCCESS, hdr', dev')" "unat len < 2 ^ 31"
  shows "good_command dev hdr'"
  using submit_header [OF assms] by (auto simp: good_command_def split: if_splits)

lemma header_status:
  "set_cmd_submit_usbip_header hdr dev epd flags len so = (st, hdr', dev') \<Longrightarrow> st \<noteq> STATUS_PENDING"
  by (auto simp: set_cmd_submit_usbip_header_def Let_def split: if_splits prod.splits)

lemma sint_small: "unat (w :: u32) < 2 ^ 31 \<Longrightarrow> sint w = int (unat w)"
  using sint_of_nat_u32 [of "unat w"] by simp

lemma alloc_some:
  assumes "alloc_wsk_context n \<sigma> = (c, \<sigma>1)" "submitter_ok \<sigma>" "unat n \<le> 1024"
  shows "nothing_sent \<sigma> \<sigma>1 \<and> sb_dev \<sigma>1 = sb_dev \<sigma> \<and> sb_descriptor \<sigma>1 = sb_descriptor \<sigma> \<and>
    STATUS_PENDING \<notin> set (mdl_prepare (sb_env \<sigma>1)) \<and>
    (\<forall>ctx. c = Some ctx \<longrightarrow> wf_ctx ctx \<and> wc_is_isoc ctx = (n \<noteq> 0) \<and>
       (n \<noteq> 0 \<longrightarrow> wc_mdl_isoc ctx = 16 * unat n \<and> 16 * unat n \<le> length (wc_isoc ctx)))"
proof (cases "sb_lookaside \<sigma>")
  case Nil
  then show ?thesis using assms by (auto simp: alloc_wsk_context_def nothing_sent_def submitter_ok_def)
next
  case (Cons ctx rest)
  obtain st ctx' env where p: "prepare_isoc (sb_env \<sigma>) ctx n = (st, ctx', env)" by (metis prod_cases3)
  have wf: "wf_ctx ctx" using assms(2) Cons by (simp add: submitter_ok_def)
  have "set (mdl_prepare env) \<subseteq> set (mdl_prepare (sb_env \<sigma>))"
    using p by (auto simp: prepare_isoc_def Let_def prepare_mdl_def pool_alloc_def
        split: if_splits prod.splits list.splits)
  then show ?thesis
    using assms Cons p prepare_isoc_spec [OF p wf assms(3)]
    by (auto simp: alloc_wsk_context_def nothing_sent_def submitter_ok_def Let_def split: if_splits)
qed

text \<open>The end of a handler either reports an error and has sent nothing, or has sent one command.\<close>

definition handled_ok :: "endpoint_ctx \<Rightarrow> nat \<Rightarrow> submitter \<Rightarrow> (header \<Rightarrow> bytes \<Rightarrow> bool) \<Rightarrow> handled \<Rightarrow> bool" where
  "handled_ok endp request \<sigma> P r \<longleftrightarrow>
     (\<exists>st t \<sigma>'. r = Some (st, t, \<sigma>') \<and>
        (if st = STATUS_PENDING then
           (\<exists>h payload. sent (ep_object endp) request \<sigma> h payload \<sigma>' \<and> sb_done \<sigma>' = sb_done \<sigma> \<and>
              good_command (sb_dev \<sigma>) h \<and> P h payload)
         else nothing_sent \<sigma> \<sigma>'))"

lemma submit_ctx_ok:
  assumes \<sigma>: "submitter_ok \<sigma>" and r: "request \<noteq> 0" "ep_object endp \<noteq> 0"
    and t: "length (tr_mem t) = unat (tr_length t)" "unat (tr_length t) < 2 ^ 31" "len \<le> tr_length t"
    and n: "unat n \<le> 1024"
    and fill: "\<And>ctx err ctx'. fill ctx = (err, ctx') \<Longrightarrow> wf_ctx ctx \<Longrightarrow> wc_is_isoc ctx = (n \<noteq> 0) \<Longrightarrow>
      (n \<noteq> 0 \<Longrightarrow> wc_mdl_isoc ctx = 16 * unat n \<and> 16 * unat n \<le> length (wc_isoc ctx)) \<Longrightarrow>
      un1 (wc_hdr ctx) = len \<Longrightarrow> un3 (wc_hdr ctx) = - 1 \<Longrightarrow> length (setup_pkt (wc_hdr ctx)) = 8 \<Longrightarrow>
      err \<noteq> STATUS_PENDING \<and> (err = STATUS_SUCCESS \<longrightarrow>
        (\<exists>s8 f k isoc. length s8 = 8 \<and> wc_hdr ctx' = (wc_hdr ctx)\<lparr>un2 := f, un3 := k, setup_pkt := s8\<rparr> \<and>
           isoc_part ctx' = Some isoc \<and> length isoc = 16 * isoc_count (sint k) \<and>
           (k = - 1 \<or> is_valid_number_of_packets (sint k) \<and> len = tr_length t) \<and>
           Q s8 f k isoc))"
  shows "handled_ok endp request \<sigma>
    (\<lambda>h payload. un1 h = len \<and> direction h = (if header_out (sb_descriptor \<sigma> (ep_object endp)) so
        then direction_out else direction_in) \<and> (\<exists>isoc. payload = out_data t h @ isoc \<and> Q (setup_pkt h) (un2 h) (un3 h) isoc))
    (submit_ctx endp request t n flags len so fill \<sigma>)"
proof -
  obtain c \<sigma>1 where a: "alloc_wsk_context n \<sigma> = (c, \<sigma>1)" by force
  note A = alloc_some [OF a \<sigma> n]
  show ?thesis
  proof (cases c)
    case None
    then show ?thesis using a A by (simp add: submit_ctx_def handled_ok_def)
  next
    case (Some ctx)
    obtain err hdr dev where h: "set_cmd_submit_usbip_header (wc_hdr ctx) (sb_dev \<sigma>1)
        (sb_descriptor \<sigma>1 (ep_object endp)) flags len so = (err, hdr, dev)" by (metis prod_cases3)
    show ?thesis
    proof (cases "err = STATUS_SUCCESS")
      case False
      then show ?thesis using a A Some h header_status [OF h] by (simp add: submit_ctx_def handled_ok_def Let_def nothing_sent_def)
    next
      case True
      have len: "unat len \<le> unat (tr_length t)" "unat len < 2 ^ 31" using t(2,3) by (auto simp: word_le_nat_alt)
      note c = header_cells [OF h [unfolded True]] and g = header_command [OF h [unfolded True] len(2)]
      obtain err2 ctx2 where f: "fill (ctx\<lparr>wc_hdr := hdr\<rparr>) = (err2, ctx2)" by force
      have F: "err2 \<noteq> STATUS_PENDING \<and> (err2 = STATUS_SUCCESS \<longrightarrow>
        (\<exists>s8 f k isoc. length s8 = 8 \<and> wc_hdr ctx2 = hdr\<lparr>un2 := f, un3 := k, setup_pkt := s8\<rparr> \<and>
           isoc_part ctx2 = Some isoc \<and> length isoc = 16 * isoc_count (sint k) \<and>
           (k = - 1 \<or> is_valid_number_of_packets (sint k) \<and> len = tr_length t) \<and> Q s8 f k isoc))"
        using fill [OF f] A Some c by (simp add: wf_ctx_def)
      show ?thesis
      proof (cases "err2 = STATUS_SUCCESS")
        case False
        then show ?thesis using a A Some h True f F by (simp add: submit_ctx_def handled_ok_def Let_def nothing_sent_def)
      next
        case ok: True
        then obtain s8 fr k isoc where q: "length s8 = 8" "wc_hdr ctx2 = hdr\<lparr>un2 := fr, un3 := k, setup_pkt := s8\<rparr>"
            "isoc_part ctx2 = Some isoc" "length isoc = 16 * isoc_count (sint k)"
            "k = - 1 \<or> is_valid_number_of_packets (sint k) \<and> len = tr_length t" "Q s8 fr k isoc"
          using F by blast
        have sd: "sendable t (wc_hdr ctx2)"
          using q(1,2,5) g c len sint_small [OF len(2)]
          by (auto simp: sendable_def good_command_def number_of_packets_non_isoch_def)
        have gc: "good_command (sb_dev \<sigma>) (wc_hdr ctx2)" using g A by (simp add: q(2) good_command_def)
        have "length isoc = 16 * isoc_count (cmd_number_of_packets (wc_hdr ctx2))" using q(2,4) by simp
        from send_ctx_sends [OF sd t(1) q(3) this r, where \<sigma> = "\<sigma>1\<lparr>sb_dev := dev\<rparr>"] show ?thesis
          using a A Some h True f ok q(2,6) gc c(1,5)
          by (auto simp: submit_ctx_def handled_ok_def Let_def nothing_sent_def sent_def)
      qed
    qed
  qed
qed

section \<open>Isochronous descriptors\<close>

lemma length_iso_bytes [simp]: "length (iso_bytes d) = 16"
  by (simp add: iso_bytes_def)

lemma iso_of_iso_bytes [simp]: "iso_of_bytes (iso_bytes d) = d"
  by (simp add: iso_of_bytes_def iso_bytes_def slice_append_left slice_append_right)

lemma length_iso_concat [simp]: "length (concat (map iso_bytes ds)) = 16 * length ds"
  by (induction ds) simp_all

lemma slice_iso_concat:
  "i < length ds \<Longrightarrow> slice (16 * i) 16 (concat (map iso_bytes ds) @ rest) = iso_bytes (ds ! i)"
proof (induction ds arbitrary: i)
  case (Cons d ds)
  then show ?case by (cases i) (simp_all add: slice_def)
qed simp

lemma isoc_array_written:
  assumes "length ds = n" "16 * n \<le> length mem"
  shows "take n (isoc_array (overwrite mem 0 (concat (map iso_bytes ds)))) = ds"
proof (rule nth_equalityI)
  have len: "length (overwrite mem 0 (concat (map iso_bytes ds))) = length mem"
    using assms by simp
  show "length (take n (isoc_array (overwrite mem 0 (concat (map iso_bytes ds))))) = length ds"
    using assms len by simp
  fix i
  assume "i < length (take n (isoc_array (overwrite mem 0 (concat (map iso_bytes ds)))))"
  then have i: "i < length ds" "i < length mem div 16" using assms(1) len by simp_all
  then show "take n (isoc_array (overwrite mem 0 (concat (map iso_bytes ds)))) ! i = ds ! i"
    using assms(1) len slice_iso_concat [OF i(1)]
    by (simp add: isoc_array_def) (simp add: overwrite_def)
qed

lemma isoc_part_written:
  assumes "wc_is_isoc ctx" "wc_mdl_isoc ctx = 16 * n" "length ds = n" "16 * n \<le> length mem"
    "wc_isoc ctx = overwrite mem 0 (concat (map iso_bytes ds))"
  shows "isoc_part ctx = Some (concat (map iso_bytes (map bswap_iso ds)))"
proof -
  have n: "n \<le> length (isoc_array (wc_isoc ctx))" using assms by simp
  have "take n (isoc_array (wc_isoc ctx)) = ds" using isoc_array_written assms by simp
  then show ?thesis
    using n assms(1-3) by (simp add: isoc_part_def swap_isoc_def byteswap_iso_def sizeof_iso_packet_descriptor_def
        flip: map_map)
qed

definition packet_ok :: "u32 \<Rightarrow> u32 \<Rightarrow> iso_packet_descriptor \<Rightarrow> bool" where
  "packet_ok tbl nx d \<longleftrightarrow> unat (iso_offset d) + unat (iso_length d) = unat nx \<and> nx \<le> tbl \<and>
     iso_actual_length d = 0 \<and> iso_status d = 0"

text \<open>Each packet reaches up to the next one, and the last one up to the end of the buffer.\<close>

lemma repack_spec:
  "repack tbl offs = Some ds \<Longrightarrow> length ds = length offs \<and> map iso_offset ds = offs \<and>
    (\<forall>i < length offs. packet_ok tbl ((offs @ [tbl]) ! Suc i) (ds ! i))"
proof (induction offs arbitrary: ds)
  case (Cons off offs)
  define nx where "nx = (case offs of [] \<Rightarrow> tbl | o2 # _ \<Rightarrow> o2)"
  from Cons.prems obtain es where e: "repack tbl offs = Some es" "off \<le> nx" "nx \<le> tbl"
      "ds = \<lparr>iso_offset = off, iso_length = nx - off, iso_actual_length = 0, iso_status = 0\<rparr> # es"
    by (auto simp: nx_def Let_def split: if_splits)
  have nx: "nx = (offs @ [tbl]) ! 0" by (simp add: nx_def split: list.split)
  have "packet_ok tbl nx (ds ! 0)"
    using e(2,3) by (simp add: e(4) packet_ok_def unat_sub word_le_nat_alt)
  moreover have "packet_ok tbl ((offs @ [tbl]) ! Suc i) (es ! i)" if "i < length offs" for i
    using Cons.IH [OF e(1)] that by blast
  ultimately have "packet_ok tbl (((off # offs) @ [tbl]) ! Suc i) (ds ! i)" if "i < length (off # offs)" for i
    using that nx by (cases i) (simp_all add: e(4))
  moreover have "length ds = length (off # offs)" "map iso_offset ds = off # offs"
    using Cons.IH [OF e(1)] by (simp_all add: e(4))
  ultimately show ?case by blast
qed simp

section \<open>Handlers\<close>

text \<open>A URB with its memory. A request in disguise holds the URB of its function.\<close>

definition urb_ok :: "transfer \<Rightarrow> bool" where
  "urb_ok t \<longleftrightarrow> length (tr_mem t) = unat (tr_length t) \<and> unat (tr_length t) < 2 ^ 31 \<and>
     tr_retrieve t \<noteq> STATUS_PENDING \<and> tr_alloc_ctx t \<noteq> STATUS_PENDING \<and>
     (case tr_urb t of
        SubControl h r \<Rightarrow> length (cx_SetupPacket r) = 8 \<and> cx_TransferBufferLength r = tr_length t \<and>
          (\<forall>endps. receive_request endps r \<noteq> None)
      | _ \<Rightarrow> True)"

text \<open>The command that belongs to a URB.\<close>

definition carries :: "bytes \<Rightarrow> transfer \<Rightarrow> header \<Rightarrow> bytes \<Rightarrow> bool" where
  "carries epd t h payload \<longleftrightarrow>
     (case tr_urb t of
        SubBulk _ _ \<Rightarrow>
          un1 h = tr_length t \<and> un3 h = - 1 \<and> payload = out_data t h \<and>
          direction h = (if usb_endpoint_dir_out (epd ! 2) then direction_out else direction_in)
      | SubIsoch _ _ start_frame offs \<Rightarrow>
          un1 h = tr_length t \<and> un2 h = start_frame \<and> un3 h = of_nat (length offs) \<and>
          direction h = (if usb_endpoint_dir_out (epd ! 2) then direction_out else direction_in) \<and>
          (\<exists>ds. map iso_offset ds = offs \<and> (\<forall>i < length offs. packet_ok (tr_length t) ((offs @ [tr_length t]) ! Suc i) (ds ! i)) \<and>
             payload = out_data t h @ concat (map iso_bytes (map bswap_iso ds)))
      | SubControl _ r \<Rightarrow>
          (\<exists>endps endps' r'. receive_request endps r = Some (STATUS_SUCCESS, endps', r') \<and>
             un1 h = ucast (wLength (cx_SetupPacket r')) \<and> un3 h = - 1 \<and> setup_pkt h = cx_SetupPacket r' \<and>
             direction h = (if is_transfer_dir_out (cx_SetupPacket r') then direction_out else direction_in) \<and>
             payload = out_data t h)
      | SubOther _ \<Rightarrow> False)"

lemma handled_ok_mono:
  assumes "handled_ok endp request \<sigma> P r" "\<And>h p. P h p \<Longrightarrow> Q h p"
  shows "handled_ok endp request \<sigma> Q r"
  using assms unfolding handled_ok_def by (metis (full_types))

lemma upd_handle_simps [simp]:
  "sb_lookaside (upd_handle endp h \<sigma>) = sb_lookaside \<sigma>" "sb_env (upd_handle endp h \<sigma>) = sb_env \<sigma>"
  "sb_wire (upd_handle endp h \<sigma>) = sb_wire \<sigma>" "sb_requests (upd_handle endp h \<sigma>) = sb_requests \<sigma>"
  "sb_done (upd_handle endp h \<sigma>) = sb_done \<sigma>" "sb_dev (upd_handle endp h \<sigma>) = sb_dev \<sigma>"
  "sb_descriptor (upd_handle endp h \<sigma>) = sb_descriptor \<sigma>"
  by (simp_all add: upd_handle_def)

text \<open>Changes of the pipe handles do not matter.\<close>

lemma handled_ok_endps:
  "handled_ok endp request (\<sigma>\<lparr>sb_endps := e\<rparr>) P r = handled_ok endp request \<sigma> P r"
  by (simp add: handled_ok_def sent_def nothing_sent_def)

lemma handled_ok_upd_handle:
  "handled_ok endp request (upd_handle endp h \<sigma>) P r = handled_ok endp request \<sigma> P r"
  by (simp add: handled_ok_def sent_def nothing_sent_def)

lemma submitter_ok_upd [simp]:
  "submitter_ok (upd_handle endp h \<sigma>) = submitter_ok \<sigma>" "submitter_ok (\<sigma>\<lparr>sb_endps := e\<rparr>) = submitter_ok \<sigma>"
  by (simp_all add: submitter_ok_def)

text \<open>A transfer without isochronous packets.\<close>

lemma submit_plain:
  assumes \<sigma>: "submitter_ok \<sigma>" and r: "request \<noteq> 0" "ep_object endp \<noteq> 0"
    and t: "length (tr_mem t) = unat (tr_length t)" "unat (tr_length t) < 2 ^ 31" "len \<le> tr_length t"
    and f: "\<And>ctx. fill ctx = (STATUS_SUCCESS, ctx\<lparr>wc_hdr := (wc_hdr ctx)\<lparr>setup_pkt := g ctx\<rparr>\<rparr>)"
    and g: "\<And>ctx. length (setup_pkt (wc_hdr ctx)) = 8 \<Longrightarrow> length (g ctx) = 8" "\<And>ctx. good (g ctx)"
  shows "handled_ok endp request \<sigma>
    (\<lambda>h payload. un1 h = len \<and> direction h = (if header_out (sb_descriptor \<sigma> (ep_object endp)) so
        then direction_out else direction_in) \<and> payload = out_data t h \<and> un3 h = - 1 \<and> good (setup_pkt h))
    (submit_ctx endp request t 0 flags len so fill \<sigma>)"
proof (rule handled_ok_mono [OF submit_ctx_ok [OF \<sigma> r t, where Q = "\<lambda>s8 f k isoc. k = - 1 \<and> isoc = [] \<and> good s8"]])
  show "unat (0 :: u32) \<le> 1024" by simp
  fix ctx err ctx'
  assume a: "fill ctx = (err, ctx')" "wc_is_isoc ctx = ((0 :: u32) \<noteq> 0)" "un3 (wc_hdr ctx) = - 1"
    "length (setup_pkt (wc_hdr ctx)) = 8"
  have c: "ctx' = ctx\<lparr>wc_hdr := (wc_hdr ctx)\<lparr>setup_pkt := g ctx\<rparr>\<rparr>" using a(1) f by simp
  have "wc_hdr ctx' = (wc_hdr ctx)\<lparr>un2 := un2 (wc_hdr ctx), un3 := - 1, setup_pkt := g ctx\<rparr>"
    by (simp add: c flip: a(3))
  moreover have "isoc_part ctx' = Some []" using a(2) by (simp add: c isoc_part_def)
  moreover have "err = STATUS_SUCCESS" using a(1) f by simp
  ultimately show "err \<noteq> STATUS_PENDING \<and> (err = STATUS_SUCCESS \<longrightarrow>
      (\<exists>s8 f k isoc. length s8 = 8 \<and> wc_hdr ctx' = (wc_hdr ctx)\<lparr>un2 := f, un3 := k, setup_pkt := s8\<rparr> \<and>
         isoc_part ctx' = Some isoc \<and> length isoc = 16 * isoc_count (sint k) \<and>
         (k = - 1 \<or> is_valid_number_of_packets (sint k) \<and> len = tr_length t) \<and> k = - 1 \<and> isoc = [] \<and> good s8))"
    using g(1) [OF a(4)] g(2)
    by (intro conjI impI exI [of _ "g ctx"] exI [of _ "un2 (wc_hdr ctx)"] exI [of _ "- 1"] exI [of _ "[]"])
      (simp_all add: isoc_count_def number_of_packets_non_isoch_def)
qed auto

lemma bulk_ok:
  assumes "submitter_ok \<sigma>" "request \<noteq> 0" "ep_object endp \<noteq> 0" "urb_ok t" "tr_urb t = SubBulk h flags"
  shows "handled_ok endp request \<sigma> (carries (sb_descriptor \<sigma> (ep_object endp)) t)
    (bulk_or_interrupt_transfer endp request t h flags \<sigma>)"
proof -
  have t: "length (tr_mem t) = unat (tr_length t)" "unat (tr_length t) < 2 ^ 31" using assms(4) by (simp_all add: urb_ok_def)
  have ok: "submitter_ok (upd_handle endp h \<sigma>)" using assms(1) by simp
  show ?thesis
    unfolding bulk_or_interrupt_transfer_def
    by (subst handled_ok_upd_handle [symmetric], rule handled_ok_mono,
        rule submit_plain [OF ok assms(2,3) t order_refl, where g = "\<lambda>ctx. setup_pkt (wc_hdr ctx)" and good = "\<lambda>_. True"])
      (simp_all add: carries_def assms(5) header_out_def)
qed

text \<open>The array of descriptors after \<^const>\<open>fill_isoc\<close>.\<close>

definition isoc_filled :: "u32 \<Rightarrow> u32 \<Rightarrow> u32 list \<Rightarrow> bytes \<Rightarrow> u32 \<Rightarrow> u32 \<Rightarrow> bytes \<Rightarrow> bool" where
  "isoc_filled tbl start_frame offs s8 f k isoc \<longleftrightarrow> f = start_frame \<and> k = of_nat (length offs) \<and>
     (\<exists>ds. repack tbl offs = Some ds \<and> isoc = concat (map iso_bytes (map bswap_iso ds)))"

lemma fill_isoc_part:
  fixes offs :: "u32 list"
  defines "n \<equiv> of_nat (length offs) :: u32"
  assumes a: "fill_isoc tbl start_frame offs ctx = (STATUS_SUCCESS, ctx')" "wc_is_isoc ctx = (n \<noteq> 0)"
      "n \<noteq> 0 \<Longrightarrow> wc_mdl_isoc ctx = 16 * unat n \<and> 16 * unat n \<le> length (wc_isoc ctx)"
    and n: "unat n = length offs"
  obtains ds where "repack tbl offs = Some ds" "length ds = length offs"
    "wc_hdr ctx' = (wc_hdr ctx)\<lparr>un2 := start_frame, un3 := n\<rparr>"
    "isoc_part ctx' = Some (concat (map iso_bytes (map bswap_iso ds)))"
proof -
  obtain ds where ds: "repack tbl offs = Some ds" using a(1) by (auto simp: fill_isoc_def split: option.splits)
  have len: "length ds = length offs" using repack_spec [OF ds] by simp
  have c: "ctx' = ctx\<lparr>wc_isoc := overwrite (wc_isoc ctx) 0 (concat (map iso_bytes ds)),
      wc_hdr := (wc_hdr ctx)\<lparr>un2 := start_frame, un3 := n\<rparr>\<rparr>"
    using a(1) ds by (simp add: fill_isoc_def n_def)
  have z: "n = 0 \<longleftrightarrow> offs = []" using n by (metis length_0_conv unsigned_0 unsigned_eq_0_iff)
  have "isoc_part ctx' = Some (concat (map iso_bytes (map bswap_iso ds)))"
  proof (cases "offs = []")
    case True
    then have "\<not> wc_is_isoc ctx'" "ds = []" using a(2) z len by (simp_all add: c)
    then show ?thesis by (simp add: isoc_part_def)
  next
    case False
    then show ?thesis using a(2,3) z n len
      by (intro isoc_part_written [where n = "length offs" and mem = "wc_isoc ctx"]) (simp_all add: c)
  qed
  then show thesis using ds len by (intro that) (simp_all add: c)
qed

lemma fill_isoc_ok:
  fixes offs :: "u32 list"
  defines "n \<equiv> of_nat (length offs) :: u32"
  assumes a: "fill_isoc tbl start_frame offs ctx = (err, ctx')" "wc_is_isoc ctx = (n \<noteq> 0)"
      "n \<noteq> 0 \<Longrightarrow> wc_mdl_isoc ctx = 16 * unat n \<and> 16 * unat n \<le> length (wc_isoc ctx)"
      "length (setup_pkt (wc_hdr ctx)) = 8" and n: "length offs \<le> 1024"
  shows "err \<noteq> STATUS_PENDING \<and> (err = STATUS_SUCCESS \<longrightarrow>
      (\<exists>s8 f k isoc. length s8 = 8 \<and> wc_hdr ctx' = (wc_hdr ctx)\<lparr>un2 := f, un3 := k, setup_pkt := s8\<rparr> \<and>
         isoc_part ctx' = Some isoc \<and> length isoc = 16 * isoc_count (sint k) \<and>
         (k = - 1 \<or> is_valid_number_of_packets (sint k) \<and> tbl = tbl) \<and>
         isoc_filled tbl start_frame offs s8 f k isoc))"
proof -
  have un: "unat n = length offs" using n by (simp add: n_def unat_of_nat take_bit_nat_eq_self)
  have s: "sint n = int (length offs)" using sint_of_nat_u32 [of "length offs"] n by (simp add: n_def)
  have "err = STATUS_SUCCESS \<or> err = STATUS_INVALID_PARAMETER"
    using a(1) by (auto simp: fill_isoc_def split: option.splits)
  moreover have "\<exists>s8 f k isoc. length s8 = 8 \<and> wc_hdr ctx' = (wc_hdr ctx)\<lparr>un2 := f, un3 := k, setup_pkt := s8\<rparr> \<and>
         isoc_part ctx' = Some isoc \<and> length isoc = 16 * isoc_count (sint k) \<and>
         (k = - 1 \<or> is_valid_number_of_packets (sint k) \<and> tbl = tbl) \<and>
         isoc_filled tbl start_frame offs s8 f k isoc" if "err = STATUS_SUCCESS"
  proof (rule fill_isoc_part [OF a(1) [unfolded that] a(2,3) [unfolded n_def] un [unfolded n_def]])
    fix ds
    assume d: "repack tbl offs = Some ds" "length ds = length offs"
      "wc_hdr ctx' = (wc_hdr ctx)\<lparr>un2 := start_frame, un3 := of_nat (length offs)\<rparr>"
      "isoc_part ctx' = Some (concat (map iso_bytes (map bswap_iso ds)))"
    have "length (concat (map iso_bytes (map bswap_iso ds))) = 16 * isoc_count (sint n)"
      using d(2) s by (simp only: length_iso_concat length_map)
        (simp add: isoc_count_def number_of_packets_non_isoch_def)
    moreover have "is_valid_number_of_packets (sint n)"
      using s n by (simp add: is_valid_number_of_packets_def max_iso_packets_def)
    moreover have "isoc_filled tbl start_frame offs (setup_pkt (wc_hdr ctx)) start_frame n
        (concat (map iso_bytes (map bswap_iso ds)))"
      using d(1) unfolding isoc_filled_def n_def by blast
    moreover have "wc_hdr ctx' = (wc_hdr ctx)\<lparr>un2 := start_frame, un3 := n, setup_pkt := setup_pkt (wc_hdr ctx)\<rparr>"
      by (simp add: d(3) n_def)
    ultimately show ?thesis using a(4) d(4) by blast
  qed
  ultimately show ?thesis by auto
qed

lemma isoch_ok:
  assumes "submitter_ok \<sigma>" "request \<noteq> 0" "ep_object endp \<noteq> 0" "urb_ok t" "tr_urb t = SubIsoch h flags start_frame offs"
  shows "handled_ok endp request \<sigma> (carries (sb_descriptor \<sigma> (ep_object endp)) t)
    (isoch_submit endp request t h flags start_frame offs \<sigma>)"
proof (cases "int (length offs) > max_iso_packets")
  case True
  then show ?thesis by (simp add: isoch_submit_def handled_ok_def nothing_sent_def)
next
  case False
  let ?n = "of_nat (length offs) :: u32"
  have n: "length offs \<le> 1024" using False by (simp add: max_iso_packets_def)
  then have un: "unat ?n \<le> 1024" by (simp add: unat_of_nat take_bit_nat_eq_self)
  have t: "length (tr_mem t) = unat (tr_length t)" "unat (tr_length t) < 2 ^ 31" using assms(4) by (simp_all add: urb_ok_def)
  have ok: "submitter_ok (upd_handle endp h \<sigma>)" using assms(1) by simp
  have carry: "carries (sb_descriptor \<sigma> (ep_object endp)) t hd payload"
    if "un1 hd = tr_length t \<and> direction hd = (if header_out (sb_descriptor (upd_handle endp h \<sigma>) (ep_object endp)) None
        then direction_out else direction_in) \<and>
      (\<exists>isoc. payload = out_data t hd @ isoc \<and>
         isoc_filled (tr_length t) start_frame offs (setup_pkt hd) (un2 hd) (un3 hd) isoc)" for hd payload
    using that repack_spec [of "tr_length t" offs]
    unfolding carries_def assms(5) header_out_def isoc_filled_def by auto
  have "handled_ok endp request (upd_handle endp h \<sigma>) (carries (sb_descriptor \<sigma> (ep_object endp)) t)
    (submit_ctx endp request t ?n (flags OR USBD_START_ISO_TRANSFER_ASAP) (tr_length t) None
       (fill_isoc (tr_length t) start_frame offs) (upd_handle endp h \<sigma>))"
    by (rule handled_ok_mono [OF submit_ctx_ok [OF ok assms(2,3) t order_refl un,
          where Q = "isoc_filled (tr_length t) start_frame offs"] carry], rule fill_isoc_ok) (use n in simp_all)
  then show ?thesis
    unfolding isoch_submit_def Let_def if_not_P [OF False] handled_ok_upd_handle .
qed

text \<open>The serial number fits the buffer.\<close>

lemma fill_serial:
  assumes "length mem = unat tbl" "retrieve \<noteq> STATUS_PENDING"
  shows "\<exists>st mem' tbl'. fill_usb_device_serial retrieve serial tbl mem = Some (st, mem', tbl') \<and> st \<noteq> STATUS_PENDING"
proof -
  have h: "usb_string_descr_size 0 = 2" by (simp add: usb_string_descr_size_def)
  have c: "length (concat (map (\<lambda>c. le16 (ucast (c :: u8) :: u16)) xs)) = 2 * length xs" for xs
    by (induction xs) simp_all
  have "2 + 2 * length (take (min ((unat tbl - 2) div 2) k) serial) \<le> unat tbl" if "\<not> unat tbl < 2" for k
    using that by auto
  then show ?thesis using assms
    by (auto simp: fill_usb_device_serial_def Let_def h c split: option.splits)
qed

lemma length_packet [simp]: "length (packet a b c d e) = 8"
  by (simp add: packet_def)

lemma setup_packets [simp]:
  "length (make_set_configuration c) = 8" "length (make_set_interface i a) = 8"
  "length (make_clear_endpoint_stall e) = 8" "length (make_reset_port p) = 8"
  by (simp_all add: make_set_configuration_def make_set_interface_def make_clear_endpoint_stall_def make_reset_port_def)

lemma receive_request_keeps:
  assumes "receive_request endps r = Some (st, endps', r')" "length (cx_SetupPacket r) = 8"
  shows "cx_TransferBufferLength r' = cx_TransferBufferLength r \<and> length (cx_SetupPacket r') = 8 \<and> st \<noteq> STATUS_PENDING"
proof (cases "is_request r")
  case False
  then show ?thesis using assms by (simp add: receive_request_def)
next
  case True
  then have u: "unpack_request endps (r\<lparr>cx_Timeout := 0\<rparr>) (fst (get_function r True)) = Some (st, endps', r')"
    using assms(1) by (simp add: receive_request_def get_function_def)
  show ?thesis
    using u assms(2) unfolding unpack_request_def clear_endpoint_stall_def select_configuration_def select_interface_def
    by (auto simp: Let_def split: if_splits option.splits urb.splits)
qed

lemma control_checked_ok:
  assumes \<sigma>: "submitter_ok \<sigma>" and rq: "request \<noteq> 0" "ep_object endp \<noteq> 0"
    and t: "length (tr_mem t) = unat (tr_length t)" "unat (tr_length t) < 2 ^ 31" "tr_retrieve t \<noteq> STATUS_PENDING"
    and r: "length (cx_SetupPacket r) = 8" "cx_TransferBufferLength r = tr_length t"
  shows "handled_ok endp request \<sigma>
      (\<lambda>hd payload. un1 hd = ucast (wLength (cx_SetupPacket r)) \<and> un3 hd = - 1 \<and> setup_pkt hd = cx_SetupPacket r \<and>
        direction hd = (if is_transfer_dir_out (cx_SetupPacket r) then direction_out else direction_in) \<and>
        payload = out_data t hd)
      (control_checked endp request t h r \<sigma>)" (is "handled_ok endp request \<sigma> ?P _")
proof -
  define w where "w = (ucast (wLength (cx_SetupPacket r)) :: u32)"
  have idle: "handled_ok endp request \<sigma> ?P (Some (st, x, \<sigma>))" if "st \<noteq> STATUS_PENDING" for st x
    using that by (simp add: handled_ok_def nothing_sent_def)
  have sub: "handled_ok endp request \<sigma> ?P (submit_control endp request t r w \<sigma>)" if "w \<le> tr_length t"
    unfolding submit_control_def
    by (rule handled_ok_mono [OF submit_plain [OF \<sigma> rq, where g = "\<lambda>_. cx_SetupPacket r" and
            good = "\<lambda>s. s = cx_SetupPacket r"]])
      (use t r that in \<open>simp_all add: w_def header_out_def\<close>)
  have clip: "(if tr_length t > w then w else tr_length t) = w" if "\<not> tr_length t < w"
    using that by auto
  obtain st mem tbl where fs: "fill_usb_device_serial (tr_retrieve t) (sb_serial \<sigma>) (tr_length t) (tr_mem t) =
      Some (st, mem, tbl)" "st \<noteq> STATUS_PENDING"
    using fill_serial [OF t(1,3)] by blast
  show ?thesis
  proof (cases "tr_length t < w")
    case True
    then show ?thesis using idle by (simp add: control_checked_def Let_def w_def [symmetric] r(2))
  next
    case False
    then have "w \<le> tr_length t" by simp
    then show ?thesis
      using idle [OF fs(2)] sub unfolding control_checked_def Let_def w_def [symmetric] r(2) fs(1) if_not_P [OF False] clip [OF False]
      by simp
  qed
qed

lemma control_ok:
  assumes \<sigma>: "submitter_ok \<sigma>" and rq: "request \<noteq> 0" "ep_object endp \<noteq> 0" and t: "urb_ok t" "tr_urb t = SubControl h r"
  shows "handled_ok endp request \<sigma> (carries (sb_descriptor \<sigma> (ep_object endp)) t)
    (control_transfer endp request t h r \<sigma>)"
proof -
  define \<sigma>1 where "\<sigma>1 = (if h = 0 then \<sigma> else upd_handle endp h \<sigma>)"
  have u: "length (tr_mem t) = unat (tr_length t)" "unat (tr_length t) < 2 ^ 31" "tr_retrieve t \<noteq> STATUS_PENDING"
    "length (cx_SetupPacket r) = 8" "cx_TransferBufferLength r = tr_length t" "receive_request (sb_endps \<sigma>1) r \<noteq> None"
    using t by (simp_all add: urb_ok_def)
  then obtain err endps r' where rr: "receive_request (sb_endps \<sigma>1) r = Some (err, endps, r')" by auto
  note k = receive_request_keeps [OF rr u(4)]
  define \<sigma>2 where "\<sigma>2 = \<sigma>1\<lparr>sb_endps := endps\<rparr>"
  define t2 where "t2 = set_control h r' t"
  have \<sigma>2: "submitter_ok \<sigma>2" "handled_ok endp request \<sigma>2 P x = handled_ok endp request \<sigma> P x" for P x
    using \<sigma> by (simp_all add: \<sigma>2_def \<sigma>1_def handled_ok_endps handled_ok_upd_handle)
  have t2: "tr_mem t2 = tr_mem t" "tr_length t2 = tr_length t" "tr_retrieve t2 = tr_retrieve t"
    using u(5) k by (simp_all add: t2_def set_control_def)
  have run: "control_transfer endp request t h r \<sigma> =
      (if err \<noteq> STATUS_SUCCESS then Some (err, t2, \<sigma>2) else control_checked endp request t2 h r' \<sigma>2)"
    unfolding control_transfer_def Let_def \<sigma>1_def [symmetric] rr option.case prod.case \<sigma>2_def t2_def by (rule refl)
  show ?thesis
  proof (cases "err = STATUS_SUCCESS")
    case False
    then show ?thesis unfolding run \<sigma>2(2) [symmetric] using k by (simp add: handled_ok_def nothing_sent_def)
  next
    case True
    have "handled_ok endp request \<sigma>2 (carries (sb_descriptor \<sigma> (ep_object endp)) t) (control_checked endp request t2 h r' \<sigma>2)"
      by (rule handled_ok_mono [OF control_checked_ok [OF \<sigma>2(1) rq]])
        (use u k t2 rr True in \<open>auto simp: carries_def t(2) out_data_def\<close>)
    then show ?thesis unfolding run \<sigma>2(2) using True by simp
  qed
qed

lemma usb_submit_urb_ok:
  assumes "submitter_ok \<sigma>" "request \<noteq> 0" "ep_object endp \<noteq> 0" "urb_ok t"
  shows "handled_ok endp request \<sigma> (carries (sb_descriptor \<sigma> (ep_object endp)) t) (usb_submit_urb endp request t \<sigma>)"
proof -
  have "handled_ok endp request \<sigma> P (Some (st, t, \<sigma>))" if "st \<noteq> STATUS_PENDING" for st P
    using that by (simp add: handled_ok_def nothing_sent_def)
  moreover have "tr_alloc_ctx t \<noteq> STATUS_PENDING" using assms(4) by (simp add: urb_ok_def)
  ultimately show ?thesis
    using control_ok [OF assms] bulk_ok [OF assms] isoch_ok [OF assms]
    by (cases "tr_urb t") (simp_all add: usb_submit_urb_def)
qed

section \<open>Commands without data\<close>

lemma alloc_header:
  assumes "alloc_wsk_context 0 \<sigma> = (Some ctx, \<sigma>1)" "submitter_ok \<sigma>"
  shows "\<exists>c \<in> set (sb_lookaside \<sigma>). wc_hdr ctx = wc_hdr c"
  using assms by (auto simp: alloc_wsk_context_def prepare_isoc_def Let_def split: list.splits if_splits)

lemma total_size_unlink: "command h = request_type_code CMD_UNLINK \<Longrightarrow> unat (get_total_size h) = sizeof_header"
  by (simp add: get_total_size_def get_isoc_descr_def to_request_type_def Let_def sizeof_header_def
      number_of_packets_non_isoch_def)

text \<open>An unlink command names the request; what an earlier command left in the rest of the header is sent
  along.\<close>

lemma unlink_sent:
  assumes "submitter_ok \<sigma>" "send_cmd_unlink_and_complete request seq c \<sigma> = Some \<sigma>'"
    and "\<forall>ctx \<in> set (sb_lookaside \<sigma>). length (setup_pkt (wc_hdr ctx)) = 8"
  shows "sb_done \<sigma>' = sb_done \<sigma> @ [(request, c)] \<and> sb_requests \<sigma>' = sb_requests \<sigma> \<and>
    (sb_wire \<sigma>' = sb_wire \<sigma> \<or>
     (\<exists>msg. sb_wire \<sigma>' = sb_wire \<sigma> @ [msg] \<and> command (msg_header msg) = request_type_code CMD_UNLINK \<and>
        un0 (msg_header msg) = seq \<and> devid (msg_header msg) = dev_devid (sb_dev \<sigma>) \<and> msg_payload msg = []))"
proof -
  obtain x \<sigma>1 where a: "alloc_wsk_context 0 \<sigma> = (x, \<sigma>1)" by force
  have A: "nothing_sent \<sigma> \<sigma>1 \<and> sb_dev \<sigma>1 = sb_dev \<sigma> \<and> (\<forall>ctx. x = Some ctx \<longrightarrow> \<not> wc_is_isoc ctx)"
    using alloc_some [OF a assms(1)] by simp
  show ?thesis
  proof (cases "sb_unplugged \<sigma> \<or> x = None")
    case True
    then show ?thesis using assms(2) a A
      by (auto simp: send_cmd_unlink_and_complete_def complete_with_def nothing_sent_def split: if_splits)
  next
    case False
    then obtain ctx where x: "x = Some ctx" by auto
    obtain hdr dv where u: "set_cmd_unlink_usbip_header (wc_hdr ctx) (sb_dev \<sigma>1) seq = (hdr, dv)" by force
    have h: "command hdr = request_type_code CMD_UNLINK" "un0 hdr = seq" "devid hdr = dev_devid (sb_dev \<sigma>)"
      "setup_pkt hdr = setup_pkt (wc_hdr ctx)"
      using u A by (auto simp: set_cmd_unlink_usbip_header_def split: prod.splits)
    have "length (setup_pkt hdr) = 8" using alloc_header [OF a [unfolded x] assms(1)] assms(3) h(4) by auto
    note m = msg_split [OF this]
    have "send_ctx 0 0 (ctx\<lparr>wc_hdr := hdr\<rparr>) None (\<sigma>1\<lparr>sb_dev := dv\<rparr>) = Some (STATUS_PENDING,
        \<sigma>1\<lparr>sb_dev := dv, sb_wire := sb_wire \<sigma>1 @ [header_bytes (byteswap_header hdr host2net)]\<rparr>)"
      using A x m(3) total_size_unlink [OF h(1)] by (simp add: send_ctx_def prepare_wsk_buf_def Let_def)
    then show ?thesis
      using assms(2) a x u False A h m(1,2) [of "[]"]
      by (auto simp: send_cmd_unlink_and_complete_def complete_with_def nothing_sent_def)
  qed
qed

section \<open>Properties\<close>

text \<open>C4. Every URB that reaches \<open>internal_control\<close> is either completed at once, and then nothing is sent
  and it is not in the list, or it is put in the list with a valid sequence number and exactly one
  message goes to the socket. The message is what the server needs: a submit command for this device
  with that sequence number, the direction of the setup packet or of the endpoint, the length of the
  transfer, for an OUT transfer the bytes of the transfer buffer, and for an isochronous transfer one
  descriptor for each packet, which reaches up to the next one. Nothing outside of the transfer
  buffer is read.\<close>

theorem urb_completed_or_sent:
  assumes "submitter_ok \<sigma>" "request \<noteq> 0" "ep_object endp \<noteq> 0" "urb_ok t"
  shows "\<exists>\<sigma>'. internal_control code endp request t \<sigma> = Some \<sigma>' \<and>
    ((\<exists>c. sb_done \<sigma>' = sb_done \<sigma> @ [(request, c)]) \<and> sb_wire \<sigma>' = sb_wire \<sigma> \<and> sb_requests \<sigma>' = sb_requests \<sigma> \<or>
     sb_done \<sigma>' = sb_done \<sigma> \<and>
     (\<exists>msg. sb_wire \<sigma>' = sb_wire \<sigma> @ [msg] \<and> good_command (sb_dev \<sigma>) (msg_header msg) \<and>
        sb_requests \<sigma>' = append_request (sb_requests \<sigma>) request (seqnum (msg_header msg)) (ep_object endp) \<and>
        carries (sb_descriptor \<sigma> (ep_object endp)) t (msg_header msg) (msg_payload msg)))"
proof -
  have h: "handled_ok endp request \<sigma> (carries (sb_descriptor \<sigma> (ep_object endp)) t) (usb_submit_urb endp request t \<sigma>)"
    by (rule usb_submit_urb_ok [OF assms])
  then obtain st t' \<sigma>' where r: "usb_submit_urb endp request t \<sigma> = Some (st, t', \<sigma>')"
    by (auto simp: handled_ok_def)
  then show ?thesis
    using h unfolding handled_ok_def
    by (cases "st = STATUS_PENDING")
      (auto simp: internal_control_def complete_with_def sent_def nothing_sent_def)
qed

text \<open>Three bytes to a bulk endpoint.\<close>

definition sample_submitter :: submitter where
  "sample_submitter = \<lparr>sb_dev = \<lparr>dev_seqnum = 0, dev_devid = 0x10002\<rparr>, sb_unplugged = False, sb_endps = [],
     sb_descriptor = (\<lambda>_. [7, 5, 2, 2, 0, 2, 0]), sb_ep0 = 9, sb_iserial = 0, sb_serial = [], sb_requests = [],
     sb_lookaside = [\<lparr>wc_hdr = zero_header, wc_is_isoc = False, wc_isoc = [], wc_mdl_isoc = 0, wc_buf_tail = False,
       wc_mdl_buf_tail = 0\<rparr>],
     sb_env = idle_env, sb_wire = [], sb_done = []\<rparr>"

definition sample_transfer :: transfer where
  "sample_transfer = \<lparr>tr_urb = SubBulk 0 0,
     tr_buf = \<lparr>TransferBufferLength = 3, TransferBufferMDL = [], has_TransferBuffer = True\<rparr>, tr_mem = [1, 2, 3],
     tr_retrieve = STATUS_SUCCESS, tr_mapped = True, tr_alloc = True, tr_has_ctx = True, tr_alloc_ctx = STATUS_SUCCESS\<rparr>"

definition sample_endpoint :: endpoint_ctx where
  "sample_endpoint = \<lparr>ep_object = 5, PipeHandle = 0, bEndpointAddress = 2\<rparr>"

lemma sample_not_completed:
  "internal_control IOCTL_INTERNAL_USB_SUBMIT_URB sample_endpoint 7 sample_transfer sample_submitter = Some \<sigma>' \<Longrightarrow>
   sb_done \<sigma>' = []"
  by (auto simp: internal_control_def IOCTL_INTERNAL_USB_SUBMIT_URB_def sample_submitter_def usb_submit_urb_def
      sample_transfer_def sample_endpoint_def bulk_or_interrupt_transfer_def submit_ctx_def upd_handle_def
      alloc_wsk_context_def prepare_isoc_def set_cmd_submit_usbip_header_def usbd_flag_defs Let_def
      send_ctx_def prepare_wsk_buf_def make_transfer_buffer_mdl_def prepare_mdl_def idle_env_def URB_BUF_LEN_def
      split: if_splits prod.splits)

theorem urb_completed_or_sent_witness:
  "\<exists>\<sigma>' msg. internal_control IOCTL_INTERNAL_USB_SUBMIT_URB sample_endpoint 7 sample_transfer sample_submitter = Some \<sigma>' \<and>
     sb_wire \<sigma>' = [msg] \<and> msg_payload msg = [1, 2, 3] \<and> length (sb_requests \<sigma>') = 1"
proof -
  have ok: "submitter_ok sample_submitter" "urb_ok sample_transfer" "ep_object sample_endpoint \<noteq> 0"
    by (simp_all add: submitter_ok_def sample_submitter_def idle_env_def wf_ctx_def urb_ok_def sample_transfer_def
        sample_endpoint_def)
  from urb_completed_or_sent [OF ok(1) _ ok(3,2), of 7 IOCTL_INTERNAL_USB_SUBMIT_URB] obtain \<sigma>' where
    s: "internal_control IOCTL_INTERNAL_USB_SUBMIT_URB sample_endpoint 7 sample_transfer sample_submitter = Some \<sigma>'"
    "(\<exists>c. sb_done \<sigma>' = sb_done sample_submitter @ [(7, c)]) \<or> (\<exists>msg. sb_wire \<sigma>' = sb_wire sample_submitter @ [msg] \<and>
        sb_requests \<sigma>' = append_request (sb_requests sample_submitter) 7 (seqnum (msg_header msg)) (ep_object sample_endpoint) \<and>
        carries (sb_descriptor sample_submitter (ep_object sample_endpoint)) sample_transfer (msg_header msg) (msg_payload msg))"
    by auto
  with sample_not_completed [OF s(1)] show ?thesis
    by (auto simp: sample_submitter_def sample_transfer_def append_request_def carries_def out_data_def usb_endpoint_dir_out_def)
qed

end
