(* ===== verification/Strconv.thy ===== *)
theory Strconv
  imports Attach_Work Reattach
begin

text \<open>
  Strings on both sides of the driver interface: \<open>drivers/libdrv/strconv.cpp\<close> (search and split of
  counted strings), \<open>is_ascii_alnum\<close> of \<open>include/usbip/vhci.h\<close> with the two validations of serial
  numbers built on it, and \<open>userspace/libusbip/src/strconv.cpp\<close> (conversions and MULTI_SZ lists).

  A \<open>UNICODE_STRING\<close> is the list of its \<open>Length / 2\<close> characters; a null buffer is the empty list. The
  conversions of Windows, \<open>MultiByteToWideChar\<close> and \<open>WideCharToMultiByte\<close>, are the parameter
  \<open>wide_api\<close>; the empty list is their return value zero.
\<close>

type_synonym wchar = u16
type_synonym wstring = "wchar list"

datatype win32 =
    ERROR_SUCCESS
  | ERROR_FILE_NOT_FOUND
  | ERROR_HANDLE_EOF
  | ERROR_INVALID_PARAMETER
  | ERROR_SEM_TIMEOUT
  | ERROR_INSUFFICIENT_BUFFER
  | ERROR_MORE_DATA
  | ERROR_NOT_FOUND
  | ERROR_NO_MATCH
  | WSAETIMEDOUT
  | WSAHOST_NOT_FOUND
  | WIN32_ABI
  | WIN32_SERIAL_NUMBER
  | WIN32_DRIVER_RESPONSE
  | WIN32_OTHER nat

section \<open>Serial numbers\<close>

definition SERIAL_BUFSZ :: nat where "SERIAL_BUFSZ = 16"

definition alnum :: "u8 \<Rightarrow> bool" where
  "alnum c \<longleftrightarrow> c \<le> 0x7A \<and> c \<ge> 0x61 \<or> c \<le> 0x5A \<and> c \<ge> 0x41 \<or> c \<le> 0x39 \<and> c \<ge> 0x30"

function ascii_alnum_loop :: "bytes \<Rightarrow> nat \<Rightarrow> nat \<Rightarrow> int" where
  "ascii_alnum_loop s maxlen i =
     (if i < maxlen then
        let c = s ! i in
        if c = 0 then int i
        else if \<not> alnum c then -1
        else ascii_alnum_loop s maxlen (i + 1)
      else int maxlen)"
  by pat_completeness auto
termination
  by (relation "measure (\<lambda>(_, maxlen, i). maxlen - i)") auto

declare ascii_alnum_loop.simps [simp del]

text \<open>\<open>None\<close> is the null pointer.\<close>

definition is_ascii_alnum :: "bytes option \<Rightarrow> int \<Rightarrow> int" where
  "is_ascii_alnum s maxlen =
     (case s of
        None \<Rightarrow> -1
      | Some b \<Rightarrow> if maxlen \<ge> 0 then ascii_alnum_loop b (nat maxlen) 0 else -1)"

definition validate_serial_number :: "bytes \<Rightarrow> ntstatus" where
  "validate_serial_number serial =
     (let len = is_ascii_alnum (Some serial) (int SERIAL_BUFSZ) in
      if len \<ge> 0 \<and> len < int SERIAL_BUFSZ then STATUS_SUCCESS else USBIP_ERROR_SERIAL_NUMBER)"

definition get_device_serial_maxlen :: int where
  "get_device_serial_maxlen = int SERIAL_BUFSZ - 1"

definition validate_device_serial :: "bytes \<Rightarrow> bool" where
  "validate_device_serial serial =
     (let sz = int (length serial); valid = sz \<le> get_device_serial_maxlen in
      if valid then let len = is_ascii_alnum (Some serial) sz in len \<ge> 0 \<and> len = sz else valid)"

text \<open>The string in an array: everything before the first null character.\<close>

definition cstr :: "'a::zero list \<Rightarrow> 'a list" where
  "cstr s = takeWhile (\<lambda>c. c \<noteq> 0) s"

section \<open>Counted strings of the driver\<close>

function strchr_loop :: "wstring \<Rightarrow> wchar \<Rightarrow> nat \<Rightarrow> int" where
  "strchr_loop s ch i =
     (if i < length s then if s ! i = ch then int i else strchr_loop s ch (i + 1) else -1)"
  by pat_completeness auto
termination
  by (relation "measure (\<lambda>(s, _, i). length s - i)") auto

declare strchr_loop.simps [simp del]

definition strchr :: "wstring \<Rightarrow> wchar \<Rightarrow> int" where
  "strchr s ch = strchr_loop s ch 0"

definition split_at :: "wstring \<Rightarrow> wchar \<Rightarrow> wstring \<times> wstring" where
  "split_at str sep =
     (let pos = strchr str sep in
      if pos < 0 then (str, [])
      else (take (nat pos) str, drop (nat pos + 1) str))"

section \<open>Conversions and lists of the client library\<close>

record wide_api =
  mb_to_wc :: "bytes \<Rightarrow> wstring"
  wc_to_mb :: "wstring \<Rightarrow> bytes"
  wide_error :: win32

definition utf8_to_wchar :: "wide_api \<Rightarrow> bytes \<Rightarrow> win32 + wstring" where
  "utf8_to_wchar api s =
     (let ws = mb_to_wc api s in if ws = [] then Inl (wide_error api) else Inr ws)"

definition wchar_to_utf8 :: "wide_api \<Rightarrow> wstring \<Rightarrow> win32 + bytes" where
  "wchar_to_utf8 api ws =
     (let s = wc_to_mb api ws in if s = [] then Inl (wide_error api) else Inr s)"

function split_multi_sz :: "wstring \<Rightarrow> wstring list" where
  "split_multi_sz str =
     (let len = length (cstr str) in
      if len = 0 then []
      else take len str # split_multi_sz (drop (min (len + 1) (length str)) str))"
  by pat_completeness auto
termination
proof (relation "measure length")
  fix str :: wstring and len
  assume "len = length (cstr str)" "len \<noteq> 0"
  moreover have "length (cstr str) \<le> length str" by (simp add: cstr_def length_takeWhile_le)
  ultimately have "0 < len" "len \<le> length str" by simp_all
  then show "(drop (min (len + 1) (length str)) str, str) \<in> measure length"
    by (auto simp: min_def)
qed simp

declare split_multi_sz.simps [simp del]

section \<open>Lemmas: serial numbers\<close>

lemma cstr_append_null: "0 \<notin> set s \<Longrightarrow> cstr (s @ 0 # t) = s"
  by (induction s) (auto simp: cstr_def)

lemma cstr_id: "0 \<notin> set s \<Longrightarrow> cstr s = s"
  by (induction s) (auto simp: cstr_def)

lemma cstr_no_null: "0 \<notin> set (cstr s)"
  by (metis cstr_def set_takeWhileD)

lemma ascii_alnum_loop_eq:
  "maxlen \<le> length s \<Longrightarrow> i \<le> maxlen \<Longrightarrow>
   ascii_alnum_loop s maxlen i =
     (let t = cstr (drop i (take maxlen s)) in if list_all alnum t then int (i + length t) else -1)"
proof (induction s maxlen i rule: ascii_alnum_loop.induct)
  case (1 s maxlen i)
  show ?case
  proof (cases "i < maxlen")
    case True
    then have "drop i (take maxlen s) = s ! i # drop (i + 1) (take maxlen s)"
      using 1(2) by (simp add: Cons_nth_drop_Suc [symmetric])
    then show ?thesis
      using 1 True by (subst ascii_alnum_loop.simps) (auto simp: Let_def cstr_def)
  next
    case False
    then show ?thesis using 1(3) by (subst ascii_alnum_loop.simps) (simp add: cstr_def)
  qed
qed

text \<open>The driver accepts a terminated string of letters and digits, the library a string of at most
  15 of them.\<close>

lemma validate_serial_number_iff:
  "length s = SERIAL_BUFSZ \<Longrightarrow>
   validate_serial_number s = STATUS_SUCCESS \<longleftrightarrow> length (cstr s) < SERIAL_BUFSZ \<and> list_all alnum (cstr s)"
  by (auto simp: validate_serial_number_def is_ascii_alnum_def ascii_alnum_loop_eq Let_def)

lemma alnum_zero [simp]: "\<not> alnum 0"
  by (simp add: alnum_def)

lemma list_all_alnum_no_null: "list_all alnum s \<Longrightarrow> 0 \<notin> set s"
  by (auto simp: list_all_iff)

lemma validate_device_serial_iff:
  "validate_device_serial s \<longleftrightarrow> length s < SERIAL_BUFSZ \<and> list_all alnum s"
proof -
  have "list_all alnum s \<longleftrightarrow> list_all alnum (cstr s) \<and> length (cstr s) = length s"
  proof
    assume "list_all alnum s"
    then show "list_all alnum (cstr s) \<and> length (cstr s) = length s"
      using cstr_id [OF list_all_alnum_no_null, of s] by simp
  next
    assume a: "list_all alnum (cstr s) \<and> length (cstr s) = length s"
    then have "cstr s = s" unfolding cstr_def
      by (metis takeWhile_dropWhile_id append_Nil2 length_append add_cancel_left_right length_0_conv)
    with a show "list_all alnum s" by simp
  qed
  then show ?thesis
    by (auto simp: validate_device_serial_def get_device_serial_maxlen_def is_ascii_alnum_def
        ascii_alnum_loop_eq Let_def SERIAL_BUFSZ_def)
qed

section \<open>Lemmas: splitting\<close>

lemma strchr_loop_eq:
  "i \<le> length s \<Longrightarrow> strchr_loop s ch i =
     (let n = i + length (takeWhile (\<lambda>c. c \<noteq> ch) (drop i s)) in if n < length s then int n else -1)"
proof (induction s ch i rule: strchr_loop.induct)
  case (1 s ch i)
  show ?case
  proof (cases "i < length s")
    case True
    then have "drop i s = s ! i # drop (i + 1) s" by (simp add: Cons_nth_drop_Suc)
    then show ?thesis
      using 1 True by (subst strchr_loop.simps) (auto simp: Let_def)
  next
    case False
    then show ?thesis using 1(2) by (subst strchr_loop.simps) simp
  qed
qed

lemma strchr_found: "ch \<notin> set a \<Longrightarrow> strchr (a @ ch # b) ch = int (length a)"
proof -
  assume "ch \<notin> set a"
  then have "takeWhile (\<lambda>c. c \<noteq> ch) (a @ ch # b) = a" by (induction a) auto
  then show ?thesis by (simp add: strchr_def strchr_loop_eq Let_def del: takeWhile_eq_all_conv)
qed

lemma strchr_none: "ch \<notin> set a \<Longrightarrow> strchr a ch = -1"
proof -
  assume "ch \<notin> set a"
  then have "takeWhile (\<lambda>c. c \<noteq> ch) a = a" by (induction a) auto
  then show ?thesis by (simp add: strchr_def strchr_loop_eq Let_def del: takeWhile_eq_all_conv)
qed

lemma split_at_found: "sep \<notin> set a \<Longrightarrow> split_at (a @ sep # b) sep = (a, b)"
  by (simp add: split_at_def strchr_found)

lemma split_at_none: "sep \<notin> set a \<Longrightarrow> split_at a sep = (a, [])"
  by (simp add: split_at_def strchr_none)

lemma split_multi_sz_Cons:
  assumes "s \<noteq> []" "0 \<notin> set s"
  shows "split_multi_sz (s @ 0 # t) = s # split_multi_sz t"
  using assms by (subst split_multi_sz.simps) (simp add: cstr_append_null Let_def)

lemma split_multi_sz_Nil: "split_multi_sz [] = []" "split_multi_sz (0 # t) = []"
  by (subst split_multi_sz.simps, simp add: cstr_def)+

text \<open>The strings of a list are those that were written, if none is empty or has a null inside.\<close>

lemma split_multi_sz_concat:
  "\<forall>s\<in>set ss. s \<noteq> [] \<and> 0 \<notin> set s \<Longrightarrow>
   split_multi_sz (concat (map (\<lambda>s. s @ [0]) ss) @ 0 # t) = ss"
  by (induction ss) (simp_all add: split_multi_sz_Cons split_multi_sz_Nil)

end
