(* ===== verification/Persistent.thy ===== *)
theory Persistent
  imports Strconv
begin

text \<open>
  Persistent devices: the list \<open>host,port,busid,serial\<close> that the client library writes to the registry
  through \<open>SET_PERSISTENT\<close> and reads through \<open>GET_PERSISTENT\<close> (\<open>userspace/libusbip/src/persistent.cpp\<close>),
  the two handlers of the driver (\<open>vhci_ioctl.cpp\<close>), and what the driver does with the list when the
  controller starts (\<open>persistent.cpp\<close>): it parses every string and starts attach attempts.

  Parameters: the registry (\<^typ>\<open>'r registry_api\<close> of the key of the persistent state), the string
  conversions of Windows, \<open>RtlUnicodeToUTF8N\<close> (\<open>rtl\<close>, from the string and the size of the buffer),
  \<open>RtlHashUnicodeString\<close>, the answers of the framework, and \<open>dos\<close>, the error code that \<open>GetLastError\<close>
  returns for a status.
\<close>

section \<open>Locations and attributes\<close>

record imported_device_location =
  lc_port :: int
  lc_busid :: bytes
  lc_service :: bytes
  lc_host :: bytes

definition SERVICE_SIZE :: nat where "SERVICE_SIZE = 32"
definition HOST_SIZE :: nat where "HOST_SIZE = 1025"

record plugin_hardware =
  pw_size :: nat
  pw_location :: imported_device_location
  pw_serial :: bytes

definition SIZEOF_PLUGIN_HARDWARE :: nat where
  "SIZEOF_PLUGIN_HARDWARE = 4 + 1096 + SERIAL_BUFSZ"

record device_attributes =
  at_node_name :: wstring
  at_service_name :: wstring
  at_busid :: wstring
  at_location_hash :: u32
  at_properties :: imported_device_properties

definition zero_properties :: imported_device_properties where
  "zero_properties = \<lparr>pr_devid = 0, pr_speed = 0, pr_vendor = 0, pr_product = 0,
     pr_serial = replicate SERIAL_BUFSZ 0, pr_iserial = 0\<rparr>"

definition zero_attributes :: device_attributes where
  "zero_attributes = \<lparr>at_node_name = [], at_service_name = [], at_busid = [], at_location_hash = 0,
     at_properties = zero_properties\<rparr>"

definition zero_location :: imported_device_location where
  "zero_location = \<lparr>lc_port = 0, lc_busid = replicate BUS_ID_SIZE 0,
     lc_service = replicate SERVICE_SIZE 0, lc_host = replicate HOST_SIZE 0\<rparr>"

definition zero_plugin_hardware :: plugin_hardware where
  "zero_plugin_hardware = \<lparr>pw_size = 0, pw_location = zero_location, pw_serial = replicate SERIAL_BUFSZ 0\<rparr>"

type_synonym utf8_rtl = "wstring \<Rightarrow> nat \<Rightarrow> ntstatus \<times> bytes"

text \<open>The fields are filled in this order; those before a failure stay.\<close>

definition fill_location ::
    "utf8_rtl \<Rightarrow> imported_device_location \<Rightarrow> device_attributes \<Rightarrow> ntstatus \<times> imported_device_location" where
  "fill_location rtl r attr =
     (case unicode_to_utf8 (rtl (at_node_name attr)) (lc_host r) of (err, host) \<Rightarrow>
        let r = r\<lparr>lc_host := host\<rparr> in
        if err \<noteq> STATUS_SUCCESS then (err, r)
        else case unicode_to_utf8 (rtl (at_service_name attr)) (lc_service r) of (err, service) \<Rightarrow>
          let r = r\<lparr>lc_service := service\<rparr> in
          if err \<noteq> STATUS_SUCCESS then (err, r)
          else case unicode_to_utf8 (rtl (at_busid attr)) (lc_busid r) of (err, busid) \<Rightarrow>
            (err, r\<lparr>lc_busid := busid\<rparr>))"

text \<open>\<open>h_alloc\<close> tells whether the buffer could be allocated, by its size.\<close>

record hash_env =
  h_alloc :: "nat \<Rightarrow> bool"
  h_rtl :: "wstring \<Rightarrow> ntstatus \<times> u32"

abbreviation comma :: wchar where "comma \<equiv> 0x2C"

text \<open>\<open>RtlUnicodeStringPrintf\<close> into a buffer of \<open>cb\<close> bytes.\<close>

definition unicode_string_printf :: "nat \<Rightarrow> wstring \<Rightarrow> ntstatus \<times> wstring" where
  "unicode_string_printf cb str =
     (if 2 * length str \<le> cb then (STATUS_SUCCESS, str)
      else (STATUS_BUFFER_OVERFLOW, take (cb div 2) str))"

text \<open>The size is a \<open>USHORT\<close>.\<close>

definition hash_location :: "hash_env \<Rightarrow> device_attributes \<Rightarrow> ntstatus \<times> u32" where
  "hash_location env r =
     (let cb = (2 * length (at_node_name r) + 2 * length (at_service_name r) + 2 * length (at_busid r) + 6)
                 mod 65536
      in if \<not> h_alloc env cb then (NT_OTHER_ERROR 0xC0001000, 0)
         else case unicode_string_printf cb
                (at_node_name r @ [comma] @ at_service_name r @ [comma] @ at_busid r) of
           (err, str) \<Rightarrow>
             if err \<noteq> STATUS_SUCCESS then (err, 0)
             else case h_rtl env str of
               (err, hash) \<Rightarrow> if err \<noteq> STATUS_SUCCESS then (err, hash) else (STATUS_SUCCESS, hash))"

section \<open>Attaching the devices of the list\<close>

definition empty_string :: "wstring \<Rightarrow> bool" where
  "empty_string s \<longleftrightarrow> length s = 0 \<or> hd s = 0"

definition parse_device_str ::
    "utf8_rtl \<Rightarrow> hash_env \<Rightarrow> device_attributes \<Rightarrow> wstring \<Rightarrow> ntstatus \<times> device_attributes" where
  "parse_device_str rtl env r device_str =
     (let (node_name, service_name) = split_at device_str comma;
          (service_name, busid) = split_at service_name comma;
          (busid, tail) = split_at busid comma;
          r = r\<lparr>at_node_name := node_name, at_service_name := service_name, at_busid := busid\<rparr>
      in case unicode_to_utf8 (rtl tail) (pr_serial (at_properties r)) of
        (err, serial) \<Rightarrow>
          let r = r\<lparr>at_properties := (at_properties r)\<lparr>pr_serial := serial\<rparr>\<rparr> in
          if err \<noteq> STATUS_SUCCESS then (err, r)
          else if validate_serial_number serial \<noteq> STATUS_SUCCESS then (validate_serial_number serial, r)
          else if empty_string node_name \<or> empty_string service_name \<or> empty_string busid
          then (STATUS_INVALID_PARAMETER, r)
          else case hash_location env r of (err, hash) \<Rightarrow> (err, r\<lparr>at_location_hash := hash\<rparr>))"

text \<open>\<open>RtlStringCbCopyNA\<close>: at most \<open>cb\<close> bytes of the source into \<open>dst\<close>, terminated.\<close>

definition string_copy :: "bytes \<Rightarrow> bytes \<Rightarrow> nat \<Rightarrow> ntstatus \<times> bytes" where
  "string_copy dst src cb =
     (let t = cstr (take cb src) in
      if length t < length dst then (STATUS_SUCCESS, overwrite dst 0 (t @ [0]))
      else (STATUS_BUFFER_OVERFLOW, overwrite dst 0 (take (length dst - 1) t @ [0])))"

definition init_attach_inbuf :: "utf8_rtl \<Rightarrow> device_attributes \<Rightarrow> plugin_hardware option" where
  "init_attach_inbuf rtl attr =
     (let req = zero_plugin_hardware\<lparr>pw_size := SIZEOF_PLUGIN_HARDWARE\<rparr> in
      case string_copy (pw_serial req) (pr_serial (at_properties attr)) SERIAL_BUFSZ of
        (err, serial) \<Rightarrow>
          if err \<noteq> STATUS_SUCCESS then None
          else case fill_location rtl (pw_location req) attr of
            (st, loc) \<Rightarrow>
              if NT_SUCCESS st then Some (req\<lparr>pw_serial := serial, pw_location := loc\<rparr>) else None)"

text \<open>The answers of the framework to one request: its handle, the state of the flag \<open>removing\<close>,
  creation of the request, of its buffers and of its timer, its addition to the collection, and the
  send.\<close>

record request_env =
  rq_handle :: wdf_handle
  rq_removing :: bool
  rq_request :: bool
  rq_inbuf :: bool
  rq_outbuf :: bool
  rq_timer :: bool
  rq_add :: bool
  rq_format :: ntstatus
  rq_sent :: bool

definition create_attach_request ::
    "utf8_rtl \<Rightarrow> request_env \<Rightarrow> device_attributes \<Rightarrow> plugin_hardware option" where
  "create_attach_request rtl env attr =
     (if \<not> rq_request env then None
      else if \<not> (rq_inbuf env \<and> rq_outbuf env \<and> rq_timer env) then None
      else case init_attach_inbuf rtl attr of
        None \<Rightarrow> None
      | Some buf \<Rightarrow> if rq_add env then Some buf else None)"

record attach_request =
  aq_handle :: wdf_handle
  aq_ctx :: attach_ctx
  aq_inbuf :: plugin_hardware

text \<open>A request that could not be sent is deleted, and its cleanup takes it out of the collection.\<close>

definition start_device_attempts ::
    "utf8_rtl \<Rightarrow> reattach_cfg \<Rightarrow> int \<Rightarrow> request_env \<Rightarrow> device_attributes \<Rightarrow> bool \<Rightarrow>
     attach_request list \<Rightarrow> attach_request list" where
  "start_device_attempts rtl cfg dev_cnt env attr delayed reqs =
     (let buf = create_attach_request rtl env attr in
      case start_attach_attempts cfg (rq_removing env) (of_nat (length reqs)) dev_cnt (buf \<noteq> None)
             (rq_format env) (rq_sent env) (at_location_hash attr) delayed of
        None \<Rightarrow> reqs
      | Some ctx \<Rightarrow>
          if ar_phase ctx = Deleted then reqs
          else reqs @ [\<lparr>aq_handle = rq_handle env, aq_ctx = ctx, aq_inbuf = the buf\<rparr>])"

text \<open>Creation of the collection, opening of the key, \<open>WdfRegistryQueryMultiString\<close>.\<close>

definition get_persistent_strings ::
    "ntstatus \<Rightarrow> ntstatus \<Rightarrow> ntstatus \<times> wstring list \<Rightarrow> u32 \<Rightarrow> wstring list \<times> u32" where
  "get_persistent_strings col key_st query max_cnt =
     (let strs = (if NT_SUCCESS key_st \<and> col = STATUS_SUCCESS \<and> fst query = STATUS_SUCCESS
                  then Some (snd query) else None)
      in case strs of None \<Rightarrow> ([], 0) | Some ss \<Rightarrow> (ss, min (of_nat (length ss)) max_cnt))"

fun plugin_persistent_loop ::
    "utf8_rtl \<Rightarrow> hash_env \<Rightarrow> reattach_cfg \<Rightarrow> int \<Rightarrow> (nat \<Rightarrow> request_env) \<Rightarrow> nat \<Rightarrow> wstring list \<Rightarrow>
     attach_request list \<Rightarrow> attach_request list" where
  "plugin_persistent_loop rtl henv cfg dev_cnt env i [] reqs = reqs"
| "plugin_persistent_loop rtl henv cfg dev_cnt env i (str # strs) reqs =
     (case parse_device_str rtl henv zero_attributes str of
        (err, attr) \<Rightarrow>
          plugin_persistent_loop rtl henv cfg dev_cnt env (i + 1) strs
            (if err \<noteq> STATUS_SUCCESS then reqs
             else start_device_attempts rtl cfg dev_cnt (env i) attr False reqs))"

definition plugin_persistent_devices ::
    "utf8_rtl \<Rightarrow> hash_env \<Rightarrow> reattach_cfg \<Rightarrow> int \<Rightarrow> (nat \<Rightarrow> request_env) \<Rightarrow>
     wstring list \<times> u32 \<Rightarrow> attach_request list \<Rightarrow> attach_request list" where
  "plugin_persistent_devices rtl henv cfg dev_cnt env col reqs =
     (case col of (strs, cnt) \<Rightarrow>
        plugin_persistent_loop rtl henv cfg dev_cnt env 0 (take (unat cnt) strs) reqs)"

section \<open>The handlers of the driver\<close>

definition REG_MULTI_SZ :: u32 where "REG_MULTI_SZ = 7"

definition set_persistent :: "'r registry_api \<Rightarrow> 'r \<Rightarrow> ntstatus + bytes \<Rightarrow> ntstatus \<times> 'r" where
  "set_persistent api r buf =
     (case buf of
        Inl err \<Rightarrow> (err, r)
      | Inr b \<Rightarrow>
          let err = reg_open api r True in
          if err \<noteq> STATUS_SUCCESS then (err, r) else reg_assign api r REG_MULTI_SZ b)"

text \<open>The status, the buffer and the number of bytes that the request reports.\<close>

definition get_persistent :: "'r registry_api \<Rightarrow> 'r \<Rightarrow> ntstatus + bytes \<Rightarrow> ntstatus \<times> bytes \<times> nat" where
  "get_persistent api r buf =
     (case buf of
        Inl err \<Rightarrow> (err, [], 0)
      | Inr b \<Rightarrow>
          let err = reg_open api r False in
          if err \<noteq> STATUS_SUCCESS then (err, b, 0)
          else case reg_query api r b of
            (st, b, actual, type) \<Rightarrow>
              if st \<noteq> STATUS_SUCCESS then (st, b, unat actual)
              else if type \<noteq> REG_MULTI_SZ then (STATUS_INVALID_CONFIG_VALUE, b, 0)
              else (st, b, unat actual))"

section \<open>The client library\<close>

record persistent_device =
  pd_hostname :: bytes
  pd_service :: bytes
  pd_busid :: bytes
  pd_serial :: bytes

definition is_malformed :: "persistent_device \<Rightarrow> bool" where
  "is_malformed d \<longleftrightarrow>
     pd_hostname d = [] \<or> pd_service d = [] \<or> pd_busid d = [] \<or> \<not> validate_device_serial (pd_serial d)"

text \<open>\<open>std::format("{},{},{},{}")\<close>\<close>

definition device_text :: "persistent_device \<Rightarrow> bytes" where
  "device_text d =
     pd_hostname d @ [0x2C] @ pd_service d @ [0x2C] @ pd_busid d @ [0x2C] @ pd_serial d"

fun multi_sz_loop :: "wide_api \<Rightarrow> persistent_device list \<Rightarrow> wstring \<Rightarrow> win32 + wstring" where
  "multi_sz_loop api [] multi_sz = Inr multi_sz"
| "multi_sz_loop api (d # ds) multi_sz =
     (if is_malformed d then Inl ERROR_INVALID_PARAMETER
      else case utf8_to_wchar api (device_text d) of
        Inl _ \<Rightarrow> Inl ERROR_INVALID_PARAMETER
      | Inr ws \<Rightarrow> multi_sz_loop api ds (multi_sz @ ws @ [0]))"

definition make_multi_sz :: "wide_api \<Rightarrow> persistent_device list \<Rightarrow> win32 + wstring" where
  "make_multi_sz api ds =
     (case multi_sz_loop api ds [] of
        Inl err \<Rightarrow> Inl err
      | Inr multi_sz \<Rightarrow> Inr (multi_sz @ replicate (of_bool (ds = []) + 1) 0))"

text \<open>The view \<open>str | std::views::split(',')\<close> and its iterator: \<open>None\<close> is the end, \<open>Some s\<close> the element
  that begins with \<open>s\<close>. An empty string has no elements.\<close>

definition split_begin :: "bytes \<Rightarrow> bytes option" where
  "split_begin str = (if str = [] then None else Some str)"

fun split_next :: "bytes option \<Rightarrow> bytes \<times> bytes option" where
  "split_next None = ([], None)"
| "split_next (Some s) =
     (case dropWhile (\<lambda>c. c \<noteq> 0x2C) s of
        [] \<Rightarrow> (s, None)
      | _ # rest \<Rightarrow> (takeWhile (\<lambda>c. c \<noteq> 0x2C) s, Some rest))"

definition parse_persistent_device :: "bytes \<Rightarrow> persistent_device" where
  "parse_persistent_device str =
     (let (hostname, it) = split_next (split_begin str);
          (service, it) = split_next it;
          (busid, it) = split_next it
      in \<lparr>pd_hostname = hostname, pd_service = service, pd_busid = busid,
          pd_serial = (case it of None \<Rightarrow> [] | Some rest \<Rightarrow> rest)\<rparr>)"

text \<open>A string of wide characters in memory.\<close>

definition wbytes :: "wstring \<Rightarrow> bytes" where
  "wbytes ws = concat (map le16 ws)"

primrec wchars_of :: "nat \<Rightarrow> bytes \<Rightarrow> wstring" where
  "wchars_of 0 bs = []"
| "wchars_of (Suc n) bs = of_le16 (take 2 bs) # wchars_of n (drop 2 bs)"

definition resize :: "nat \<Rightarrow> wstring \<Rightarrow> wstring" where
  "resize n ws = take n ws @ replicate (n - length ws) 0"

text \<open>\<open>ioctl k\<close> is the answer of the driver to the \<open>k\<close>-th call. The loop ends when the driver does not
  ask for a larger buffer; not returning is \<open>None\<close>. The inner \<open>Inl\<close> is the error of the last call.\<close>

partial_function (option) get_persistent_loop ::
    "(ntstatus \<Rightarrow> win32) \<Rightarrow> (nat \<Rightarrow> bytes \<Rightarrow> ntstatus \<times> bytes \<times> nat) \<Rightarrow> nat \<Rightarrow> wstring \<Rightarrow>
     (win32 + wstring) option" where
  "get_persistent_loop dos ioctl k val =
     (case ioctl k (wbytes val) of
        (st, buf, bytes_returned) \<Rightarrow>
          let ok = NT_SUCCESS st; val = wchars_of (length val) buf in
          if ok \<or> dos st = ERROR_MORE_DATA then
            let val = resize (bytes_returned div 2) val in
            if ok then Some (Inr val) else get_persistent_loop dos ioctl (k + 1) val
          else Some (Inl (dos st)))"

definition get_persistent_value ::
    "(ntstatus \<Rightarrow> win32) \<Rightarrow> (nat \<Rightarrow> bytes \<Rightarrow> ntstatus \<times> bytes \<times> nat) \<Rightarrow> (win32 + wstring) option" where
  "get_persistent_value dos ioctl = get_persistent_loop dos ioctl 0 (replicate 512 0)"

fun parse_strings :: "wide_api \<Rightarrow> wstring list \<Rightarrow> persistent_device list" where
  "parse_strings api [] = []"
| "parse_strings api (ws # r) =
     (case wchar_to_utf8 api ws of
        Inl _ \<Rightarrow> parse_strings api r
      | Inr s \<Rightarrow>
          let d = parse_persistent_device s in
          if is_malformed d then parse_strings api r else d # parse_strings api r)"

text \<open>\<open>usbip::vhci::set_persistent\<close> and \<open>get_persistent\<close>; the latter gives \<open>None\<close> for no result and
  \<open>Some []\<close> if the value is absent.\<close>

definition client_set_persistent ::
    "wide_api \<Rightarrow> (bytes \<Rightarrow> ntstatus \<times> 'r) \<Rightarrow> 'r \<Rightarrow> persistent_device list \<Rightarrow> bool \<times> 'r" where
  "client_set_persistent api ioctl r ds =
     (case make_multi_sz api ds of
        Inl _ \<Rightarrow> (False, r)
      | Inr val \<Rightarrow> (case ioctl (wbytes val) of (st, r') \<Rightarrow> (NT_SUCCESS st, r')))"

definition client_get_persistent ::
    "wide_api \<Rightarrow> (ntstatus \<Rightarrow> win32) \<Rightarrow> (nat \<Rightarrow> bytes \<Rightarrow> ntstatus \<times> bytes \<times> nat) \<Rightarrow>
     persistent_device list option option" where
  "client_get_persistent api dos ioctl =
     (case get_persistent_value dos ioctl of
        None \<Rightarrow> None
      | Some (Inl err) \<Rightarrow> Some (if err = ERROR_FILE_NOT_FOUND then Some [] else None)
      | Some (Inr multi_sz) \<Rightarrow> Some (Some (parse_strings api (split_multi_sz multi_sz))))"

section \<open>What the conversions promise\<close>

text \<open>
  What the code relies on of the conversions between UTF-8 and UTF-16: they work character by
  character, so on well-formed strings (\<open>valid\<close>) they commute with concatenation, ASCII characters
  are converted to themselves and come only from themselves, a round trip gives the string back,
  a UTF-16 string has no more units than the UTF-8 string bytes, and \<open>RtlUnicodeToUTF8N\<close> gives the
  same bytes if they fit.
\<close>

definition wide_law :: "wide_api \<Rightarrow> utf8_rtl \<Rightarrow> (bytes \<Rightarrow> bool) \<Rightarrow> bool" where
  "wide_law api rtl valid \<longleftrightarrow>
     valid [] \<and> mb_to_wc api [] = [] \<and>
     (\<forall>c. c < 0x80 \<longrightarrow> valid [c] \<and> mb_to_wc api [c] = [ucast c]) \<and>
     (\<forall>s t. valid s \<longrightarrow> valid t \<longrightarrow> valid (s @ t) \<and> mb_to_wc api (s @ t) = mb_to_wc api s @ mb_to_wc api t) \<and>
     (\<forall>s. valid s \<longrightarrow> wc_to_mb api (mb_to_wc api s) = s \<and> length (mb_to_wc api s) \<le> length s \<and>
        (\<forall>c. c < 0x80 \<longrightarrow> ucast c \<in> set (mb_to_wc api s) \<longrightarrow> c \<in> set s)) \<and>
     (\<forall>s n. valid s \<longrightarrow> length s \<le> n \<longrightarrow> rtl (mb_to_wc api s) n = (STATUS_SUCCESS, s))"

lemma wide_lawD:
  assumes "wide_law api rtl valid"
  shows "valid []" "mb_to_wc api [] = []"
    and "c < 0x80 \<Longrightarrow> valid [c]" "c < 0x80 \<Longrightarrow> mb_to_wc api [c] = [ucast c]"
    and "valid s \<Longrightarrow> valid t \<Longrightarrow> valid (s @ t)"
    and "valid s \<Longrightarrow> valid t \<Longrightarrow> mb_to_wc api (s @ t) = mb_to_wc api s @ mb_to_wc api t"
    and "valid s \<Longrightarrow> wc_to_mb api (mb_to_wc api s) = s"
    and "valid s \<Longrightarrow> length (mb_to_wc api s) \<le> length s"
    and "valid s \<Longrightarrow> c < 0x80 \<Longrightarrow> ucast c \<in> set (mb_to_wc api s) \<Longrightarrow> c \<in> set s"
    and "valid s \<Longrightarrow> length s \<le> n \<Longrightarrow> rtl (mb_to_wc api s) n = (STATUS_SUCCESS, s)"
  using assms unfolding wide_law_def by blast+

lemma wide_nonempty:
  assumes "wide_law api rtl valid" "valid s" "s \<noteq> []"
  shows "mb_to_wc api s \<noteq> []"
  using wide_lawD(2,7) [OF assms(1)] wide_lawD(1) [OF assms(1)] assms(2,3) by metis

lemma valid_alnum: "wide_law api rtl valid \<Longrightarrow> list_all alnum s \<Longrightarrow> valid s"
proof (induction s)
  case (Cons c s)
  then have "c < 0x80" by (auto simp: alnum_def word_less_nat_alt word_le_nat_alt)
  then have "valid ([c] @ s)" using Cons by (intro wide_lawD(3,5) [OF Cons.prems(1)]) simp_all
  then show ?case by simp
qed (simp add: wide_lawD(1))

text \<open>The devices that can be stored: well-formed strings without separators inside.\<close>

definition plain :: "(bytes \<Rightarrow> bool) \<Rightarrow> bytes \<Rightarrow> bool" where
  "plain valid s \<longleftrightarrow> valid s \<and> 0 \<notin> set s \<and> 0x2C \<notin> set s"

definition storable :: "(bytes \<Rightarrow> bool) \<Rightarrow> persistent_device \<Rightarrow> bool" where
  "storable valid d \<longleftrightarrow> \<not> is_malformed d \<and>
     plain valid (pd_hostname d) \<and> plain valid (pd_service d) \<and> plain valid (pd_busid d)"

lemma plain_alnum:
  assumes "wide_law api rtl valid" "list_all alnum s"
  shows "plain valid s"
  using valid_alnum [OF assms] assms(2) by (auto simp: plain_def list_all_iff alnum_def)

lemma storable_serial:
  assumes "wide_law api rtl valid" "storable valid d"
  shows "plain valid (pd_serial d)" "list_all alnum (pd_serial d)" "length (pd_serial d) < SERIAL_BUFSZ"
  using plain_alnum [OF assms(1)] assms(2)
  by (simp_all add: storable_def is_malformed_def validate_device_serial_iff)

lemma plain_wide:
  assumes "wide_law api rtl valid" "plain valid s"
  shows "0 \<notin> set (mb_to_wc api s)" "comma \<notin> set (mb_to_wc api s)"
proof -
  have "(ucast (0 :: u8) :: wchar) = 0" "(ucast (0x2C :: u8) :: wchar) = comma" by simp_all
  then show "0 \<notin> set (mb_to_wc api s)" "comma \<notin> set (mb_to_wc api s)"
    using wide_lawD(9) [OF assms(1), of s 0] wide_lawD(9) [OF assms(1), of s "0x2C"] assms(2)
    by (auto simp: plain_def)
qed

text \<open>The text of a device and what it is in wide characters.\<close>

definition device_wtext :: "wide_api \<Rightarrow> persistent_device \<Rightarrow> wstring" where
  "device_wtext api d =
     mb_to_wc api (pd_hostname d) @ comma # mb_to_wc api (pd_service d) @ comma #
     mb_to_wc api (pd_busid d) @ comma # mb_to_wc api (pd_serial d)"

lemma device_text_wide:
  assumes "wide_law api rtl valid" "storable valid d"
  shows "valid (device_text d)" "mb_to_wc api (device_text d) = device_wtext api d"
proof -
  note v = storable_serial(1) [OF assms] assms(2)
  have f: "valid (pd_hostname d)" "valid (pd_service d)" "valid (pd_busid d)" "valid (pd_serial d)"
    using v by (simp_all add: storable_def plain_def)
  note c = wide_lawD(3,4) [OF assms(1), of "0x2C"]
  have sep: "valid (0x2C # t) \<and> mb_to_wc api (0x2C # t) = comma # mb_to_wc api t" if "valid t" for t
    using wide_lawD(5,6) [OF assms(1) c(1) that] c(2) by simp
  note app = wide_lawD(5,6) [OF assms(1)]
  show "valid (device_text d)" using f by (simp add: device_text_def app(1) sep)
  show "mb_to_wc api (device_text d) = device_wtext api d"
    using f by (simp add: device_text_def device_wtext_def app sep)
qed

lemma device_wtext_plain:
  assumes "wide_law api rtl valid" "storable valid d"
  shows "device_wtext api d \<noteq> [] \<and> 0 \<notin> set (device_wtext api d)"
  using plain_wide(1) [OF assms(1)] storable_serial(1) [OF assms] assms(2)
  by (auto simp: device_wtext_def storable_def)

section \<open>The list that is written\<close>

lemma multi_sz_loop_eq:
  assumes "wide_law api rtl valid"
  shows "list_all (storable valid) ds \<Longrightarrow>
    multi_sz_loop api ds acc = Inr (acc @ concat (map (\<lambda>s. s @ [0]) (map (device_wtext api) ds)))"
proof (induction ds arbitrary: acc)
  case (Cons d ds)
  then have d: "storable valid d" by simp
  have "\<not> is_malformed d" using d by (simp add: storable_def)
  with Cons show ?case
    using device_text_wide(2) [OF assms d] device_wtext_plain [OF assms d]
    by (simp add: utf8_to_wchar_def Let_def)
qed simp

lemma make_multi_sz_eq:
  assumes "wide_law api rtl valid" "list_all (storable valid) ds"
  shows "\<exists>t. make_multi_sz api ds = Inr (concat (map (\<lambda>s. s @ [0]) (map (device_wtext api) ds)) @ 0 # t)"
  using multi_sz_loop_eq [OF assms, of "[]"] by (simp add: make_multi_sz_def)

lemma split_make_multi_sz:
  assumes "wide_law api rtl valid" "list_all (storable valid) ds" "make_multi_sz api ds = Inr w"
  shows "split_multi_sz w = map (device_wtext api) ds"
proof -
  obtain t where w: "w = concat (map (\<lambda>s. s @ [0]) (map (device_wtext api) ds)) @ 0 # t"
    using make_multi_sz_eq [OF assms(1,2)] assms(3) by auto
  have "\<forall>s\<in>set (map (device_wtext api) ds). s \<noteq> [] \<and> 0 \<notin> set s"
    using device_wtext_plain [OF assms(1)] assms(2) by (auto simp: list_all_iff)
  then show ?thesis unfolding w by (rule split_multi_sz_concat)
qed

section \<open>Reading it in the client\<close>

lemma split_next_found: "0x2C \<notin> set a \<Longrightarrow> split_next (Some (a @ 0x2C # b)) = (a, Some b)"
proof -
  assume "0x2C \<notin> set a"
  then have "dropWhile (\<lambda>c. c \<noteq> 0x2C) (a @ 0x2C # b) = 0x2C # b" "takeWhile (\<lambda>c. c \<noteq> 0x2C) (a @ 0x2C # b) = a"
    by (induction a) auto
  then show ?thesis by simp
qed

lemma parse_device_text:
  assumes "storable valid d"
  shows "parse_persistent_device (device_text d) = d"
proof -
  have n: "0x2C \<notin> set (pd_hostname d)" "0x2C \<notin> set (pd_service d)" "0x2C \<notin> set (pd_busid d)"
    using assms by (simp_all add: storable_def plain_def)
  show ?thesis
    using split_next_found [OF n(1)] split_next_found [OF n(2)] split_next_found [OF n(3)]
    by (simp add: parse_persistent_device_def split_begin_def device_text_def)
qed

lemma parse_strings_eq:
  assumes "wide_law api rtl valid"
  shows "list_all (storable valid) ds \<Longrightarrow> parse_strings api (map (device_wtext api) ds) = ds"
proof (induction ds)
  case (Cons d ds)
  then have d: "storable valid d" by simp
  note t = device_text_wide [OF assms d]
  have "wc_to_mb api (device_wtext api d) = device_text d"
    using wide_lawD(7) [OF assms t(1)] t(2) by simp
  moreover have "device_text d \<noteq> []" by (simp add: device_text_def)
  ultimately show ?case
    using Cons parse_device_text [OF d] d
    by (simp add: wchar_to_utf8_def Let_def storable_def)
qed simp

section \<open>The registry value\<close>

text \<open>What the code relies on of the registry: a value that was assigned is returned, with its type,
  by a query with a large enough buffer; a query with a smaller one gives \<open>STATUS_BUFFER_OVERFLOW\<close>
  and the size of the value.\<close>

definition persistent_law :: "'r registry_api \<Rightarrow> bool" where
  "persistent_law reg \<longleftrightarrow>
     (\<forall>r data st r' buf. reg_assign reg r REG_MULTI_SZ data = (st, r') \<longrightarrow> NT_SUCCESS st \<longrightarrow>
        (if length data \<le> length buf
         then reg_query reg r' buf = (STATUS_SUCCESS, overwrite buf 0 data, of_nat (length data), REG_MULTI_SZ)
         else \<exists>ty. reg_query reg r' buf = (STATUS_BUFFER_OVERFLOW, buf, of_nat (length data), ty)))"

lemma length_wbytes [simp]: "length (wbytes ws) = 2 * length ws"
  by (induction ws) (simp_all add: wbytes_def)

lemma wchars_of_wbytes: "wchars_of (length ws) (wbytes ws @ rest) = ws"
  by (induction ws) (simp_all add: wbytes_def)

lemma wchars_of_take: "n \<le> m \<Longrightarrow> take n (wchars_of m bs) = wchars_of n bs"
  by (induction m arbitrary: n bs) (auto simp: take_Cons' less_Suc_eq_le split: nat.splits elim: lessE)

lemma length_wchars_of [simp]: "length (wchars_of n bs) = n"
  by (induction n arbitrary: bs) simp_all

text \<open>The handler on a stored value: it fits, or the request reports more bytes than it has room for.\<close>

lemma get_persistent_stored:
  assumes "persistent_law reg" "reg_assign reg r REG_MULTI_SZ data = (st, r')" "NT_SUCCESS st"
    and "reg_open reg r' False = STATUS_SUCCESS" "length data < 2 ^ 32"
  shows "get_persistent reg r' (Inr buf) =
    (if length data \<le> length buf then (STATUS_SUCCESS, overwrite buf 0 data, length data)
     else (STATUS_BUFFER_OVERFLOW, buf, length data))"
proof -
  have u: "unat (of_nat (length data) :: u32) = length data"
    using assms(5) by (simp add: unat_of_nat take_bit_nat_eq_self)
  show ?thesis
  proof (cases "length data \<le> length buf")
    case True
    with assms(1-3) have "reg_query reg r' buf =
        (STATUS_SUCCESS, overwrite buf 0 data, of_nat (length data), REG_MULTI_SZ)"
      unfolding persistent_law_def by presburger
    with True u assms(4) show ?thesis by (simp add: get_persistent_def Let_def)
  next
    case False
    with assms(1-3) obtain ty where
      "reg_query reg r' buf = (STATUS_BUFFER_OVERFLOW, buf, of_nat (length data), ty)"
      unfolding persistent_law_def by presburger
    with False u assms(4) show ?thesis by (simp add: get_persistent_def Let_def)
  qed
qed

text \<open>The loop of the client: at most one larger buffer.\<close>

lemma resize_value:
  assumes "length ws \<le> n"
  shows "resize (length ws) (wchars_of n (overwrite buf 0 (wbytes ws))) = ws"
  using assms by (simp add: resize_def wchars_of_take overwrite_def wchars_of_wbytes)

lemma get_persistent_loop_fits:
  assumes "\<And>k buf. 2 * length ws \<le> length buf \<Longrightarrow>
      ioctl k buf = (STATUS_SUCCESS, overwrite buf 0 (wbytes ws), 2 * length ws)"
    and "length ws \<le> length val"
  shows "get_persistent_loop dos ioctl k val = Some (Inr ws)"
  using assms by (subst get_persistent_loop.simps) (simp add: resize_value)

lemma get_persistent_value_eq:
  assumes "\<And>k buf. ioctl k buf =
      (if 2 * length ws \<le> length buf then (STATUS_SUCCESS, overwrite buf 0 (wbytes ws), 2 * length ws)
       else (STATUS_BUFFER_OVERFLOW, buf, 2 * length ws))"
    and "dos STATUS_BUFFER_OVERFLOW = ERROR_MORE_DATA"
  shows "get_persistent_value dos ioctl = Some (Inr ws)"
proof (cases "length ws \<le> 512")
  case True
  then show ?thesis
    using get_persistent_loop_fits [of ws ioctl "replicate 512 0"] assms(1)
    by (simp add: get_persistent_value_def)
next
  case False
  let ?val = "wchars_of 512 (wbytes (replicate 512 0))"
  have w: "\<not> NT_SUCCESS STATUS_BUFFER_OVERFLOW" by (simp add: NT_SUCCESS_def)
  have "get_persistent_value dos ioctl = get_persistent_loop dos ioctl 1 (resize (length ws) ?val)"
    unfolding get_persistent_value_def
    using False w by (subst get_persistent_loop.simps) (simp add: assms)
  moreover have "length ws \<le> length (resize (length ws) ?val)" by (simp add: resize_def)
  ultimately show ?thesis using get_persistent_loop_fits [of ws ioctl] assms(1) by simp
qed

section \<open>The driver on the list\<close>

lemma unicode_to_utf8_fits:
  assumes "wide_law api rtl valid" "valid s" "length s < n"
  shows "unicode_to_utf8 (rtl (mb_to_wc api s)) (replicate n 0) =
    (STATUS_SUCCESS, s @ replicate (n - length s) 0)"
proof -
  have "rtl (mb_to_wc api s) n = (STATUS_SUCCESS, s)"
    using assms by (intro wide_lawD(10) [OF assms(1)]) simp_all
  moreover have "(s @ replicate (n - length s) 0)[length s := 0] = s @ replicate (n - length s) 0"
    using assms(3) by (simp add: list_update_append) (cases "n - length s"; simp)
  ultimately show ?thesis
    using assms(3) by (simp add: unicode_to_utf8_def overwrite_def Let_def)
qed

text \<open>The device in the request of the driver to itself, and the text its hash is computed from.\<close>

definition padded :: "nat \<Rightarrow> bytes \<Rightarrow> bytes" where
  "padded n s = s @ replicate (n - length s) 0"

definition request_of :: "persistent_device \<Rightarrow> plugin_hardware" where
  "request_of d =
     \<lparr>pw_size = SIZEOF_PLUGIN_HARDWARE,
      pw_location = \<lparr>lc_port = 0, lc_busid = padded BUS_ID_SIZE (pd_busid d),
        lc_service = padded SERVICE_SIZE (pd_service d), lc_host = padded HOST_SIZE (pd_hostname d)\<rparr>,
      pw_serial = padded SERIAL_BUFSZ (pd_serial d)\<rparr>"

definition location_text :: "wide_api \<Rightarrow> persistent_device \<Rightarrow> wstring" where
  "location_text api d =
     mb_to_wc api (pd_hostname d) @ [comma] @ mb_to_wc api (pd_service d) @ [comma] @ mb_to_wc api (pd_busid d)"

definition name_fits :: "persistent_device \<Rightarrow> bool" where
  "name_fits d \<longleftrightarrow> length (pd_hostname d) < HOST_SIZE \<and> length (pd_service d) < SERVICE_SIZE \<and>
     length (pd_busid d) < BUS_ID_SIZE"

definition attributes_of :: "wide_api \<Rightarrow> hash_env \<Rightarrow> persistent_device \<Rightarrow> device_attributes" where
  "attributes_of api henv d =
     \<lparr>at_node_name = mb_to_wc api (pd_hostname d), at_service_name = mb_to_wc api (pd_service d),
      at_busid = mb_to_wc api (pd_busid d), at_location_hash = snd (h_rtl henv (location_text api d)),
      at_properties = zero_properties\<lparr>pr_serial := padded SERIAL_BUFSZ (pd_serial d)\<rparr>\<rparr>"

text \<open>What the hash of a location needs: memory and a hash.\<close>

definition hash_works :: "hash_env \<Rightarrow> bool" where
  "hash_works henv \<longleftrightarrow> (\<forall>n. h_alloc henv n) \<and> (\<forall>s. fst (h_rtl henv s) = STATUS_SUCCESS)"

lemmas size_defs = HOST_SIZE_def SERVICE_SIZE_def BUS_ID_SIZE_def SERIAL_BUFSZ_def

lemma hash_location_works:
  assumes "hash_works henv"
    and "length (at_node_name r) + length (at_service_name r) + length (at_busid r) < 32765"
  shows "hash_location henv r = (STATUS_SUCCESS,
    snd (h_rtl henv (at_node_name r @ [comma] @ at_service_name r @ [comma] @ at_busid r)))"
  using assms
  by (simp add: hash_location_def hash_works_def unicode_string_printf_def Let_def split: prod.splits)
    (metis fst_conv snd_conv)

lemma cstr_padded: "0 \<notin> set s \<Longrightarrow> cstr (padded n s) = s"
  by (cases "n - length s") (simp_all add: padded_def cstr_append_null cstr_id)

lemma empty_wide:
  assumes "wide_law api rtl valid" "plain valid s" "s \<noteq> []"
  shows "\<not> empty_string (mb_to_wc api s)"
  using wide_nonempty [OF assms(1) _ assms(3)] plain_wide(1) [OF assms(1,2)] assms(2)
  by (cases "mb_to_wc api s") (auto simp: empty_string_def plain_def)

lemma parse_device_str_wtext:
  assumes law: "wide_law api rtl valid" and d: "storable valid d" and "name_fits d" "hash_works henv"
  shows "parse_device_str rtl henv zero_attributes (device_wtext api d) =
    (STATUS_SUCCESS, attributes_of api henv d)"
proof -
  note ser = storable_serial [OF law d]
  have pl: "plain valid (pd_hostname d)" "plain valid (pd_service d)" "plain valid (pd_busid d)"
    and ne: "pd_hostname d \<noteq> []" "pd_service d \<noteq> []" "pd_busid d \<noteq> []"
    using d by (simp_all add: storable_def is_malformed_def)
  note c = plain_wide(2) [OF law pl(1)] plain_wide(2) [OF law pl(2)] plain_wide(2) [OF law pl(3)]
  have s: "split_at (device_wtext api d) comma = (mb_to_wc api (pd_hostname d),
        mb_to_wc api (pd_service d) @ comma # mb_to_wc api (pd_busid d) @ comma # mb_to_wc api (pd_serial d))"
      "split_at (mb_to_wc api (pd_service d) @ comma # mb_to_wc api (pd_busid d) @ comma # mb_to_wc api (pd_serial d)) comma =
        (mb_to_wc api (pd_service d), mb_to_wc api (pd_busid d) @ comma # mb_to_wc api (pd_serial d))"
      "split_at (mb_to_wc api (pd_busid d) @ comma # mb_to_wc api (pd_serial d)) comma =
        (mb_to_wc api (pd_busid d), mb_to_wc api (pd_serial d))"
    using c by (simp_all add: device_wtext_def split_at_found)
  have u: "unicode_to_utf8 (rtl (mb_to_wc api (pd_serial d))) (replicate SERIAL_BUFSZ 0) =
      (STATUS_SUCCESS, padded SERIAL_BUFSZ (pd_serial d))"
    using ser unicode_to_utf8_fits [OF law] by (simp add: plain_def padded_def)
  have v: "validate_serial_number (padded SERIAL_BUFSZ (pd_serial d)) = STATUS_SUCCESS"
    using ser cstr_padded [OF list_all_alnum_no_null [OF ser(2)], of SERIAL_BUFSZ]
    by (subst validate_serial_number_iff) (simp_all add: padded_def)
  note e = empty_wide [OF law pl(1) ne(1)] empty_wide [OF law pl(2) ne(2)] empty_wide [OF law pl(3) ne(3)]
  have "length (mb_to_wc api (pd_hostname d)) + length (mb_to_wc api (pd_service d)) +
      length (mb_to_wc api (pd_busid d)) < 32765"
    using wide_lawD(8) [OF law, of "pd_hostname d"] wide_lawD(8) [OF law, of "pd_service d"]
      wide_lawD(8) [OF law, of "pd_busid d"] pl \<open>name_fits d\<close>
    by (simp add: plain_def name_fits_def size_defs)
  then show ?thesis
    by (simp add: parse_device_str_def s u v e zero_attributes_def zero_properties_def
        hash_location_works [OF assms(4)] attributes_of_def location_text_def)
qed

lemma string_copy_padded:
  assumes "0 \<notin> set s" "length s < SERIAL_BUFSZ"
  shows "string_copy (replicate SERIAL_BUFSZ 0) (padded SERIAL_BUFSZ s) SERIAL_BUFSZ =
    (STATUS_SUCCESS, padded SERIAL_BUFSZ s)"
proof -
  have "take SERIAL_BUFSZ (padded SERIAL_BUFSZ s) = padded SERIAL_BUFSZ s"
    using assms(2) by (simp add: padded_def)
  moreover have "[0] @ drop (Suc (length s)) (replicate SERIAL_BUFSZ (0 :: u8)) =
      replicate (SERIAL_BUFSZ - length s) 0"
    using assms(2) by (cases "SERIAL_BUFSZ - length s") (simp_all add: Suc_diff_Suc)
  ultimately show ?thesis
    using assms(2) by (simp add: string_copy_def cstr_padded [OF assms(1)] overwrite_def Let_def)
      (simp add: padded_def)
qed

lemma init_attach_inbuf_of:
  assumes law: "wide_law api rtl valid" and d: "storable valid d" and f: "name_fits d"
  shows "init_attach_inbuf rtl (attributes_of api henv d) = Some (request_of d)"
proof -
  note ser = storable_serial [OF law d]
  have v: "valid (pd_hostname d)" "valid (pd_service d)" "valid (pd_busid d)"
    using d by (simp_all add: storable_def plain_def)
  have "fill_location rtl zero_location (attributes_of api henv d) = (STATUS_SUCCESS, pw_location (request_of d))"
    using f unicode_to_utf8_fits [OF law v(1), of HOST_SIZE] unicode_to_utf8_fits [OF law v(2), of SERVICE_SIZE]
      unicode_to_utf8_fits [OF law v(3), of BUS_ID_SIZE]
    by (simp add: fill_location_def attributes_of_def zero_location_def name_fits_def request_of_def padded_def)
  moreover have "string_copy (replicate SERIAL_BUFSZ 0) (padded SERIAL_BUFSZ (pd_serial d)) SERIAL_BUFSZ =
      (STATUS_SUCCESS, padded SERIAL_BUFSZ (pd_serial d))"
    using ser by (intro string_copy_padded list_all_alnum_no_null)
  ultimately show ?thesis
    by (simp add: init_attach_inbuf_def zero_plugin_hardware_def attributes_of_def request_of_def Let_def)
qed

text \<open>The framework grants everything, and the controller is not being removed.\<close>

definition granted :: "request_env \<Rightarrow> bool" where
  "granted env \<longleftrightarrow> \<not> rq_removing env \<and> rq_request env \<and> rq_inbuf env \<and> rq_outbuf env \<and> rq_timer env \<and>
     rq_add env \<and> rq_format env = STATUS_SUCCESS \<and> rq_sent env"

definition sent_request :: "wide_api \<Rightarrow> hash_env \<Rightarrow> reattach_cfg \<Rightarrow> request_env \<Rightarrow> persistent_device \<Rightarrow> attach_request" where
  "sent_request api henv cfg env d =
     \<lparr>aq_handle = rq_handle env,
      aq_ctx = \<lparr>ar_location_hash = snd (h_rtl henv (location_text api d)), ar_retry_cnt = 0,
        ar_delay = reattach_first_delay cfg, ar_phase = Sent, ar_sent = 1, ar_waited = 0\<rparr>,
      aq_inbuf = request_of d\<rparr>"

lemma start_device_attempts_of:
  assumes "wide_law api rtl valid" "storable valid d" "name_fits d" "granted env"
    and "length reqs < 4 * nat dev_cnt" "0 < dev_cnt" "dev_cnt < 2 ^ 29"
  shows "start_device_attempts rtl cfg dev_cnt env (attributes_of api henv d) False reqs =
    reqs @ [sent_request api henv cfg env d]"
proof -
  have "\<not> (4 * word_of_int dev_cnt :: u32) \<le> of_nat (length reqs)"
  proof -
    have "(4 * word_of_int dev_cnt :: u32) = of_nat (4 * nat dev_cnt)"
      using assms(6) by simp
    moreover have "unat (of_nat (4 * nat dev_cnt) :: u32) = 4 * nat dev_cnt"
      "unat (of_nat (length reqs) :: u32) = length reqs"
      using assms(5-7) by (simp_all only: unat_of_nat) (simp_all add: take_bit_nat_eq_self nat_less_iff)
    ultimately show ?thesis using assms(5) by (simp add: word_le_nat_alt)
  qed
  moreover have "create_attach_request rtl env (attributes_of api henv d) = Some (request_of d)"
    using init_attach_inbuf_of [OF assms(1-3)] assms(4) by (simp add: create_attach_request_def granted_def)
  ultimately show ?thesis
    using assms(4)
    by (simp add: start_device_attempts_def start_attach_attempts_def granted_def Let_def
        send_plugin_hardware_def init_attach_ctx_def attributes_of_def sent_request_def)
qed

lemma plugin_persistent_loop_of:
  assumes law: "wide_law api rtl valid" and h: "hash_works henv" and g: "\<And>i. granted (env i)"
    and cnt: "0 < dev_cnt" "dev_cnt < 2 ^ 29"
  shows "list_all (\<lambda>d. storable valid d \<and> name_fits d) ds \<Longrightarrow> length reqs + length ds \<le> nat dev_cnt \<Longrightarrow>
    plugin_persistent_loop rtl henv cfg dev_cnt env i (map (device_wtext api) ds) reqs =
      reqs @ map (\<lambda>(j, d). sent_request api henv cfg (env (i + j)) d) (enumerate 0 ds)"
proof (induction ds arbitrary: i reqs)
  case (Cons d ds)
  then have d: "storable valid d" "name_fits d" by simp_all
  have "length reqs < 4 * nat dev_cnt" using Cons.prems(2) by simp
  note s = start_device_attempts_of [OF law d g this cnt, of cfg i henv]
  have "plugin_persistent_loop rtl henv cfg dev_cnt env (i + 1) (map (device_wtext api) ds)
        (reqs @ [sent_request api henv cfg (env i) d]) =
      reqs @ [sent_request api henv cfg (env i) d] @
        map (\<lambda>(j, d). sent_request api henv cfg (env (i + 1 + j)) d) (enumerate 0 ds)"
    using Cons by simp
  then show ?case
    using parse_device_str_wtext [OF law d h] s by (simp add: enumerate_Suc_eq o_def case_prod_beta')
qed simp

section \<open>Properties\<close>



text \<open>The handler of \<open>GET_PERSISTENT\<close> completes a request whose output buffer is smaller than the
  stored value with the size of the value as its number of bytes, which is more than the buffer has;
  the client relies on that number.\<close>

lemma get_persistent_reports_more:
  assumes "persistent_law reg" "reg_assign reg r REG_MULTI_SZ data = (STATUS_SUCCESS, r')"
    and "reg_open reg r' False = STATUS_SUCCESS" "length data < 2 ^ 32" "length buf < length data"
  shows "\<exists>n. get_persistent reg r' (Inr buf) = (STATUS_BUFFER_OVERFLOW, buf, n) \<and> length buf < n"
  using get_persistent_stored [OF assms(1,2) _ assms(3,4)] assms(5) by simp

section \<open>Instances\<close>

definition ascii_api :: wide_api where
  "ascii_api = \<lparr>mb_to_wc = map ucast, wc_to_mb = map ucast, wide_error = ERROR_INVALID_PARAMETER\<rparr>"

definition ascii :: "bytes \<Rightarrow> bool" where
  "ascii s \<longleftrightarrow> list_all (\<lambda>c. c < 0x80) s"

definition ascii_rtl :: utf8_rtl where
  "ascii_rtl ws n = (if length ws \<le> n then (STATUS_SUCCESS, map ucast ws)
     else (STATUS_BUFFER_TOO_SMALL, map ucast (take n ws)))"

lemma ucast_u16_u8: "ucast (ucast (c :: u8) :: u16) = c"
  by (rule bit_word_eqI) (simp add: bit_simps)

lemma ucast_in_image: "(ucast c :: u16) \<in> ucast ` A \<longleftrightarrow> (c :: u8) \<in> A"
  by (rule inj_image_mem_iff) (rule inj_on_inverseI [where g = ucast], rule ucast_u16_u8)

lemma map_ucast_u16_u8: "map (\<lambda>x. ucast (ucast (x :: u8) :: u16)) s = s"
  by (induction s) (simp_all add: ucast_u16_u8)

lemma wide_law_ascii: "wide_law ascii_api ascii_rtl ascii"
  unfolding wide_law_def
  by (intro conjI allI impI)
    (simp_all add: ascii_api_def ascii_def ascii_rtl_def o_def map_ucast_u16_u8 ucast_in_image)

lemma persistent_law_mem: "persistent_law mem_registry"
  by (simp add: persistent_law_def mem_registry_def)

definition stored_sample :: persistent_device where
  "stored_sample = \<lparr>pd_hostname = [0x70, 0x63], pd_service = [0x33], pd_busid = [0x33, 0x2D, 0x31], pd_serial = [0x41]\<rparr>"

lemma stored_sample_ok: "storable ascii stored_sample" "name_fits stored_sample"
  by (simp_all add: storable_def is_malformed_def validate_device_serial_iff stored_sample_def plain_def ascii_def
      alnum_def SERIAL_BUFSZ_def name_fits_def size_defs)

lemma sample_multi_sz:
  "\<exists>w. make_multi_sz ascii_api [stored_sample] = Inr w \<and> 2 * length w < 2 ^ 32"
  using multi_sz_loop_eq [OF wide_law_ascii, of "[stored_sample]" "[]"] stored_sample_ok(1)
  by (simp add: make_multi_sz_def device_wtext_def stored_sample_def ascii_api_def)


definition sample_hash :: hash_env where
  "sample_hash = \<lparr>h_alloc = (\<lambda>_. True), h_rtl = (\<lambda>s. (STATUS_SUCCESS, of_nat (length s)))\<rparr>"

definition sample_request_env :: request_env where
  "sample_request_env = \<lparr>rq_handle = 5, rq_removing = False, rq_request = True, rq_inbuf = True, rq_outbuf = True,
     rq_timer = True, rq_add = True, rq_format = STATUS_SUCCESS, rq_sent = True\<rparr>"


end
