(* ===== verification/Vhci_Ioctl.thy ===== *)
theory Vhci_Ioctl
  imports Persistent
begin

text \<open>
  The requests of clients to the driver (\<open>drivers/ude/vhci_ioctl.cpp\<close>): attaching, stopping of attach
  attempts, detaching of one or all devices, the list of attached devices, and their dispatch to the
  parallel and the sequential queue; with \<open>init_device_attributes\<close> of \<open>context.cpp\<close>,
  \<open>detach_all_devices\<close> and \<open>fill\<close> of \<open>vhci.cpp\<close>, and the request the driver sends to itself when a
  connection breaks (\<open>device.cpp\<close>).

  The buffer of a request is \<open>ntstatus + \<dots>\<close>: the error of \<open>WdfRequestRetrieveInputBuffer\<close> or
  \<open>WdfRequestRetrieveOutputBuffer\<close>, or its length and the structure in it. The devices of the controller
  are the record \<open>controller\<close>: the root hub and for every device the state that \<^const>\<open>detach\<close> works on.
\<close>

section \<open>Names of a device\<close>

text \<open>\<open>RtlUTF8ToUnicodeN\<close> and the allocation of its result.\<close>

record unicode_env =
  ue_convert :: "bytes \<Rightarrow> ntstatus \<times> wstring"
  ue_alloc :: "nat \<Rightarrow> bool"

definition utf8_string_to_unicode :: "unicode_env \<Rightarrow> wstring option \<Rightarrow> bytes \<Rightarrow> ntstatus \<times> wstring option" where
  "utf8_string_to_unicode env dst src =
     (if dst \<noteq> None then (STATUS_ALREADY_INITIALIZED, dst)
      else case ue_convert env src of
        (st, ws) \<Rightarrow>
          if NT_ERROR st then (st, dst)
          else if \<not> ue_alloc env (2 * length ws) then (STATUS_INSUFFICIENT_RESOURCES, dst)
          else (st, Some ws))"

text \<open>\<open>RtlStringCbLengthA\<close> fails on an array without a terminator.\<close>

definition utf8_to_unicode :: "unicode_env \<Rightarrow> wstring option \<Rightarrow> bytes \<Rightarrow> ntstatus \<times> wstring option" where
  "utf8_to_unicode env dst utf8 =
     (let s = cstr utf8 in
      if length s = length utf8 then (STATUS_INVALID_PARAMETER, dst)
      else utf8_string_to_unicode env dst s)"

definition save_name :: "unicode_env \<Rightarrow> bytes \<Rightarrow> ntstatus \<times> wstring" where
  "save_name env src =
     (if hd src = 0 then (STATUS_SUCCESS, [])
      else case utf8_to_unicode env None src of (err, ws) \<Rightarrow> (err, case ws of None \<Rightarrow> [] | Some w \<Rightarrow> w))"

definition save_device_location ::
    "unicode_env \<Rightarrow> device_attributes \<Rightarrow> imported_device_location \<Rightarrow> ntstatus \<times> device_attributes" where
  "save_device_location env attr r =
     (case save_name env (lc_host r) of (err, ws) \<Rightarrow>
        let attr = attr\<lparr>at_node_name := ws\<rparr> in
        if err \<noteq> STATUS_SUCCESS then (err, attr)
        else case save_name env (lc_service r) of (err, ws) \<Rightarrow>
          let attr = attr\<lparr>at_service_name := ws\<rparr> in
          if err \<noteq> STATUS_SUCCESS then (err, attr)
          else case save_name env (lc_busid r) of (err, ws) \<Rightarrow> (err, attr\<lparr>at_busid := ws\<rparr>))"

definition init_device_attributes ::
    "unicode_env \<Rightarrow> hash_env \<Rightarrow> device_attributes \<Rightarrow> imported_device_location \<Rightarrow> ntstatus \<times> device_attributes" where
  "init_device_attributes env henv attr loc =
     (case save_device_location env attr loc of (err, attr) \<Rightarrow>
        if err \<noteq> STATUS_SUCCESS then (err, attr)
        else case hash_location henv attr of (err, hash) \<Rightarrow> (err, attr\<lparr>at_location_hash := hash\<rparr>))"

text \<open>The memory of the device, its names and its serial number.\<close>

definition create_device_ctx_ext ::
    "ntstatus \<Rightarrow> unicode_env \<Rightarrow> hash_env \<Rightarrow> plugin_hardware \<Rightarrow> ntstatus \<times> device_attributes" where
  "create_device_ctx_ext memory env henv r =
     (if memory \<noteq> STATUS_SUCCESS then (memory, zero_attributes)
      else case init_device_attributes env henv zero_attributes (pw_location r) of (err, attr) \<Rightarrow>
        if err \<noteq> STATUS_SUCCESS then (err, attr)
        else case string_copy (pr_serial (at_properties attr)) (pw_serial r) SERIAL_BUFSZ of
          (err, serial) \<Rightarrow> (err, attr\<lparr>at_properties := (at_properties attr)\<lparr>pr_serial := serial\<rparr>\<rparr>))"

section \<open>Attaching\<close>

text \<open>What a request of a client does: the work item that was started, with the attributes of its
  device, and the completion of the request, which is \<open>STATUS_PENDING\<close> as long as the work item
  runs. The number of bytes it reports and the port in its buffer are set before.\<close>

record plugin_result =
  pi_status :: ntstatus
  pi_information :: nat
  pi_request :: "plugin_hardware option"
  pi_work_item :: "(device_attributes \<times> bool) option"

definition start_work_item ::
    "ntstatus \<Rightarrow> ntstatus \<Rightarrow> unicode_env \<Rightarrow> hash_env \<Rightarrow> plugin_hardware \<Rightarrow> bool \<Rightarrow>
     ntstatus \<times> (device_attributes \<times> bool) option" where
  "start_work_item work_item memory env henv r once =
     (if work_item \<noteq> STATUS_SUCCESS then (work_item, None)
      else case create_device_ctx_ext memory env henv r of (err, attr) \<Rightarrow>
        if err \<noteq> STATUS_SUCCESS then (err, None) else (STATUS_PENDING, Some (attr, once)))"

definition plugin_hardware_ioctl ::
    "ntstatus \<Rightarrow> ntstatus \<Rightarrow> unicode_env \<Rightarrow> hash_env \<Rightarrow> ntstatus + nat \<times> plugin_hardware \<Rightarrow> bool \<Rightarrow> plugin_result" where
  "plugin_hardware_ioctl work_item memory env henv buf once =
     (let failed = (\<lambda>st. \<lparr>pi_status = st, pi_information = 0, pi_request = None, pi_work_item = None\<rparr>) in
      case buf of
        Inl err \<Rightarrow> failed err
      | Inr (len, r) \<Rightarrow>
          if len \<noteq> SIZEOF_PLUGIN_HARDWARE then failed STATUS_INVALID_BUFFER_SIZE
          else if pw_size r \<noteq> len then failed USBIP_ERROR_ABI
          else if validate_serial_number (pw_serial r) \<noteq> STATUS_SUCCESS
          then failed (validate_serial_number (pw_serial r))
          else
            let r = r\<lparr>pw_location := (pw_location r)\<lparr>lc_port := 0\<rparr>\<rparr> in
            case start_work_item work_item memory env henv r once of (st, wi) \<Rightarrow>
              \<lparr>pi_status = st, pi_information = 8, pi_request = Some r, pi_work_item = wi\<rparr>)"

section \<open>Stopping attach attempts\<close>

definition SIZEOF_STOP_ATTACH_ATTEMPTS :: nat where
  "SIZEOF_STOP_ATTACH_ATTEMPTS = 4 + 1096 + 4"

record stop_request =
  sr_size :: nat
  sr_location :: imported_device_location
  sr_count :: int

text \<open>The status, the number of bytes, the buffer, and the requests that are cancelled and left.\<close>

definition stop_attach_attempts_ioctl ::
    "unicode_env \<Rightarrow> hash_env \<Rightarrow> reattach_req \<Rightarrow> ntstatus + nat \<times> stop_request \<Rightarrow>
     ntstatus \<times> nat \<times> stop_request option \<times> wdf_handle list \<times> reattach_req" where
  "stop_attach_attempts_ioctl env henv reqs buf =
     (case buf of
        Inl err \<Rightarrow> (err, 0, None, [], reqs)
      | Inr (len, r) \<Rightarrow>
          if len \<noteq> SIZEOF_STOP_ATTACH_ATTEMPTS then (STATUS_INVALID_BUFFER_SIZE, 0, Some r, [], reqs)
          else if sr_size r \<noteq> SIZEOF_STOP_ATTACH_ATTEMPTS then (USBIP_ERROR_ABI, 0, Some r, [], reqs)
          else
            let loc = sr_location r;
                cnt = of_bool (hd (lc_host loc) \<noteq> 0) + of_bool (hd (lc_service loc) \<noteq> 0) +
                      of_bool (hd (lc_busid loc) \<noteq> 0) :: nat;
                (st, location_hash) =
                  (if cnt = 0 then (STATUS_SUCCESS, 0)
                   else if cnt \<noteq> 3 then (STATUS_INVALID_PARAMETER, 0)
                   else case init_device_attributes env henv zero_attributes loc of
                     (st, attr) \<Rightarrow> (st, if NT_SUCCESS st then at_location_hash attr else 0))
            in if NT_SUCCESS st then
                 (case stop_attach_attempts location_hash reqs of
                    (n, cancelled, left) \<Rightarrow>
                      (st, SIZEOF_STOP_ATTACH_ATTEMPTS, Some (r\<lparr>sr_count := n\<rparr>), cancelled, left))
               else (st, 0, Some r, [], reqs))"

section \<open>Detaching\<close>

record controller =
  ct_hub :: vhci_hub
  ct_device :: "wdf_handle \<Rightarrow> attach_state"

definition detach_device_of ::
    "(wdf_handle \<Rightarrow> plug_env) \<Rightarrow> wdf_handle \<Rightarrow> bool \<Rightarrow> bool \<Rightarrow> controller \<Rightarrow> controller" where
  "detach_device_of env d plugout reattach c =
     (let s = detach (env d) d plugout reattach ((ct_device c d)\<lparr>hub := ct_hub c\<rparr>)
      in c\<lparr>ct_hub := hub s, ct_device := (ct_device c)(d := s)\<rparr>)"

text \<open>The device in a port is looked up with a reference, which is dropped after the call.\<close>

definition detach_port ::
    "(wdf_handle \<Rightarrow> plug_env) \<Rightarrow> bool \<Rightarrow> bool \<Rightarrow> int \<Rightarrow> controller \<Rightarrow> bool \<times> controller" where
  "detach_port env plugout reattach port c =
     (case get_device (ct_hub c) port of (h, d) \<Rightarrow>
        if d = WDF_NO_HANDLE then (False, c)
        else
          let c = detach_device_of env d plugout reattach (c\<lparr>ct_hub := h\<rparr>)
          in (True, c\<lparr>ct_hub := release_ref (ct_hub c) d\<rparr>))"

fun detach_ports ::
    "(wdf_handle \<Rightarrow> plug_env) \<Rightarrow> bool \<Rightarrow> int list \<Rightarrow> controller \<Rightarrow> controller" where
  "detach_ports env plugout [] c = c"
| "detach_ports env plugout (port # ports) c =
     detach_ports env plugout ports (snd (detach_port env plugout False port c))"

definition detach_all_devices :: "(wdf_handle \<Rightarrow> plug_env) \<Rightarrow> bool \<Rightarrow> controller \<Rightarrow> controller" where
  "detach_all_devices env plugout c = detach_ports env plugout [1..devices_cnt (ct_hub c)] c"

record plugout_hardware =
  po_size :: nat
  po_port :: int

definition SIZEOF_PLUGOUT_HARDWARE :: nat where "SIZEOF_PLUGOUT_HARDWARE = 8"
definition PORT_ALL_CLOSEONLY :: int where "PORT_ALL_CLOSEONLY = -2"
definition PORT_ALL :: int where "PORT_ALL = -1"

definition plugout_hardware_ioctl ::
    "(wdf_handle \<Rightarrow> plug_env) \<Rightarrow> ntstatus + nat \<times> plugout_hardware \<Rightarrow> bool \<Rightarrow> controller \<Rightarrow> ntstatus \<times> controller" where
  "plugout_hardware_ioctl env buf reattach c =
     (case buf of
        Inl err \<Rightarrow> (err, c)
      | Inr (len, r) \<Rightarrow>
          if len \<noteq> SIZEOF_PLUGOUT_HARDWARE then (STATUS_INVALID_BUFFER_SIZE, c)
          else if po_size r \<noteq> len then (USBIP_ERROR_ABI, c)
          else if po_port r \<le> 0 then
            (STATUS_SUCCESS, detach_all_devices env (po_port r \<noteq> PORT_ALL_CLOSEONLY) c)
          else if \<not> is_valid_port (ct_hub c) (po_port r) then (STATUS_INVALID_PARAMETER, c)
          else case detach_port env True reattach (po_port r) c of
            (found, c) \<Rightarrow> (if found then STATUS_SUCCESS else STATUS_DEVICE_NOT_CONNECTED, c))"

text \<open>The driver's own request after a connection was lost: it names the port of the device, which is
  read when the request is made.\<close>

definition async_detach_and_delete :: "vhci_hub \<Rightarrow> wdf_handle \<Rightarrow> nat \<times> plugout_hardware" where
  "async_detach_and_delete h d =
     (SIZEOF_PLUGOUT_HARDWARE, \<lparr>po_size = SIZEOF_PLUGOUT_HARDWARE, po_port = dev_port (device_of h d)\<rparr>)"

section \<open>The attached devices\<close>

record imported_device =
  id_location :: imported_device_location
  id_properties :: imported_device_properties

definition SIZEOF_IMPORTED_DEVICE :: nat where "SIZEOF_IMPORTED_DEVICE = 1096 + 32"
definition OFFSET_DEVICES :: nat where "OFFSET_DEVICES = 4"

definition get_imported_devices_size :: "nat \<Rightarrow> nat" where
  "get_imported_devices_size n = OFFSET_DEVICES + n * SIZEOF_IMPORTED_DEVICE"

definition fill_device ::
    "utf8_rtl \<Rightarrow> imported_device \<Rightarrow> device_attributes \<Rightarrow> int \<Rightarrow> ntstatus \<times> imported_device" where
  "fill_device rtl out r port =
     (let out = out\<lparr>id_location := (id_location out)\<lparr>lc_port := port\<rparr>\<rparr> in
      case fill_location rtl (id_location out) r of (err, loc) \<Rightarrow>
        let out = out\<lparr>id_location := loc\<rparr> in
        if err \<noteq> STATUS_SUCCESS then (err, out)
        else (STATUS_SUCCESS, out\<lparr>id_properties := at_properties r\<rparr>))"

text \<open>\<open>hubs port\<close> is the root hub at the time of the lookup of \<open>port\<close>: the lock is taken for each port.
  \<open>slots\<close> is the array in the buffer of the request.\<close>

fun imported_loop ::
    "utf8_rtl \<Rightarrow> (wdf_handle \<Rightarrow> device_attributes) \<Rightarrow> (int \<Rightarrow> vhci_hub) \<Rightarrow> nat \<Rightarrow> int list \<Rightarrow> nat \<Rightarrow>
     imported_device list \<Rightarrow> (ntstatus + nat) \<times> imported_device list" where
  "imported_loop rtl attr hubs max_cnt [] cnt slots = (Inr cnt, slots)"
| "imported_loop rtl attr hubs max_cnt (port # ports) cnt slots =
     (case get_device (hubs port) port of (h, d) \<Rightarrow>
        if d = WDF_NO_HANDLE then imported_loop rtl attr hubs max_cnt ports cnt slots
        else if cnt = max_cnt then (Inl STATUS_BUFFER_TOO_SMALL, slots)
        else case fill_device rtl (slots ! cnt) (attr d) (dev_port (device_of h d)) of
          (err, out) \<Rightarrow>
            let slots = slots[cnt := out] in
            if err \<noteq> STATUS_SUCCESS then (Inl err, slots)
            else imported_loop rtl attr hubs max_cnt ports (cnt + 1) slots)"

definition get_imported_devices_ioctl ::
    "utf8_rtl \<Rightarrow> (wdf_handle \<Rightarrow> device_attributes) \<Rightarrow> int \<Rightarrow> (int \<Rightarrow> vhci_hub) \<Rightarrow>
     ntstatus + nat \<times> nat \<times> imported_device list \<Rightarrow> ntstatus \<times> nat \<times> imported_device list" where
  "get_imported_devices_ioctl rtl attr dev_cnt hubs buf =
     (case buf of
        Inl err \<Rightarrow> (err, 0, [])
      | Inr (outlen, sz, slots) \<Rightarrow>
          if sz \<noteq> get_imported_devices_size 1 then (USBIP_ERROR_ABI, 0, slots)
          else
            let max_cnt = (outlen - OFFSET_DEVICES) div SIZEOF_IMPORTED_DEVICE in
            (case imported_loop rtl attr hubs max_cnt [1..dev_cnt] 0 slots of
               (Inl err, slots) \<Rightarrow> (err, 0, slots)
             | (Inr cnt, slots) \<Rightarrow> (STATUS_SUCCESS, get_imported_devices_size cnt, slots)))"

section \<open>Dispatch\<close>

text \<open>\<open>CTL_CODE(FILE_DEVICE_UNKNOWN, id, METHOD_BUFFERED, FILE_READ_DATA | FILE_WRITE_DATA)\<close>\<close>

definition make_ioctl :: "u32 \<Rightarrow> u32" where
  "make_ioctl f = push_bit 16 0x22 OR push_bit 14 3 OR push_bit 2 f OR 0"

definition PLUGIN_HARDWARE :: u32 where "PLUGIN_HARDWARE = make_ioctl 0x800"
definition PLUGOUT_HARDWARE :: u32 where "PLUGOUT_HARDWARE = make_ioctl 0x801"
definition GET_IMPORTED_DEVICES :: u32 where "GET_IMPORTED_DEVICES = make_ioctl 0x802"
definition SET_PERSISTENT :: u32 where "SET_PERSISTENT = make_ioctl 0x803"
definition GET_PERSISTENT :: u32 where "GET_PERSISTENT = make_ioctl 0x804"
definition STOP_ATTACH_ATTEMPTS :: u32 where "STOP_ATTACH_ATTEMPTS = make_ioctl 0x805"
definition PLUGIN_HARDWARE_ONCE :: u32 where "PLUGIN_HARDWARE_ONCE = make_ioctl 0x806"
definition PLUGOUT_HARDWARE_AND_REATTACH :: u32 where "PLUGOUT_HARDWARE_AND_REATTACH = make_ioctl 0x807"
definition SET_DEVICE_FILTER :: u32 where "SET_DEVICE_FILTER = make_ioctl 0x808"
definition GET_DEVICE_FILTER :: u32 where "GET_DEVICE_FILTER = make_ioctl 0x809"

datatype parallel_handler =
  H_get_imported_devices | H_set_persistent | H_get_persistent | H_stop_attach_attempts
  | H_set_device_filter | H_get_device_filter

definition get_parallel_handler :: "u32 \<Rightarrow> parallel_handler option" where
  "get_parallel_handler code =
     (if code = GET_IMPORTED_DEVICES then Some H_get_imported_devices
      else if code = SET_PERSISTENT then Some H_set_persistent
      else if code = GET_PERSISTENT then Some H_get_persistent
      else if code = STOP_ATTACH_ATTEMPTS then Some H_stop_attach_attempts
      else if code = SET_DEVICE_FILTER then Some H_set_device_filter
      else if code = GET_DEVICE_FILTER then Some H_get_device_filter
      else None)"

text \<open>The completion of a request by a queue: its status, or \<open>None\<close> if it was not completed. \<open>handle\<close>
  is the handler, \<open>forward\<close> the result of \<open>WdfRequestForwardToIoQueue\<close>.\<close>

definition device_control_parallel ::
    "(parallel_handler \<Rightarrow> ntstatus) \<Rightarrow> ntstatus \<Rightarrow> u32 \<Rightarrow> ntstatus option" where
  "device_control_parallel handle forward code =
     (let st = (case get_parallel_handler code of
                  Some h \<Rightarrow> handle h
                | None \<Rightarrow> if NT_SUCCESS forward then STATUS_PENDING else forward)
      in if st \<noteq> STATUS_PENDING then Some st else None)"

datatype sequential_handler = H_plugin_hardware bool | H_plugout_hardware bool | H_other

definition get_sequential_handler :: "u32 \<Rightarrow> sequential_handler" where
  "get_sequential_handler code =
     (if code = PLUGIN_HARDWARE_ONCE then H_plugin_hardware True
      else if code = PLUGIN_HARDWARE then H_plugin_hardware False
      else if code = PLUGOUT_HARDWARE_AND_REATTACH then H_plugout_hardware True
      else if code = PLUGOUT_HARDWARE then H_plugout_hardware False
      else H_other)"

text \<open>\<open>ude\<close>: \<open>UdecxWdfDeviceTryHandleUserIoctl\<close> has taken the request.\<close>

definition device_control :: "(sequential_handler \<Rightarrow> ntstatus) \<Rightarrow> bool \<Rightarrow> u32 \<Rightarrow> ntstatus option" where
  "device_control handle ude code =
     (let st = (case get_sequential_handler code of
                  H_other \<Rightarrow> if ude then STATUS_PENDING else STATUS_INVALID_DEVICE_REQUEST
                | h \<Rightarrow> handle h)
      in if st \<noteq> STATUS_PENDING then Some st else None)"

section \<open>Queues\<close>

lemmas ioctl_defs =
  PLUGIN_HARDWARE_def PLUGOUT_HARDWARE_def GET_IMPORTED_DEVICES_def SET_PERSISTENT_def GET_PERSISTENT_def
  STOP_ATTACH_ATTEMPTS_def PLUGIN_HARDWARE_ONCE_def PLUGOUT_HARDWARE_AND_REATTACH_def SET_DEVICE_FILTER_def
  GET_DEVICE_FILTER_def make_ioctl_def

text \<open>The codes differ, so requests that attach or detach are never handled in parallel: they reach the
  sequential queue.\<close>

lemma plug_requests_are_sequential:
  "get_sequential_handler code \<noteq> H_other \<Longrightarrow> get_parallel_handler code = None"
  by (auto simp: get_sequential_handler_def get_parallel_handler_def ioctl_defs split: if_splits)

section \<open>Detaching: lemmas\<close>

text \<open>What the flags of the devices and the root hub agree on: a device in a port exists and no
  \<open>detach\<close> of it has begun.\<close>

definition controller_ok :: "controller \<Rightarrow> bool" where
  "controller_ok c \<longleftrightarrow> hub_wf (ct_hub c) \<and>
     (\<forall>p d. roothub (ct_hub c) p = Some d \<longrightarrow> (\<exists>v. dev (ct_device c d) = Some v \<and> \<not> vd_unplugged v))"

text \<open>A device after \<open>detach\<close>.\<close>

definition detached :: "plug_env \<Rightarrow> bool \<Rightarrow> attach_state \<Rightarrow> attach_state \<Rightarrow> bool" where
  "detached env plugout s s' \<longleftrightarrow>
     (\<exists>v v'. dev s = Some v \<and> dev s' = Some v' \<and> vd_unplugged v' \<and> \<not> vd_thread v' \<and>
        (vd_plugged v' \<longleftrightarrow> vd_plugged v \<and> \<not> (plugout \<and> pe_plugout env = STATUS_SUCCESS)) \<and>
        (sock_open s' \<longleftrightarrow> sock_open s \<and> pe_close env \<noteq> STATUS_SUCCESS))"

lemma detach_port_none:
  assumes "roothub (ct_hub c) p = None"
  shows "detach_port env plugout reattach p c = (False, c)"
proof -
  obtain h d where g: "get_device (ct_hub c) p = (h, d)" by force
  then show ?thesis using assms
    by (cases rule: get_device_cases) (use g in \<open>simp_all add: detach_port_def\<close>)
qed

lemma abs_reclaim_at:
  assumes "hub_wf h" "d \<noteq> WDF_NO_HANDLE" "roothub h p = Some d"
  shows "abs_reclaim d (roothub h) = (roothub h)(p := None)"
proof
  fix q
  show "abs_reclaim d (roothub h) q = ((roothub h)(p := None)) q"
    using hub.one_port [OF assms(1) assms(3), of q] assms(3) by (cases "q = p") (auto simp: abs_reclaim_def)
qed

lemma reclaim_devices_cnt: "reclaim_roothub_port h d = (h', p) \<Longrightarrow> devices_cnt h' = devices_cnt h"
  by (auto simp: reclaim_roothub_port_def Let_def split: if_splits)

lemma detach_devices_cnt:
  "devices_cnt (hub (detach env d plugout reattach s)) = devices_cnt (hub s)"
proof -
  obtain h p where h: "reclaim_roothub_port (hub s) d = (h, p)" by force
  then show ?thesis using reclaim_devices_cnt [OF h]
    by (cases "dev s")
      (simp_all add: detach_def close_socket_def plugout_and_delete_def destroy_device_def Let_def)
qed

lemma detach_port_some:
  assumes c: "controller_ok c" and at: "roothub (ct_hub c) p = Some d"
    and r: "detach_port env plugout reattach p c = (found, c')"
  shows "found" "controller_ok c'" "roothub (ct_hub c') = (roothub (ct_hub c))(p := None)"
    "devices_cnt (ct_hub c') = devices_cnt (ct_hub c)"
    "\<exists>s. ct_device c' = (ct_device c)(d := s) \<and> detached (env d) plugout (ct_device c d) s"
proof -
  have h: "hub_wf (ct_hub c)" using c by (simp add: controller_ok_def)
  have d: "d \<noteq> WDF_NO_HANDLE" using at by auto
  define h1 where "h1 = set_device (ct_hub c) d (\<lambda>x. x\<lparr>dev_refs := dev_refs (device_of (ct_hub c) d) + 1\<rparr>)"
  have g: "get_device (ct_hub c) p = (h1, d)"
  proof -
    obtain h' d' where g: "get_device (ct_hub c) p = (h', d')" by force
    then show ?thesis using at by (cases rule: get_device_cases) (use g in \<open>simp_all add: h1_def\<close>)
  qed
  define s where "s = (ct_device c d)\<lparr>hub := h1\<rparr>"
  obtain v where v: "dev s = Some v" "\<not> vd_unplugged v"
    using c at by (auto simp: controller_ok_def s_def)
  have hs: "hub s = h1" by (simp add: s_def)
  have hw: "hub_wf (hub s)" unfolding hs h1_def by (rule set_refs_hub(1) [OF h])
  define s' where "s' = detach (env d) d plugout reattach s"
  obtain v' where v': "dev s' = Some v'" "vd_unplugged v'" "\<not> vd_thread v'"
      "vd_plugged v' \<longleftrightarrow> vd_plugged v \<and> \<not> (plugout \<and> pe_plugout (env d) = STATUS_SUCCESS)"
      "hub_wf (hub s')" "roothub (hub s') = abs_reclaim d (roothub (hub s))"
      "sock_open s' \<longleftrightarrow> sock_open s \<and> pe_close (env d) \<noteq> STATUS_SUCCESS"
    by (rule detach_device [OF v hw d, of "env d" plugout reattach, folded s'_def]) (rule that; assumption)
  have c': "found" "c' = c\<lparr>ct_hub := release_ref (hub s') d, ct_device := (ct_device c)(d := s')\<rparr>"
    using r d by (auto simp: detach_port_def g detach_device_of_def Let_def s_def s'_def)
  have rel: "release_ref (hub s') d = set_device (hub s') d (\<lambda>x. x\<lparr>dev_refs := dev_refs (device_of (hub s') d) - 1\<rparr>)"
    using d by (simp add: release_ref_def set_device_def)
  have rh: "roothub (ct_hub c') = (roothub (ct_hub c))(p := None)"
    using v'(6) hs abs_reclaim_at [OF h d at] by (simp add: c' rel h1_def)
  show "found" by (rule c'(1))
  show "roothub (ct_hub c') = (roothub (ct_hub c))(p := None)" by (rule rh)
  show "\<exists>s. ct_device c' = (ct_device c)(d := s) \<and> detached (env d) plugout (ct_device c d) s"
    using v v' by (intro exI [of _ s']) (auto simp: c' detached_def s_def)
  have "hub_wf (ct_hub c')" using set_refs_hub(1) [OF v'(5)] by (simp add: c' rel)
  moreover have "roothub (ct_hub c) q \<noteq> Some d" if "q \<noteq> p" for q
    using hub.one_port [OF h at, of q] that by auto
  ultimately show "controller_ok c'"
    using c rh by (auto simp: controller_ok_def c'(2))
  show "devices_cnt (ct_hub c') = devices_cnt (ct_hub c)"
    using detach_devices_cnt [of "env d" d plugout reattach s, folded s'_def] hs by (simp add: c' rel h1_def)
qed

text \<open>The loop over all ports: the devices found are detached, the others are not touched.\<close>

definition only_detached ::
    "(wdf_handle \<Rightarrow> plug_env) \<Rightarrow> bool \<Rightarrow> (wdf_handle \<Rightarrow> bool) \<Rightarrow> controller \<Rightarrow> controller \<Rightarrow> bool" where
  "only_detached env plugout found c c' \<longleftrightarrow>
     (\<forall>d. if found d then detached (env d) plugout (ct_device c d) (ct_device c' d)
          else ct_device c' d = ct_device c d)"

lemma detach_ports_effect:
  "controller_ok c \<Longrightarrow> c' = detach_ports env plugout ps c \<Longrightarrow>
   controller_ok c' \<and> roothub (ct_hub c') = (\<lambda>p. if p \<in> set ps then None else roothub (ct_hub c) p) \<and>
   only_detached env plugout (\<lambda>d. \<exists>p\<in>set ps. roothub (ct_hub c) p = Some d) c c'"
proof (induction ps arbitrary: c)
  case Nil
  then show ?case by (simp add: only_detached_def)
next
  case (Cons p ps)
  show ?case
  proof (cases "roothub (ct_hub c) p")
    case None
    have "c' = detach_ports env plugout ps c" using Cons.prems(2) by (simp add: detach_port_none [OF None])
    note ih = Cons.IH [OF Cons.prems(1) this]
    have "(\<lambda>q. if q \<in> set (p # ps) then None else roothub (ct_hub c) q) =
        (\<lambda>q. if q \<in> set ps then None else roothub (ct_hub c) q)"
      using None by (intro ext) simp
    moreover have "(\<lambda>d. \<exists>q\<in>set (p # ps). roothub (ct_hub c) q = Some d) =
        (\<lambda>d. \<exists>q\<in>set ps. roothub (ct_hub c) q = Some d)"
      using None by (intro ext) simp
    ultimately show ?thesis using ih by (simp only:)
  next
    case (Some d)
    obtain found c1 where r: "detach_port env plugout False p c = (found, c1)" by force
    note e = detach_port_some [OF Cons.prems(1) Some r]
    obtain s where s: "ct_device c1 = (ct_device c)(d := s)" "detached (env d) plugout (ct_device c d) s"
      using e(5) by blast
    have "c' = detach_ports env plugout ps c1" using Cons.prems(2) r by simp
    note ih = Cons.IH [OF e(2) this]
    have h: "hub_wf (ct_hub c)" using Cons.prems(1) by (simp add: controller_ok_def)
    have only: "roothub (ct_hub c1) q = Some x \<longleftrightarrow> roothub (ct_hub c) q = Some x \<and> x \<noteq> d" for q x
    proof (cases "q = p")
      case True
      then show ?thesis using Some e(3) by simp
    next
      case False
      then show ?thesis using hub.one_port [OF h Some, of q] e(3) by (cases "x = d") auto
    qed
    have "only_detached env plugout (\<lambda>x. \<exists>q\<in>set (p # ps). roothub (ct_hub c) q = Some x) c c'"
      unfolding only_detached_def
    proof
      fix x
      have "if \<exists>q\<in>set ps. roothub (ct_hub c1) q = Some x then detached (env x) plugout (ct_device c1 x) (ct_device c' x)
          else ct_device c' x = ct_device c1 x"
        using ih by (simp add: only_detached_def)
      then show "if \<exists>q\<in>set (p # ps). roothub (ct_hub c) q = Some x
          then detached (env x) plugout (ct_device c x) (ct_device c' x)
          else ct_device c' x = ct_device c x"
        using s Some by (cases "x = d") (auto simp: only split: if_splits)
    qed
    moreover have "roothub (ct_hub c') = (\<lambda>q. if q \<in> set (p # ps) then None else roothub (ct_hub c) q)"
      using ih e(3) by (intro ext) simp
    ultimately show ?thesis using ih by (intro conjI) simp_all
  qed
qed

lemma detach_all_devices_effect:
  assumes "controller_ok c" "c' = detach_all_devices env plugout c"
  shows "controller_ok c' \<and> roothub (ct_hub c') = Map.empty \<and>
    only_detached env plugout (\<lambda>d. d \<in> ran (roothub (ct_hub c))) c c'"
proof -
  note e = detach_ports_effect [OF assms(1) assms(2) [unfolded detach_all_devices_def]]
  have valid: "p \<in> set [1..devices_cnt (ct_hub c)]" if "roothub (ct_hub c) p = Some d" for p d
    using roothub_valid [OF that] by (simp add: is_valid_port_def)
  then have "(\<exists>p\<in>set [1..devices_cnt (ct_hub c)]. roothub (ct_hub c) p = Some d) \<longleftrightarrow> d \<in> ran (roothub (ct_hub c))" for d
    by (auto simp: ran_def)
  moreover have "(\<lambda>p. if p \<in> set [1..devices_cnt (ct_hub c)] then None else roothub (ct_hub c) p) = Map.empty"
    using valid by (metis option.exhaust)
  ultimately show ?thesis using e by simp
qed

section \<open>The attached devices: lemmas\<close>

text \<open>The names of the device fit into the arrays: \<open>RtlUnicodeToUTF8N\<close> gives strings that are shorter
  than the arrays and have no null character.\<close>

definition named :: "utf8_rtl \<Rightarrow> device_attributes \<Rightarrow> bytes \<Rightarrow> bytes \<Rightarrow> bytes \<Rightarrow> bool" where
  "named rtl a host service busid \<longleftrightarrow>
     rtl (at_node_name a) HOST_SIZE = (STATUS_SUCCESS, host) \<and> length host < HOST_SIZE \<and> 0 \<notin> set host \<and>
     rtl (at_service_name a) SERVICE_SIZE = (STATUS_SUCCESS, service) \<and> length service < SERVICE_SIZE \<and> 0 \<notin> set service \<and>
     rtl (at_busid a) BUS_ID_SIZE = (STATUS_SUCCESS, busid) \<and> length busid < BUS_ID_SIZE \<and> 0 \<notin> set busid"

definition wf_slot :: "imported_device \<Rightarrow> bool" where
  "wf_slot x \<longleftrightarrow> length (lc_host (id_location x)) = HOST_SIZE \<and>
     length (lc_service (id_location x)) = SERVICE_SIZE \<and> length (lc_busid (id_location x)) = BUS_ID_SIZE"

text \<open>A name in an array: the string, its terminator, and what the array held behind it.\<close>

definition named_array :: "bytes \<Rightarrow> bytes \<Rightarrow> bytes" where
  "named_array s old = s @ 0 # drop (length s + 1) old"

lemma unicode_to_utf8_named:
  assumes "rtl (length buf) = (STATUS_SUCCESS, s)" "length s < length buf"
  shows "unicode_to_utf8 rtl buf = (STATUS_SUCCESS, named_array s buf)"
proof -
  have "drop (length s) buf = buf ! length s # drop (length s + 1) buf"
    using assms(2) by (simp add: Cons_nth_drop_Suc)
  then show ?thesis
    using assms by (simp add: unicode_to_utf8_def overwrite_def named_array_def list_update_append Let_def)
qed

lemma cstr_named: "0 \<notin> set s \<Longrightarrow> cstr (named_array s old) = s"
  by (simp add: named_array_def cstr_append_null)

lemma length_named: "length s < length old \<Longrightarrow> length (named_array s old) = length old"
  by (simp add: named_array_def)

lemma fill_device_named:
  assumes "named rtl a host service busid" "wf_slot slot"
  shows "fill_device rtl slot a port = (STATUS_SUCCESS,
    \<lparr>id_location = \<lparr>lc_port = port, lc_busid = named_array busid (lc_busid (id_location slot)),
        lc_service = named_array service (lc_service (id_location slot)),
        lc_host = named_array host (lc_host (id_location slot))\<rparr>,
      id_properties = at_properties a\<rparr>)"
  using assms
  by (simp add: fill_device_def fill_location_def named_def wf_slot_def unicode_to_utf8_named Let_def)

text \<open>The ports in which a device is found, with the device.\<close>

definition found_devices :: "(int \<Rightarrow> vhci_hub) \<Rightarrow> int list \<Rightarrow> (int \<times> wdf_handle) list" where
  "found_devices hubs ports = concat (map (\<lambda>p. case roothub (hubs p) p of None \<Rightarrow> [] | Some d \<Rightarrow> [(p, d)]) ports)"

lemma length_found_devices: "length (found_devices hubs ports) \<le> length ports"
  by (induction ports) (auto simp: found_devices_def split: option.splits)

lemma get_device_hub:
  assumes "hub_wf h"
  shows "case roothub h p of
      None \<Rightarrow> snd (get_device h p) = WDF_NO_HANDLE
    | Some d \<Rightarrow> d \<noteq> WDF_NO_HANDLE \<and> snd (get_device h p) = d \<and> dev_port (device_of (fst (get_device h p)) d) = p"
proof -
  obtain h' d where g: "get_device h p = (h', d)" by force
  then show ?thesis
  proof (cases rule: get_device_cases)
    case 1
    then show ?thesis using g by simp
  next
    case 2
    then have "port_of h d = p" using hub_wfD(4) [OF assms 2(1), of p] by simp
    then show ?thesis using 2 g by (simp add: port_of_def)
  qed
qed

text \<open>The loop fills one element for each device found, or stops at the first that does not fit.\<close>

lemma imported_loop_result:
  fixes view :: "imported_device \<Rightarrow> 'v"
  assumes wf: "\<And>p. hub_wf (hubs p)"
    and fills: "\<And>slot p d. wf_slot slot \<Longrightarrow> roothub (hubs p) p = Some d \<Longrightarrow>
      \<exists>out. fill_device rtl slot (attr d) p = (STATUS_SUCCESS, out) \<and> wf_slot out \<and> view out = g p d"
  shows "list_all wf_slot slots \<Longrightarrow> length slots = max_cnt \<Longrightarrow> cnt \<le> max_cnt \<Longrightarrow>
    (if cnt + length (found_devices hubs ports) \<le> max_cnt
     then \<exists>slots'. imported_loop rtl attr hubs max_cnt ports cnt slots =
         (Inr (cnt + length (found_devices hubs ports)), slots') \<and>
         map view (take (cnt + length (found_devices hubs ports)) slots') =
           map view (take cnt slots) @ map (\<lambda>(p, d). g p d) (found_devices hubs ports)
     else \<exists>slots'. imported_loop rtl attr hubs max_cnt ports cnt slots = (Inl STATUS_BUFFER_TOO_SMALL, slots'))"
proof (induction ports arbitrary: cnt slots)
  case Nil
  then show ?case by (simp add: found_devices_def)
next
  case (Cons p ports)
  obtain h d where gd: "get_device (hubs p) p = (h, d)" by force
  show ?case
  proof (cases "roothub (hubs p) p")
    case None
    then have "d = WDF_NO_HANDLE" using get_device_hub [OF wf, of p p] gd by simp
    moreover have "found_devices hubs (p # ports) = found_devices hubs ports"
      using None by (simp add: found_devices_def)
    ultimately show ?thesis using Cons.IH [OF Cons.prems] gd by simp
  next
    case (Some e)
    then have d: "d \<noteq> WDF_NO_HANDLE" "e = d" "dev_port (device_of h d) = p"
      using get_device_hub [OF wf, of p p] gd by simp_all
    have f: "found_devices hubs (p # ports) = (p, d) # found_devices hubs ports"
      using Some d(2) by (simp add: found_devices_def)
    show ?thesis
    proof (cases "cnt = max_cnt")
      case True
      then show ?thesis using gd d f by simp
    next
      case False
      then have lt: "cnt < length slots" using Cons.prems by simp
      then have "wf_slot (slots ! cnt)" using Cons.prems(1) by (simp add: list_all_length)
      then obtain out where o: "fill_device rtl (slots ! cnt) (attr d) p = (STATUS_SUCCESS, out)"
          "wf_slot out" "view out = g p d"
        using fills Some d(2) by blast
      have "list_all wf_slot (slots[cnt := out])"
        using Cons.prems(1) o(2) by (auto simp: list_all_iff dest: set_update_subset_insert [THEN subsetD])
      note ih = Cons.IH [OF this, of "cnt + 1"]
      have "take (Suc cnt) (slots[cnt := out]) = take cnt slots @ [out]"
        using lt by (simp add: take_Suc_conv_app_nth)
      then show ?thesis using ih Cons.prems(2) lt gd d f o
        by (cases "Suc (cnt + length (found_devices hubs ports)) \<le> max_cnt") simp_all
    qed
  qed
qed

section \<open>Properties\<close>


text \<open>C38. The request by which the driver detaches a device whose connection was lost names a port, not
  the device. If the device has left the port and another one has claimed it before the request is
  handled, the request detaches that other device and does not touch the one it was made for.\<close>

theorem stale_detach_request:
  assumes h: "hub_wf h" "roothub h p = Some a" and b: "b \<noteq> a" "b \<noteq> WDF_NO_HANDLE" "port_of h b = 0"
    and moved: "reclaim_roothub_port h a = (h1, p)" "claim_roothub_port h1 b = (ct_hub c, p)"
    and c: "controller_ok c"
    and res: "plugout_hardware_ioctl env (Inr (async_detach_and_delete h a)) True c = (st, c')"
  shows "st = STATUS_SUCCESS \<and> roothub (ct_hub c') p = None \<and>
    detached (env b) True (ct_device c b) (ct_device c' b) \<and> ct_device c' a = ct_device c a"
proof -
  have a: "a \<noteq> WDF_NO_HANDLE" using h(2) by auto
  have p: "port_of h a = p" "p \<noteq> 0" using hub_wfD(4) [OF h(1) a, of p] h(2) by simp_all
  note r = reclaim_refines [OF h(1) a moved(1)]
  have "port_of h1 b = 0" using r b by simp
  then have at: "roothub (ct_hub c) p = Some b"
    using claim_result(4) [OF _ b(2) _ moved(2)] r p(2) by simp
  obtain found c1 where dp: "detach_port env True True p c = (found, c1)" by force
  note e = detach_port_some [OF c at dp]
  have "\<not> p \<le> 0" using roothub_valid [OF at] by (simp add: is_valid_port_def)
  then have "st = STATUS_SUCCESS" "c' = c1"
    using res dp e(1) roothub_valid [OF at] p(1)
    by (simp_all add: plugout_hardware_ioctl_def async_detach_and_delete_def port_of_def)
  then show ?thesis using e b(1) by auto
qed

text \<open>C40. The list of attached devices contains old memory: of each name in it only the string and its
  terminator are written, and the bytes behind them are those that the buffer of the request had
  before.\<close>

theorem imported_device_keeps_old_bytes:
  assumes "named rtl a host service busid" "wf_slot slot" "fill_device rtl slot a port = (st, out)"
  shows "st = STATUS_SUCCESS \<and>
    lc_host (id_location out) = host @ 0 # drop (length host + 1) (lc_host (id_location slot)) \<and>
    lc_service (id_location out) = service @ 0 # drop (length service + 1) (lc_service (id_location slot)) \<and>
    lc_busid (id_location out) = busid @ 0 # drop (length busid + 1) (lc_busid (id_location slot))"
  using fill_device_named [OF assms(1,2), of port] assms(3) by (simp add: named_array_def)

section \<open>Instances\<close>

text \<open>A controller with a port of each kind; device 5 is in the first one.\<close>

definition sample_dev :: "int \<Rightarrow> hub_device" where
  "sample_dev port = \<lparr>dev_speed = 0, dev_location_hash = 1, dev_port = port, dev_refs = 1\<rparr>"

definition sample_hub :: "wdf_handle \<Rightarrow> vhci_hub" where
  "sample_hub d = \<lparr>usb2_ports = 1, devices_cnt = 2, devices = [d, WDF_NO_HANDLE],
     device_of = (\<lambda>_. sample_dev 0)(d := sample_dev 1)\<rparr>"

definition sample_emulated :: emulated_device where
  "sample_emulated = \<lparr>vd_speed = UdecxUsbHighSpeed, vd_device_descriptor = None, vd_configurations = [],
     vd_unplugged = False, vd_thread = True, vd_plugged = True, vd_deleted = False\<rparr>"

definition sample_controller :: "wdf_handle \<Rightarrow> controller" where
  "sample_controller d = \<lparr>ct_hub = sample_hub d, ct_device = (\<lambda>_. sample_start\<lparr>dev := Some sample_emulated\<rparr>)\<rparr>"

lemma sample_hub_roothub:
  assumes "d \<noteq> WDF_NO_HANDLE"
  shows "roothub (sample_hub d) = [1 \<mapsto> d]"
proof
  fix p :: int
  have "p = 1 \<or> p = 2" if "0 < p" "p \<le> 2" using that by auto
  then show "roothub (sample_hub d) p = [1 \<mapsto> d] p"
    using assms by (auto simp: roothub_def sample_hub_def is_valid_port_def)
qed

lemma sample_hub_wf:
  assumes "d \<noteq> WDF_NO_HANDLE"
  shows "hub_wf (sample_hub d)"
  using assms unfolding hub_wf_def sample_hub_roothub [OF assms]
  by (auto simp: sample_hub_def port_of_def sample_dev_def USB_SPEED_SUPER_def split: if_splits)

lemma sample_controller_ok: "d \<noteq> WDF_NO_HANDLE \<Longrightarrow> controller_ok (sample_controller d)"
  using sample_hub_wf [of d] sample_hub_roothub [of d]
  by (auto simp: controller_ok_def sample_controller_def sample_emulated_def)


theorem stale_detach_request_witness:
  "\<exists>h1 c c'. reclaim_roothub_port (sample_hub 5) 5 = (h1, 1) \<and> claim_roothub_port h1 6 = (ct_hub c, 1) \<and>
     plugout_hardware_ioctl (\<lambda>_. sample_plug) (Inr (async_detach_and_delete (sample_hub 5) 5)) True c =
       (STATUS_SUCCESS, c') \<and> roothub (ct_hub c') 1 = None"
proof -
  have five: "(5 :: wdf_handle) \<noteq> WDF_NO_HANDLE" and six: "(6 :: wdf_handle) \<noteq> WDF_NO_HANDLE"
    by (simp_all add: WDF_NO_HANDLE_def)
  note wf = sample_hub_wf [OF five] and rh = sample_hub_roothub [OF five]
  have p6: "port_of (sample_hub 5) 6 = 0" by (simp add: port_of_def sample_hub_def sample_dev_def)
  obtain h1 q where r: "reclaim_roothub_port (sample_hub 5) 5 = (h1, q)" by force
  note rr = reclaim_refines [OF wf five r]
  have q: "q = 1" using rr by (simp add: port_of_def sample_hub_def sample_dev_def)
  obtain h2 p where cl: "claim_roothub_port h1 6 = (h2, p)" by force
  have p61: "port_of h1 6 = 0" using rr p6 by simp
  have empty: "roothub h1 = Map.empty" using rr rh by (auto simp: abs_reclaim_def fun_eq_iff)
  have cand: "port_candidates h1 (dev_speed (device_of h1 6)) = [1]"
    using rr by (simp add: port_candidates_def sample_hub_def sample_dev_def USB_SPEED_SUPER_def)
  have "p = 1"
    using claim_refines [OF conjunct1 [OF rr] six p61 cl, unfolded cand empty] by (simp add: abs_claim_def)
  note cr = claim_result [OF _ six p61 cl]
  define c where "c = (sample_controller 5)\<lparr>ct_hub := h2\<rparr>"
  have "controller_ok c"
    using cr(1,4) rr \<open>p = 1\<close> by (auto simp: c_def controller_ok_def sample_controller_def sample_emulated_def empty)
  moreover obtain st c' where res: "plugout_hardware_ioctl (\<lambda>_. sample_plug)
      (Inr (async_detach_and_delete (sample_hub 5) 5)) True c = (st, c')" by force
  ultimately show ?thesis
    using stale_detach_request [OF wf, of 1 5 6 h1 c "\<lambda>_. sample_plug" st c'] rh six p6 r q cl \<open>p = 1\<close>
    by (intro exI [of _ h1] exI [of _ c] exI [of _ c']) (simp add: c_def)
qed

theorem imported_device_keeps_old_bytes_witness:
  "\<exists>a out. fill_device ascii_rtl \<lparr>id_location = \<lparr>lc_port = 0, lc_busid = replicate 32 7, lc_service = replicate 32 7,
        lc_host = replicate 1025 7\<rparr>, id_properties = zero_properties\<rparr> a 1 = (STATUS_SUCCESS, out) \<and>
     lc_busid (id_location out) = [0x31, 0] @ replicate 30 7"
proof -
  let ?slot = "\<lparr>id_location = \<lparr>lc_port = 0, lc_busid = replicate 32 7, lc_service = replicate 32 7,
        lc_host = replicate 1025 7\<rparr>, id_properties = zero_properties\<rparr>"
  let ?a = "zero_attributes\<lparr>at_node_name := [0x70], at_service_name := [0x33], at_busid := [0x31]\<rparr>"
  have "named ascii_rtl ?a [0x70] [0x33] [0x31]" by (simp add: named_def ascii_rtl_def size_defs)
  moreover have "wf_slot ?slot" by (simp add: wf_slot_def size_defs)
  moreover obtain st out where f: "fill_device ascii_rtl ?slot ?a 1 = (st, out)" by force
  ultimately have "st = STATUS_SUCCESS \<and> lc_busid (id_location out) = [0x31] @ 0 # drop 2 (replicate 32 7)"
    using imported_device_keeps_old_bytes [of ascii_rtl ?a "[0x70]" "[0x33]" "[0x31]" ?slot 1 st out] by simp
  then show ?thesis using f by (intro exI [of _ ?a] exI [of _ out]) simp
qed

end
