(* ===== verification/Client.thy ===== *)
theory Client
  imports Vhci_Ioctl
begin

text \<open>
  The calls of the client library (\<open>userspace/libusbip/src/vhci.cpp\<close>) that talk to the driver: attach,
  stop of attach attempts, detach, the list of attached devices, and the filter policy. \<open>DeviceIoControl\<close>
  is an argument \<open>ioctl\<close>, which is instantiated with the handlers of the driver; it succeeds if the
  status of the request is a success, and \<open>dos\<close> gives the error code for a status.
\<close>

section \<open>Requests\<close>

record device_location =
  dl_hostname :: bytes
  dl_service :: bytes
  dl_busid :: bytes

record attach_args =
  aa_location :: device_location
  aa_serial :: bytes
  aa_once :: bool

text \<open>\<open>strncpy_s\<close> of a string into an array: it fits with its terminator, or the array becomes empty and
  the result is an error (if the handler of invalid parameters returns).\<close>

definition strncpy_s :: "bytes \<Rightarrow> bytes \<Rightarrow> bool \<times> bytes" where
  "strncpy_s dst src =
     (let s = cstr src in
      if length s < length dst then (True, overwrite dst 0 (s @ [0])) else (False, dst[0 := 0]))"

definition assign_serial :: "plugin_hardware \<Rightarrow> bytes \<Rightarrow> win32 \<times> plugin_hardware" where
  "assign_serial r serial =
     (if \<not> validate_device_serial serial
      then (WIN32_SERIAL_NUMBER, r\<lparr>pw_serial := (pw_serial r)[0 := 0]\<rparr>)
      else case strncpy_s (pw_serial r) serial of
        (ok, s) \<Rightarrow> (if ok then ERROR_SUCCESS else WIN32_SERIAL_NUMBER, r\<lparr>pw_serial := s\<rparr>))"

definition assign_location :: "imported_device_location \<Rightarrow> device_location \<Rightarrow> win32 \<times> imported_device_location" where
  "assign_location dst src =
     (case strncpy_s (lc_busid dst) (dl_busid src) of (ok, s) \<Rightarrow>
        let dst = dst\<lparr>lc_busid := s\<rparr> in
        if \<not> ok then (ERROR_INVALID_PARAMETER, dst)
        else case strncpy_s (lc_service dst) (dl_service src) of (ok, s) \<Rightarrow>
          let dst = dst\<lparr>lc_service := s\<rparr> in
          if \<not> ok then (ERROR_INVALID_PARAMETER, dst)
          else case strncpy_s (lc_host dst) (dl_hostname src) of (ok, s) \<Rightarrow>
            (if ok then ERROR_SUCCESS else ERROR_INVALID_PARAMETER, dst\<lparr>lc_host := s\<rparr>))"

definition assign_args :: "plugin_hardware \<Rightarrow> attach_args \<Rightarrow> win32 \<times> plugin_hardware" where
  "assign_args r args =
     (case assign_serial r (aa_serial args) of (err, r) \<Rightarrow>
        if err \<noteq> ERROR_SUCCESS then (err, r)
        else case assign_location (pw_location r) (aa_location args) of
          (err, loc) \<Rightarrow> (err, r\<lparr>pw_location := loc\<rparr>))"

definition map_attach_error :: "win32 \<Rightarrow> win32" where
  "map_attach_error err =
     (case err of
        ERROR_NOT_FOUND \<Rightarrow> WSAHOST_NOT_FOUND
      | ERROR_NO_MATCH \<Rightarrow> WSAHOST_NOT_FOUND
      | ERROR_SEM_TIMEOUT \<Rightarrow> WSAETIMEDOUT
      | _ \<Rightarrow> err)"

text \<open>The port, or zero and the error. \<open>ioctl code r\<close> gives the status, the port that the driver wrote,
  and the number of bytes.\<close>

definition client_attach ::
    "(ntstatus \<Rightarrow> win32) \<Rightarrow> (u32 \<Rightarrow> plugin_hardware \<Rightarrow> ntstatus \<times> int \<times> nat) \<Rightarrow> attach_args \<Rightarrow> int \<times> win32" where
  "client_attach dos ioctl args =
     (case assign_args (zero_plugin_hardware\<lparr>pw_size := SIZEOF_PLUGIN_HARDWARE\<rparr>) args of (err, r) \<Rightarrow>
        if err \<noteq> ERROR_SUCCESS then (0, err)
        else case ioctl (if aa_once args then PLUGIN_HARDWARE_ONCE else PLUGIN_HARDWARE) r of
          (st, port, bytes_returned) \<Rightarrow>
            if NT_SUCCESS st then
              if bytes_returned \<noteq> 8 then (0, map_attach_error WIN32_DRIVER_RESPONSE) else (port, ERROR_SUCCESS)
            else (0, map_attach_error (dos st)))"

text \<open>The number of cancelled requests, or -1 and the error, and the state of the driver.\<close>

definition client_stop_attach_attempts ::
    "(ntstatus \<Rightarrow> win32) \<Rightarrow> ('s \<Rightarrow> stop_request \<Rightarrow> ntstatus \<times> nat \<times> stop_request option \<times> 's) \<Rightarrow>
     device_location option \<Rightarrow> 's \<Rightarrow> int \<times> win32 \<times> 's" where
  "client_stop_attach_attempts dos ioctl location s =
     (let r = \<lparr>sr_size = SIZEOF_STOP_ATTACH_ATTEMPTS, sr_location = zero_location, sr_count = 0\<rparr>;
          (refused, loc) =
            (case location of
               None \<Rightarrow> (False, sr_location r)
             | Some l \<Rightarrow>
                 (case assign_location (sr_location r) l of (err, loc) \<Rightarrow> (err = ERROR_SUCCESS, loc)))
      in if refused then (-1, ERROR_INVALID_PARAMETER, s)
         else case ioctl s (r\<lparr>sr_location := loc\<rparr>) of
           (st, bytes_returned, r', s) \<Rightarrow>
             if \<not> NT_SUCCESS st then (-1, dos st, s)
             else if bytes_returned \<noteq> SIZEOF_STOP_ATTACH_ATTEMPTS then (-1, WIN32_DRIVER_RESPONSE, s)
             else (case r' of None \<Rightarrow> 0 | Some r' \<Rightarrow> sr_count r', ERROR_SUCCESS, s))"

definition client_detach :: "(plugout_hardware \<Rightarrow> ntstatus \<times> 's) \<Rightarrow> int \<Rightarrow> bool \<times> 's" where
  "client_detach ioctl port =
     (case ioctl \<lparr>po_size = SIZEOF_PLUGOUT_HARDWARE, po_port = port\<rparr> of (st, s) \<Rightarrow> (NT_SUCCESS st, s))"

section \<open>Calls with a growing buffer\<close>

text \<open>The loop of \<open>get_imported_devices\<close> and \<open>get_device_filter\<close>: the capacity is doubled as long as the
  driver asks for more. \<open>ioctl k cnt\<close> is the \<open>k\<close>-th call, with a buffer for \<open>cnt\<close> elements; not returning
  is \<open>None\<close>.\<close>

partial_function (option) grow_buffer ::
    "(ntstatus \<Rightarrow> win32) \<Rightarrow> (nat \<Rightarrow> nat \<Rightarrow> ntstatus \<times> 'b) \<Rightarrow> nat \<Rightarrow> nat \<Rightarrow> (win32 + 'b) option" where
  "grow_buffer dos ioctl k cnt =
     (case ioctl k cnt of
        (st, b) \<Rightarrow>
          if NT_SUCCESS st then Some (Inr b)
          else if dos st \<noteq> ERROR_INSUFFICIENT_BUFFER then Some (Inl (dos st))
          else grow_buffer dos ioctl (k + 1) (2 * cnt))"

section \<open>The attached devices\<close>

datatype usb_speed = UsbLowSpeed | UsbFullSpeed | UsbHighSpeed | UsbSuperSpeed

definition win_speed :: "int \<Rightarrow> usb_speed" where
  "win_speed speed =
     (if speed = 6 \<or> speed = 5 then UsbSuperSpeed
      else if speed = 4 \<or> speed = 3 then UsbHighSpeed
      else if speed = 2 then UsbFullSpeed
      else UsbLowSpeed)"

record client_device =
  cd_location :: device_location
  cd_port :: int
  cd_devid :: u32
  cd_speed :: usb_speed
  cd_vendor :: u16
  cd_product :: u16
  cd_serial :: bytes

definition make_device_location :: "imported_device_location \<Rightarrow> device_location" where
  "make_device_location src =
     \<lparr>dl_hostname = cstr (lc_host src), dl_service = cstr (lc_service src), dl_busid = cstr (lc_busid src)\<rparr>"

definition make_imported_device :: "imported_device \<Rightarrow> client_device" where
  "make_imported_device d =
     (let p = id_properties d in
      \<lparr>cd_location = make_device_location (id_location d), cd_port = lc_port (id_location d),
       cd_devid = pr_devid p, cd_speed = win_speed (pr_speed p), cd_vendor = pr_vendor p,
       cd_product = pr_product p, cd_serial = cstr (pr_serial p)\<rparr>)"

text \<open>\<open>ioctl k outlen\<close> gives the status, the number of bytes and the array in the buffer.\<close>

definition client_get_imported_devices ::
    "(ntstatus \<Rightarrow> win32) \<Rightarrow> (nat \<Rightarrow> nat \<Rightarrow> ntstatus \<times> nat \<times> imported_device list) \<Rightarrow>
     (win32 + client_device list) option" where
  "client_get_imported_devices dos ioctl =
     (case grow_buffer dos (\<lambda>k cnt. ioctl k (get_imported_devices_size cnt)) 0 4 of
        None \<Rightarrow> None
      | Some (Inl err) \<Rightarrow> Some (Inl err)
      | Some (Inr (bytes_returned, slots)) \<Rightarrow>
          if bytes_returned < OFFSET_DEVICES then Some (Inl WIN32_DRIVER_RESPONSE)
          else
            let devices_size = bytes_returned - OFFSET_DEVICES in
            if devices_size mod SIZEOF_IMPORTED_DEVICE \<noteq> 0 then Some (Inl WIN32_DRIVER_RESPONSE)
            else Some (Inr (map make_imported_device (take (devices_size div SIZEOF_IMPORTED_DEVICE) slots))))"

section \<open>The filter policy\<close>

datatype client_mode = FM_disabled | FM_whitelist

record client_policy =
  cp_mode :: client_mode
  cp_entries :: "device_filter_entry list"

definition policy_request :: "client_policy \<Rightarrow> bytes" where
  "policy_request p =
     (let cnt = length (cp_entries p);
          buf = replicate (device_filter_size (if cnt \<noteq> 0 then cnt else 1)) 0;
          buf = overwrite buf 0 (le32 (of_nat sizeof_device_filter));
          buf = buf[4 := (if cp_mode p = FM_disabled then disabled else whitelist)];
          buf = overwrite buf 8 (le32 (of_nat cnt));
          buf = overwrite buf offset_entries (entries_bytes (cp_entries p));
          needed = offset_entries + cnt * 4
      in take (if needed < sizeof_device_filter then sizeof_device_filter else needed) buf)"

definition client_set_device_filter :: "(bytes \<Rightarrow> ntstatus \<times> 'r) \<Rightarrow> 'r \<Rightarrow> client_policy \<Rightarrow> bool \<times> 'r" where
  "client_set_device_filter ioctl r p =
     (if length (cp_entries p) > MAX_DEVICE_FILTER_ENTRIES then (False, r)
      else case ioctl (policy_request p) of (st, r') \<Rightarrow> (NT_SUCCESS st, r'))"

text \<open>\<open>ioctl k outlen\<close> gives the status, the buffer and the number of bytes.\<close>

definition client_get_device_filter ::
    "(ntstatus \<Rightarrow> win32) \<Rightarrow> (nat \<Rightarrow> nat \<Rightarrow> ntstatus \<times> bytes \<times> nat) \<Rightarrow> (win32 + client_policy) option" where
  "client_get_device_filter dos ioctl =
     (case grow_buffer dos (\<lambda>k cnt. ioctl k (device_filter_size cnt)) 0 16 of
        None \<Rightarrow> None
      | Some (Inl err) \<Rightarrow> Some (Inl err)
      | Some (Inr (buf, bytes_returned)) \<Rightarrow>
          if bytes_returned < offset_entries then Some (Inl WIN32_DRIVER_RESPONSE)
          else
            let buf = take bytes_returned buf;
                avail = (length buf - offset_entries) div 4;
                cnt = unat (of_le32 (slice 8 4 buf));
                cnt = (if cnt < avail then cnt else avail)
            in Some (Inr \<lparr>cp_mode = (if buf ! 4 = disabled then FM_disabled else FM_whitelist),
                         cp_entries = entries_of_bytes cnt (drop offset_entries buf)\<rparr>))"

section \<open>Notifications\<close>

record client_state =
  cs_device :: client_device
  cs_state :: vhci_state
  cs_source_id :: u32

definition make_client_state :: "device_state \<Rightarrow> client_state" where
  "make_client_state r =
     \<lparr>cs_device = make_imported_device
        \<lparr>id_location = \<lparr>lc_port = ds_port r, lc_busid = ds_busid r, lc_service = ds_service r, lc_host = ds_host r\<rparr>,
         id_properties = ds_properties r\<rparr>,
      cs_state = ds_state r, cs_source_id = ds_source_id r\<rparr>"

definition get_device_state :: "device_state option \<Rightarrow> nat \<Rightarrow> win32 + client_state" where
  "get_device_state data len =
     (case data of
        None \<Rightarrow> Inl ERROR_INVALID_PARAMETER
      | Some r \<Rightarrow>
          if len \<noteq> DEVICE_STATE_SIZE then Inl ERROR_INVALID_PARAMETER
          else if ds_size r \<noteq> DEVICE_STATE_SIZE then Inl WIN32_ABI
          else Inr (make_client_state r))"

text \<open>\<open>read\<close> is the result of \<open>ReadFile\<close>: an error, or the number of bytes and the record.\<close>

definition read_device_state :: "win32 + nat \<times> device_state \<Rightarrow> win32 + client_state" where
  "read_device_state read =
     (case read of
        Inl err \<Rightarrow> Inl err
      | Inr (actual, r) \<Rightarrow> if actual = 0 then Inl ERROR_HANDLE_EOF else get_device_state (Some r) actual)"

section \<open>Growing buffers: lemmas\<close>

text \<open>If no call needs more than \<open>n\<close> elements the loop returns, after calls whose capacity was below \<open>n\<close>,
  with the answer to a call whose capacity was enough.\<close>

lemma grow_buffer_returns:
  assumes ok: "\<And>k c. 0 < c \<Longrightarrow> need k \<le> c \<Longrightarrow> fst (ioctl k c) = STATUS_SUCCESS"
    and small: "\<And>k c. 0 < c \<Longrightarrow> c < need k \<Longrightarrow> fst (ioctl k c) = STATUS_BUFFER_TOO_SMALL"
    and dos: "dos STATUS_BUFFER_TOO_SMALL = ERROR_INSUFFICIENT_BUFFER" and n: "\<And>k. need k \<le> n"
  shows "0 < c \<Longrightarrow> \<exists>j. grow_buffer dos ioctl k c = Some (Inr (snd (ioctl (k + j) (c * 2 ^ j)))) \<and>
    need (k + j) \<le> c * 2 ^ j \<and> (\<forall>i<j. c * 2 ^ i < n)"
proof (induction "n - c" arbitrary: k c rule: less_induct)
  case less
  obtain st b where i: "ioctl k c = (st, b)" by force
  show ?case
  proof (cases "need k \<le> c")
    case True
    then have "st = STATUS_SUCCESS" using ok [OF less.prems True] i by simp
    then show ?thesis using i True by (intro exI [of _ 0]) (simp add: grow_buffer.simps)
  next
    case False
    then have st: "st = STATUS_BUFFER_TOO_SMALL" using small [of c k] less.prems i by simp
    have lt: "c < n" using False n [of k] by simp
    then have "n - 2 * c < n - c" using less.prems by simp
    then obtain j where j: "grow_buffer dos ioctl (k + 1) (2 * c) = Some (Inr (snd (ioctl (k + 1 + j) (2 * c * 2 ^ j))))"
        "need (k + 1 + j) \<le> 2 * c * 2 ^ j" "\<forall>i<j. 2 * c * 2 ^ i < n"
      using less.hyps [of "2 * c" "k + 1"] less.prems by auto
    have "\<forall>i<Suc j. c * 2 ^ i < n"
    proof (intro allI impI)
      fix i assume "i < Suc j"
      then show "c * 2 ^ i < n" using lt j(3) by (cases i) (simp_all add: mult.assoc mult.left_commute)
    qed
    moreover have "2 * c * 2 ^ j = c * 2 ^ Suc j" by simp
    moreover have "grow_buffer dos ioctl k c = grow_buffer dos ioctl (k + 1) (2 * c)"
      using i st dos by (simp add: grow_buffer.simps [of dos ioctl k c])
    ultimately show ?thesis using j by (intro exI [of _ "Suc j"]) (simp only: add_Suc_right add_Suc Suc_eq_plus1 [symmetric] add_0_right)
  qed
qed

section \<open>Requests: lemmas\<close>

lemma strncpy_s_padded:
  assumes "0 \<notin> set s" "length s < n"
  shows "strncpy_s (replicate n 0) s = (True, padded n s)"
proof -
  have "[0] @ drop (Suc (length s)) (replicate n (0 :: u8)) = replicate (n - length s) 0"
    using assms(2) by (cases "n - length s") (simp_all add: Suc_diff_Suc)
  then show ?thesis using assms by (simp add: strncpy_s_def cstr_id overwrite_def padded_def)
qed

text \<open>What a client may pass: names that are not empty, well-formed and short enough.\<close>

definition clean :: "(bytes \<Rightarrow> bool) \<Rightarrow> nat \<Rightarrow> bytes \<Rightarrow> bool" where
  "clean valid n s \<longleftrightarrow> valid s \<and> 0 \<notin> set s \<and> s \<noteq> [] \<and> length s < n"

definition clean_location :: "(bytes \<Rightarrow> bool) \<Rightarrow> device_location \<Rightarrow> bool" where
  "clean_location valid l \<longleftrightarrow> clean valid HOST_SIZE (dl_hostname l) \<and> clean valid SERVICE_SIZE (dl_service l) \<and>
     clean valid BUS_ID_SIZE (dl_busid l)"

definition device_of_args :: "attach_args \<Rightarrow> persistent_device" where
  "device_of_args a = \<lparr>pd_hostname = dl_hostname (aa_location a), pd_service = dl_service (aa_location a),
     pd_busid = dl_busid (aa_location a), pd_serial = aa_serial a\<rparr>"

lemma assign_location_clean:
  assumes "clean_location valid l"
  shows "assign_location zero_location l = (ERROR_SUCCESS,
    \<lparr>lc_port = 0, lc_busid = padded BUS_ID_SIZE (dl_busid l), lc_service = padded SERVICE_SIZE (dl_service l),
     lc_host = padded HOST_SIZE (dl_hostname l)\<rparr>)"
  using assms
  by (simp add: assign_location_def zero_location_def clean_location_def clean_def strncpy_s_padded)

lemma assign_args_clean:
  assumes "clean_location valid (aa_location a)" "validate_device_serial (aa_serial a)"
  shows "assign_args (zero_plugin_hardware\<lparr>pw_size := SIZEOF_PLUGIN_HARDWARE\<rparr>) a =
    (ERROR_SUCCESS, request_of (device_of_args a))"
proof -
  have s: "0 \<notin> set (aa_serial a)" "length (aa_serial a) < SERIAL_BUFSZ"
    using assms(2) by (simp_all add: validate_device_serial_iff list_all_alnum_no_null)
  show ?thesis
    using assms(2) strncpy_s_padded [OF s] assign_location_clean [OF assms(1)]
    by (simp add: assign_args_def assign_serial_def zero_plugin_hardware_def request_of_def device_of_args_def)
qed

text \<open>What the driver relies on of \<open>RtlUTF8ToUnicodeN\<close>: on well-formed strings it is the conversion of
  \<open>MultiByteToWideChar\<close>.\<close>

definition unicode_law :: "wide_api \<Rightarrow> (bytes \<Rightarrow> bool) \<Rightarrow> unicode_env \<Rightarrow> bool" where
  "unicode_law api valid env \<longleftrightarrow>
     (\<forall>s. valid s \<longrightarrow> ue_convert env s = (STATUS_SUCCESS, mb_to_wc api s)) \<and> (\<forall>n. ue_alloc env n)"

lemma save_name_padded:
  assumes "unicode_law api valid env" "clean valid n s"
  shows "save_name env (padded n s) = (STATUS_SUCCESS, mb_to_wc api s)"
proof -
  have "cstr (padded n s) = s" "length (padded n s) = n" "hd (padded n s) \<noteq> 0"
    using assms(2) cstr_padded [of s n] by (cases s; auto simp: clean_def padded_def)+
  then show ?thesis
    using assms by (simp add: save_name_def utf8_to_unicode_def utf8_string_to_unicode_def unicode_law_def clean_def
        Let_def NT_ERROR_def)
qed

lemma create_device_ctx_ext_clean:
  assumes law: "wide_law api rtl valid" and u: "unicode_law api valid env" and h: "hash_works henv"
    and a: "clean_location valid (aa_location a)" "validate_device_serial (aa_serial a)"
  shows "create_device_ctx_ext STATUS_SUCCESS env henv (request_of (device_of_args a)) =
    (STATUS_SUCCESS, attributes_of api henv (device_of_args a))"
proof -
  let ?d = "device_of_args a"
  have c: "clean valid HOST_SIZE (pd_hostname ?d)" "clean valid SERVICE_SIZE (pd_service ?d)"
    "clean valid BUS_ID_SIZE (pd_busid ?d)"
    using a(1) by (simp_all add: clean_location_def device_of_args_def)
  note n = save_name_padded [OF u c(1)] save_name_padded [OF u c(2)] save_name_padded [OF u c(3)]
  have "length (mb_to_wc api (pd_hostname ?d)) + length (mb_to_wc api (pd_service ?d)) +
      length (mb_to_wc api (pd_busid ?d)) < 32765"
    using wide_lawD(8) [OF law, of "pd_hostname ?d"] wide_lawD(8) [OF law, of "pd_service ?d"]
      wide_lawD(8) [OF law, of "pd_busid ?d"] c by (simp add: clean_def size_defs)
  then have hl: "hash_location henv \<lparr>at_node_name = mb_to_wc api (pd_hostname ?d), at_service_name = mb_to_wc api (pd_service ?d),
      at_busid = mb_to_wc api (pd_busid ?d), at_location_hash = 0, at_properties = zero_properties\<rparr> =
      (STATUS_SUCCESS, snd (h_rtl henv (location_text api ?d)))"
    by (simp add: hash_location_works [OF h] location_text_def)
  have s: "string_copy (replicate SERIAL_BUFSZ 0) (padded SERIAL_BUFSZ (pd_serial ?d)) SERIAL_BUFSZ =
      (STATUS_SUCCESS, padded SERIAL_BUFSZ (pd_serial ?d))"
    using a(2) by (intro string_copy_padded list_all_alnum_no_null)
      (simp_all add: device_of_args_def validate_device_serial_iff)
  show ?thesis
    using hl s by (simp add: create_device_ctx_ext_def init_device_attributes_def save_device_location_def
        request_of_def n zero_attributes_def attributes_of_def zero_properties_def)
qed

lemma stop_attach_loop_all: "stop_attach_loop 0 xs = (map fst xs, [])"
  by (induction xs) (subst stop_attach_loop.simps, simp add: hash_matches_def)+

section \<open>The attached devices: lemmas\<close>

text \<open>\<open>GET_IMPORTED_DEVICES\<close> as a client sees it: in the \<open>k\<close>-th call the lookups find \<open>hubs k\<close> and the
  buffer holds \<open>junk k\<close>.\<close>

definition imported_call ::
    "utf8_rtl \<Rightarrow> (wdf_handle \<Rightarrow> device_attributes) \<Rightarrow> int \<Rightarrow> (nat \<Rightarrow> int \<Rightarrow> vhci_hub) \<Rightarrow>
     (nat \<Rightarrow> nat \<Rightarrow> imported_device list) \<Rightarrow> nat \<Rightarrow> nat \<Rightarrow> ntstatus \<times> nat \<times> imported_device list" where
  "imported_call rtl attr n hubs junk k outlen =
     get_imported_devices_ioctl rtl attr n (hubs k)
       (Inr (outlen, get_imported_devices_size 1, junk k ((outlen - OFFSET_DEVICES) div SIZEOF_IMPORTED_DEVICE)))"

text \<open>A device as the client should see it.\<close>

definition reported_device ::
    "device_attributes \<Rightarrow> bytes \<Rightarrow> bytes \<Rightarrow> bytes \<Rightarrow> int \<Rightarrow> client_device" where
  "reported_device a host service busid port =
     \<lparr>cd_location = \<lparr>dl_hostname = host, dl_service = service, dl_busid = busid\<rparr>, cd_port = port,
      cd_devid = pr_devid (at_properties a), cd_speed = win_speed (pr_speed (at_properties a)),
      cd_vendor = pr_vendor (at_properties a), cd_product = pr_product (at_properties a),
      cd_serial = cstr (pr_serial (at_properties a))\<rparr>"

lemma fill_device_reported:
  assumes "named rtl a host service busid" "wf_slot slot"
  shows "\<exists>out. fill_device rtl slot a p = (STATUS_SUCCESS, out) \<and> wf_slot out \<and>
    make_imported_device out = reported_device a host service busid p"
  using fill_device_named [OF assms, of p] assms
  by (simp add: reported_device_def make_imported_device_def make_device_location_def Let_def cstr_named
      wf_slot_def length_named named_def)

lemma devices_capacity: "(get_imported_devices_size c - OFFSET_DEVICES) div SIZEOF_IMPORTED_DEVICE = c"
  by (simp add: get_imported_devices_size_def SIZEOF_IMPORTED_DEVICE_def)

lemma imported_call_result:
  assumes hubs: "\<And>p. hub_wf (hubs k p)"
    and names: "\<And>p d. roothub (hubs k p) p = Some d \<Longrightarrow> named rtl (attr d) (host d) (service d) (busid d)"
    and buffer: "length (junk k c) = c" "list_all wf_slot (junk k c)"
    and F: "F = found_devices (hubs k) [1..n]"
  shows "if length F \<le> c
    then \<exists>slots. imported_call rtl attr n hubs junk k (get_imported_devices_size c) =
        (STATUS_SUCCESS, get_imported_devices_size (length F), slots) \<and>
      map make_imported_device (take (length F) slots) =
        map (\<lambda>(p, d). reported_device (attr d) (host d) (service d) (busid d) p) F
    else \<exists>slots. imported_call rtl attr n hubs junk k (get_imported_devices_size c) = (STATUS_BUFFER_TOO_SMALL, 0, slots)"
proof -
  have "\<exists>out. fill_device rtl slot (attr d) p = (STATUS_SUCCESS, out) \<and> wf_slot out \<and>
      make_imported_device out = reported_device (attr d) (host d) (service d) (busid d) p"
    if "wf_slot slot" "roothub (hubs k p) p = Some d" for slot p d
    using fill_device_reported [OF names [OF that(2)] that(1)] .
  note res = imported_loop_result [where hubs = "hubs k" and view = make_imported_device and rtl = rtl and attr = attr
        and g = "\<lambda>p d. reported_device (attr d) (host d) (service d) (busid d) p" and slots = "junk k c"
        and max_cnt = c and cnt = 0 and ports = "[1..n]", OF hubs this buffer(2,1), folded F]
  show ?thesis
    using res by (cases "length F \<le> c") (auto simp: imported_call_def get_imported_devices_ioctl_def devices_capacity)
qed

section \<open>Properties\<close>


text \<open>C23. What a client asks to attach is what the driver attaches: for clean names and a valid serial
  number the request of \<open>attach\<close> passes the checks of the driver, which starts a work item for a device
  with exactly these names in wide characters, the serial number and the hash of the location, and
  the request stays pending.\<close>

theorem attach_request_understood:
  assumes law: "wide_law api rtl valid" and u: "unicode_law api valid env" and h: "hash_works henv"
    and a: "clean_location valid (aa_location a)" "validate_device_serial (aa_serial a)"
    and r: "assign_args (zero_plugin_hardware\<lparr>pw_size := SIZEOF_PLUGIN_HARDWARE\<rparr>) a = (err, r)"
  shows "err = ERROR_SUCCESS \<and>
    plugin_hardware_ioctl STATUS_SUCCESS STATUS_SUCCESS env henv (Inr (SIZEOF_PLUGIN_HARDWARE, r)) (aa_once a) =
      \<lparr>pi_status = STATUS_PENDING, pi_information = 8, pi_request = Some r,
       pi_work_item = Some (attributes_of api henv (device_of_args a), aa_once a)\<rparr>"
proof -
  have rq: "err = ERROR_SUCCESS" "r = request_of (device_of_args a)"
    using r assign_args_clean [OF a] by simp_all
  have "validate_serial_number (pw_serial r) = STATUS_SUCCESS"
    using a(2) cstr_padded [of "aa_serial a" SERIAL_BUFSZ]
    by (subst validate_serial_number_iff)
      (simp_all add: rq request_of_def device_of_args_def padded_def validate_device_serial_iff list_all_alnum_no_null)
  moreover have "r\<lparr>pw_location := (pw_location r)\<lparr>lc_port := 0\<rparr>\<rparr> = r"
    by (simp add: rq request_of_def)
  moreover have "pw_size r = SIZEOF_PLUGIN_HARDWARE" by (simp add: rq request_of_def)
  ultimately show ?thesis
    using create_device_ctx_ext_clean [OF law u h a]
    by (simp add: rq plugin_hardware_ioctl_def start_work_item_def Let_def)
qed

text \<open>\<open>STOP_ATTACH_ATTEMPTS\<close> as a client sees it.\<close>

definition stop_call ::
    "unicode_env \<Rightarrow> hash_env \<Rightarrow> reattach_req \<Rightarrow> stop_request \<Rightarrow> ntstatus \<times> nat \<times> stop_request option \<times> reattach_req" where
  "stop_call env henv reqs r =
     (case stop_attach_attempts_ioctl env henv reqs (Inr (SIZEOF_STOP_ATTACH_ATTEMPTS, r)) of
        (st, n, r', cancelled, left) \<Rightarrow> (st, n, r', left))"


section \<open>The filter policy: lemmas\<close>

text \<open>\<open>GET_DEVICE_FILTER\<close> as a client sees it: only the size at the start of the buffer is defined.\<close>

definition filter_call ::
    "'r registry_api \<Rightarrow> 'r \<Rightarrow> bytes \<Rightarrow> (nat \<Rightarrow> nat \<Rightarrow> bytes) \<Rightarrow> nat \<Rightarrow> nat \<Rightarrow> ntstatus \<times> bytes \<times> nat" where
  "filter_call reg r tmp junk k outlen =
     get_device_filter reg r tmp (Inr (le32 (of_nat sizeof_device_filter) @ junk k (outlen - 4)))"

lemma policy_request_image:
  "policy_request p = le32 16 @ [if cp_mode p = FM_disabled then disabled else whitelist, 0, 0, 0] @
     le32 (of_nat (length (cp_entries p))) @ entries_bytes (cp_entries p) @ (if cp_entries p = [] then replicate 4 0 else [])"
proof -
  have le: "le32 16 = [16, 0, 0, 0]" by (simp add: le32_def)
  have l4: "le32 w = [ucast w, ucast (drop_bit 8 w), ucast (drop_bit 16 w), ucast (drop_bit 24 w)]" for w
    by (simp add: le32_def)
  have z: "replicate (12 + m) (0 :: u8) = [0, 0, 0, 0, 0, 0, 0, 0, 0, 0, 0, 0] @ replicate m 0" for m
    by (simp add: replicate_add numeral_eq_Suc)
  show ?thesis
  proof (cases "cp_entries p")
    case Nil
    then show ?thesis
      by (simp add: policy_request_def Let_def device_filter_size_def offset_entries_def sizeof_device_filter_def
          le l4 overwrite_def entries_bytes_def numeral_eq_Suc)
  next
    case (Cons e es)
    then have n: "cp_entries p \<noteq> []" "\<not> 12 + length (cp_entries p) * 4 < 16" by simp_all
    have len: "length (entries_bytes (cp_entries p)) = length (cp_entries p) * 4" by simp
    show ?thesis
      using n by (simp add: policy_request_def Let_def device_filter_size_def offset_entries_def
          sizeof_device_filter_def z le l4 overwrite_def len del: replicate_add)
  qed
qed

lemma policy_request_fields:
  assumes "length (cp_entries p) \<le> MAX_DEVICE_FILTER_ENTRIES"
  shows "16 \<le> length (policy_request p)" "take 4 (policy_request p) = le32 16"
    "unat (of_le32 (slice 8 4 (policy_request p))) = length (cp_entries p)"
    "policy_request p ! 4 = (if cp_mode p = FM_disabled then disabled else whitelist)"
    "slice 8 (4 + 4 * length (cp_entries p)) (policy_request p) =
      le32 (of_nat (length (cp_entries p))) @ entries_bytes (cp_entries p)"
proof -
  note img = policy_request_image [of p]
  have l: "length (le32 16) = 4" by simp
  show "16 \<le> length (policy_request p)"
    by (cases "cp_entries p") (simp_all add: img)
  show "take 4 (policy_request p) = le32 16" by (simp add: img)
  show "policy_request p ! 4 = (if cp_mode p = FM_disabled then disabled else whitelist)"
    by (simp add: img nth_append)
  have "slice 8 4 (policy_request p) = le32 (of_nat (length (cp_entries p)))"
    by (simp add: img slice_def)
  then show "unat (of_le32 (slice 8 4 (policy_request p))) = length (cp_entries p)"
    using assms by (simp add: unat_of_nat MAX_DEVICE_FILTER_ENTRIES_def take_bit_nat_eq_self)
  show "slice 8 (4 + 4 * length (cp_entries p)) (policy_request p) =
      le32 (of_nat (length (cp_entries p))) @ entries_bytes (cp_entries p)"
    by (simp add: img slice_def)
qed

lemma entries_of_bytes_append: "entries_of_bytes (length es) (entries_bytes es @ rest) = es"
  by (induction es) (simp_all add: entries_bytes_def entry_bytes_def entry_of_bytes_def)

lemma filter_call_result:
  assumes reg: "registry_law reg" and p: "length (cp_entries p) \<le> MAX_DEVICE_FILTER_ENTRIES"
    and set: "set_device_filter reg r (Inr (policy_request p)) = (STATUS_SUCCESS, r')"
    and op: "reg_open reg r' False = STATUS_SUCCESS" and tmp: "length tmp = sizeof_policy"
    and junk: "\<And>k n. length (junk k n) = n" and c: "1 \<le> c"
  shows "if length (cp_entries p) \<le> c
    then \<exists>out. filter_call reg r' tmp junk k (device_filter_size c) =
        (STATUS_SUCCESS, out, device_filter_size (length (cp_entries p))) \<and>
      take (device_filter_size (length (cp_entries p))) out =
        le32 16 @ [if cp_mode p = FM_disabled then disabled else whitelist, 0, 0, 0] @
        le32 (of_nat (length (cp_entries p))) @ entries_bytes (cp_entries p)
    else \<exists>out. filter_call reg r' tmp junk k (device_filter_size c) = (STATUS_BUFFER_TOO_SMALL, out)"
proof -
  let ?n = "length (cp_entries p)"
  define buf where "buf m = le32 16 @ junk k (device_filter_size m - 4)" for m
  have buf: "length (buf m) = device_filter_size m" "take 4 (buf m) = take 4 (policy_request p)"
    "slice 0 4 (buf m) = le32 16" for m
    using junk policy_request_fields(2) [OF p]
    by (simp_all add: buf_def device_filter_size_def offset_entries_def slice_def)
  have call: "filter_call reg r' tmp junk k (device_filter_size m) = get_device_filter reg r' tmp (Inr (buf m))" for m
    by (simp add: filter_call_def buf_def sizeof_device_filter_def)
  note f = policy_request_fields [OF p]
  have get: "\<exists>out. get_device_filter reg r' tmp (Inr (buf m)) = (STATUS_SUCCESS, out, device_filter_size ?n) \<and>
      take (device_filter_size ?n) out = le32 16 @ [if cp_mode p = FM_disabled then disabled else whitelist, 0, 0, 0] @
        le32 (of_nat ?n) @ entries_bytes (cp_entries p)" if "1 \<le> m" "?n \<le> m" for m
    using set_get_device_filter [OF reg f(1) set op tmp f(3) [symmetric], of "buf m"] that buf f
    by (auto simp: device_filter_size_def offset_entries_def)
  have cnt: "unat (pol_count (load reg r' tmp)) = ?n"
    using get [of "Suc ?n"] buf(1,3)
    by (auto simp: get_device_filter_def Let_def device_filter_size_def split: if_splits)
  show ?thesis
  proof (cases "?n \<le> c")
    case True
    then show ?thesis using get [OF c True] call by simp
  next
    case False
    then show ?thesis
      using cnt buf
      by (simp only: call get_device_filter_def) (simp add: sizeof_device_filter_def device_filter_size_def)
  qed
qed

text \<open>C17. The policy that a client sets is the policy that a client gets: a policy with at most 64
  entries that the driver has stored is returned by \<open>get_device_filter\<close> of the library with the same
  mode and the same entries in the same order, after enlarging the buffer as needed and whatever
  the buffers and the memory of the driver contained; a policy with more entries is refused without
  calling the driver.\<close>

theorem client_filter_roundtrip:
  assumes reg: "registry_law reg" and p: "length (cp_entries p) \<le> MAX_DEVICE_FILTER_ENTRIES"
    and set: "set_device_filter reg r (Inr (policy_request p)) = (STATUS_SUCCESS, r')"
    and op: "reg_open reg r' False = STATUS_SUCCESS" and tmp: "length tmp = sizeof_policy"
    and junk: "\<And>k n. length (junk k n) = n"
    and dos: "dos STATUS_BUFFER_TOO_SMALL = ERROR_INSUFFICIENT_BUFFER"
  shows "client_set_device_filter (\<lambda>b. set_device_filter reg r (Inr b)) r p = (True, r') \<and>
    client_get_device_filter dos (filter_call reg r' tmp junk) = Some (Inr p) \<and>
    (MAX_DEVICE_FILTER_ENTRIES < length es \<longrightarrow>
      client_set_device_filter (\<lambda>b. set_device_filter reg r (Inr b)) r (p\<lparr>cp_entries := es\<rparr>) = (False, r))"
proof -
  let ?n = "length (cp_entries p)"
  let ?io = "\<lambda>k c. filter_call reg r' tmp junk k (device_filter_size c)"
  let ?img = "le32 16 @ [if cp_mode p = FM_disabled then disabled else whitelist, 0, 0, 0] @
    le32 (of_nat ?n) @ entries_bytes (cp_entries p)"
  have call: "(?n \<le> c \<longrightarrow> (\<exists>out. ?io k c = (STATUS_SUCCESS, out, device_filter_size ?n) \<and> take (device_filter_size ?n) out = ?img)) \<and>
      (c < ?n \<longrightarrow> (\<exists>out. ?io k c = (STATUS_BUFFER_TOO_SMALL, out)))" if "0 < c" for k c
    using filter_call_result [where junk = junk and k = k and c = c, OF reg p set op tmp junk] that
    by (cases "?n \<le> c") simp_all
  obtain k where k: "grow_buffer dos ?io 0 16 = Some (Inr (snd (?io k (16 * 2 ^ k))))" "?n \<le> 16 * 2 ^ k"
    using grow_buffer_returns [where need = "\<lambda>_. ?n" and n = ?n and k = 0 and c = 16 and dos = dos and ioctl = ?io, OF _ _ dos]
      call by (metis (no_types, lifting) add_0 fst_conv le_refl zero_less_numeral)
  obtain out where out: "?io k (16 * 2 ^ k) = (STATUS_SUCCESS, out, device_filter_size ?n)"
      "take (device_filter_size ?n) out = ?img"
    using call [of "16 * 2 ^ k" k] k(2) by auto
  define img where "img = ?img"
  have n: "unat (of_nat ?n :: u32) = ?n"
    using p by (simp add: unat_of_nat MAX_DEVICE_FILTER_ENTRIES_def take_bit_nat_eq_self)
  have "slice 8 4 img = le32 (of_nat ?n)" by (simp add: slice_def img_def)
  then have f: "unat (of_le32 (slice 8 4 img)) = ?n" using n by simp
  have sz: "\<not> device_filter_size ?n < offset_entries" "(length img - offset_entries) div 4 = ?n"
    by (simp_all add: device_filter_size_def offset_entries_def img_def)
  have "client_get_device_filter dos (filter_call reg r' tmp junk) = Some (Inr
      \<lparr>cp_mode = (if img ! 4 = disabled then FM_disabled else FM_whitelist),
       cp_entries = entries_of_bytes ?n (drop offset_entries img)\<rparr>)"
    unfolding client_get_device_filter_def k(1) out(1) snd_conv by (simp add: out(2) [folded img_def] f sz Let_def)
  moreover have "img ! 4 = (if cp_mode p = FM_disabled then disabled else whitelist)" by (simp add: nth_append img_def)
  moreover have "entries_of_bytes ?n (drop offset_entries img) = cp_entries p"
    using entries_of_bytes_append [of "cp_entries p" "[]"] by (simp add: img_def offset_entries_def)
  moreover have "client_set_device_filter (\<lambda>b. set_device_filter reg r (Inr b)) r p = (True, r')"
    using p set by (simp add: client_set_device_filter_def)
  ultimately show ?thesis
    by (cases "cp_mode p") (simp_all add: client_set_device_filter_def)
qed

section \<open>Instances\<close>

definition sample_attributes :: device_attributes where
  "sample_attributes = zero_attributes\<lparr>at_node_name := [0x70], at_service_name := [0x33], at_busid := [0x31]\<rparr>"

definition sample_slot :: imported_device where
  "sample_slot = \<lparr>id_location = \<lparr>lc_port = 0, lc_busid = replicate BUS_ID_SIZE 7, lc_service = replicate SERVICE_SIZE 7,
      lc_host = replicate HOST_SIZE 7\<rparr>, id_properties = zero_properties\<rparr>"


definition sample_args :: attach_args where
  "sample_args = \<lparr>aa_location = \<lparr>dl_hostname = [0x70, 0x63], dl_service = [0x33], dl_busid = [0x33, 0x2D, 0x31]\<rparr>,
     aa_serial = [0x41], aa_once = True\<rparr>"

definition ascii_unicode :: unicode_env where
  "ascii_unicode = \<lparr>ue_convert = (\<lambda>s. (STATUS_SUCCESS, map ucast s)), ue_alloc = (\<lambda>_. True)\<rparr>"

theorem attach_request_understood_witness:
  "\<exists>r. assign_args (zero_plugin_hardware\<lparr>pw_size := SIZEOF_PLUGIN_HARDWARE\<rparr>) sample_args = (ERROR_SUCCESS, r) \<and>
     pi_status (plugin_hardware_ioctl STATUS_SUCCESS STATUS_SUCCESS ascii_unicode sample_hash
       (Inr (SIZEOF_PLUGIN_HARDWARE, r)) True) = STATUS_PENDING"
proof -
  have u: "unicode_law ascii_api ascii ascii_unicode" by (simp add: unicode_law_def ascii_unicode_def ascii_api_def)
  have h: "hash_works sample_hash" by (simp add: hash_works_def sample_hash_def)
  have a: "clean_location ascii (aa_location sample_args)" "validate_device_serial (aa_serial sample_args)"
    by (simp_all add: clean_location_def clean_def sample_args_def ascii_def validate_device_serial_iff alnum_def size_defs)
  obtain err r where r: "assign_args (zero_plugin_hardware\<lparr>pw_size := SIZEOF_PLUGIN_HARDWARE\<rparr>) sample_args = (err, r)" by force
  from attach_request_understood [OF wide_law_ascii u h a r] r show ?thesis
    by (intro exI [of _ r]) (simp add: sample_args_def)
qed


definition client_sample_policy :: client_policy where
  "client_sample_policy = \<lparr>cp_mode = FM_whitelist, cp_entries = [\<lparr>bClass = 3, bSubClass = 0, bProtocol = 0, match_flags = 1\<rparr>]\<rparr>"

theorem client_filter_roundtrip_witness:
  "client_get_device_filter (\<lambda>_. ERROR_INSUFFICIENT_BUFFER)
     (filter_call mem_registry (snd (client_set_device_filter (\<lambda>b. set_device_filter mem_registry None (Inr b)) None client_sample_policy))
       (replicate sizeof_policy 0xFF) (\<lambda>_ n. replicate n 0xEE)) = Some (Inr client_sample_policy)"
proof -
  have len: "length (cp_entries client_sample_policy) \<le> MAX_DEVICE_FILTER_ENTRIES"
    by (simp add: client_sample_policy_def MAX_DEVICE_FILTER_ENTRIES_def)
  note f = policy_request_fields [OF len]
  have "slice 0 4 (policy_request client_sample_policy) = le32 16" using f(2) by (simp add: slice_def)
  moreover have "length (policy_request client_sample_policy) = 16"
    by (simp add: policy_request_image client_sample_policy_def)
  ultimately have set: "set_device_filter mem_registry None (Inr (policy_request client_sample_policy)) =
      (STATUS_SUCCESS, snd (set_device_filter mem_registry None (Inr (policy_request client_sample_policy))))"
    using f(3) by (simp add: set_device_filter_def Let_def sizeof_device_filter_def offset_entries_def
        MAX_DEVICE_FILTER_ENTRIES_def client_sample_policy_def store_def mem_registry_def)
  have c: "client_set_device_filter (\<lambda>b. set_device_filter mem_registry None (Inr b)) None client_sample_policy =
      (True, snd (set_device_filter mem_registry None (Inr (policy_request client_sample_policy))))"
    using client_filter_roundtrip [OF registry_law_mem len set, where tmp = "replicate sizeof_policy 0xFF" and
        junk = "\<lambda>_ n. replicate n 0xEE" and dos = "\<lambda>_. ERROR_INSUFFICIENT_BUFFER"] by (simp add: mem_registry_def)
  show ?thesis
    unfolding c snd_conv
    using client_filter_roundtrip [OF registry_law_mem len set, where tmp = "replicate sizeof_policy 0xFF" and
        junk = "\<lambda>_ n. replicate n 0xEE" and dos = "\<lambda>_. ERROR_INSUFFICIENT_BUFFER"]
    by (simp add: mem_registry_def)
qed

end
