(* ===== verification/Remote.thy ===== *)
theory Remote
  imports Client
begin

text \<open>
  The list of devices that a server exports (\<open>userspace/libusbip/src/remote.cpp\<close>): the request, the
  header of the answer, the number of devices, and for every device its description and those of its
  interfaces, each passed to a callback. The calls of the callbacks are a list of events.

  The socket is a parameter: \<open>net_recv s n\<close> is \<open>recv\<close> of \<open>n\<close> bytes with \<open>MSG_WAITALL\<close> (\<open>None\<close> is
  \<open>SOCKET_ERROR\<close>), \<open>net_send\<close> the number of bytes that \<open>send\<close> took, \<open>net_error\<close> the value of
  \<open>GetLastError\<close>.
\<close>

record 's net =
  net_recv :: "'s \<Rightarrow> nat \<Rightarrow> bytes option \<times> 's"
  net_send :: "'s \<Rightarrow> bytes \<Rightarrow> nat option \<times> 's"
  net_error :: "'s \<Rightarrow> win32"

section \<open>Transfers\<close>

definition client_recv :: "'s net \<Rightarrow> nat \<Rightarrow> 's \<Rightarrow> bytes option \<times> 's" where
  "client_recv net len s =
     (case net_recv net s len of
        (None, s) \<Rightarrow> (None, s)
      | (Some bs, s) \<Rightarrow> (if length bs = len then Some bs else None, s))"

text \<open>The loop ends when everything was sent or \<open>send\<close> failed; \<open>None\<close> is a loop that does not end.\<close>

partial_function (option) client_send :: "'s net \<Rightarrow> bytes \<Rightarrow> 's \<Rightarrow> (bool \<times> 's) option" where
  "client_send net buf s =
     (if buf = [] then Some (True, s)
      else case net_send net s buf of
        (None, s) \<Rightarrow> Some (False, s)
      | (Some ret, s) \<Rightarrow> client_send net (drop ret buf) s)"

definition send_op_common :: "'s net \<Rightarrow> u16 \<Rightarrow> 's \<Rightarrow> (bool \<times> 's) option" where
  "send_op_common net code =
     client_send net (op_common_bytes (byteswap_op_common
       \<lparr>op_version = USBIP_VERSION, op_code = code, op_status = 0\<rparr>))"

text \<open>The error is a code of the system or of the program; it counts as none if it is zero.\<close>

datatype remote_error = LastError win32 | Status ntstatus

definition no_error :: "remote_error \<Rightarrow> bool" where
  "no_error e \<longleftrightarrow> e = LastError ERROR_SUCCESS \<or> e = Status STATUS_SUCCESS"

definition client_recv_op_common :: "'s net \<Rightarrow> u16 \<Rightarrow> 's \<Rightarrow> remote_error \<times> 's" where
  "client_recv_op_common net expected_code s =
     (case client_recv net 8 s of
        (None, s) \<Rightarrow> (LastError (net_error net s), s)
      | (Some bs, s) \<Rightarrow>
          let r = byteswap_op_common (op_common_of_bytes bs) in
          if op_version r \<noteq> USBIP_VERSION then (Status USBIP_ERROR_VERSION, s)
          else if op_code r \<noteq> expected_code then (Status USBIP_ERROR_PROTOCOL, s)
          else (Status (op_status_error (op_status r)), s))"

section \<open>Devices\<close>

record usb_device =
  ub_path :: bytes
  ub_busid :: bytes
  ub_busnum :: u32
  ub_devnum :: u32
  ub_speed :: usb_speed
  ub_idVendor :: u16
  ub_idProduct :: u16
  ub_bcdDevice :: u16
  ub_bDeviceClass :: u8
  ub_bDeviceSubClass :: u8
  ub_bDeviceProtocol :: u8
  ub_bConfigurationValue :: u8
  ub_bNumConfigurations :: u8
  ub_bNumInterfaces :: u8

text \<open>\<open>path\<close> and \<open>busid\<close> are arrays that are used as C strings: the strings go on to the first null
  character in memory, which may be behind the array.\<close>

definition as_usb_device :: "usbip_usb_device \<Rightarrow> usb_device" where
  "as_usb_device d =
     \<lparr>ub_path = cstr (usb_device_bytes d), ub_busid = cstr (drop DEV_PATH_MAX (usb_device_bytes d)),
      ub_busnum = ud_busnum d, ub_devnum = ud_devnum d, ub_speed = win_speed (sint (ud_speed d)),
      ub_idVendor = ud_idVendor d, ub_idProduct = ud_idProduct d, ub_bcdDevice = ud_bcdDevice d,
      ub_bDeviceClass = ud_bDeviceClass d, ub_bDeviceSubClass = ud_bDeviceSubClass d,
      ub_bDeviceProtocol = ud_bDeviceProtocol d, ub_bConfigurationValue = ud_bConfigurationValue d,
      ub_bNumConfigurations = ud_bNumConfigurations d, ub_bNumInterfaces = ud_bNumInterfaces d\<rparr>"

text \<open>An interface is four bytes.\<close>

datatype remote_event =
  OnDeviceCount u32
  | OnDevice nat usb_device
  | OnInterface nat usb_device nat bytes

fun interfaces_loop ::
    "'s net \<Rightarrow> nat \<Rightarrow> usb_device \<Rightarrow> nat \<Rightarrow> nat \<Rightarrow> remote_event list \<Rightarrow> 's \<Rightarrow> bool \<times> remote_event list \<times> 's" where
  "interfaces_loop net i d j 0 evs s = (True, evs, s)"
| "interfaces_loop net i d j (Suc left) evs s =
     (case client_recv net 4 s of
        (None, s) \<Rightarrow> (False, evs, s)
      | (Some intf, s) \<Rightarrow> interfaces_loop net i d (j + 1) left (evs @ [OnInterface i d j intf]) s)"

fun devices_loop ::
    "'s net \<Rightarrow> nat \<Rightarrow> nat \<Rightarrow> remote_event list \<Rightarrow> 's \<Rightarrow> bool \<times> remote_event list \<times> 's" where
  "devices_loop net i 0 evs s = (True, evs, s)"
| "devices_loop net i (Suc left) evs s =
     (case client_recv net sizeof_usbip_usb_device s of
        (None, s) \<Rightarrow> (False, evs, s)
      | (Some bs, s) \<Rightarrow>
          let d = as_usb_device (byteswap_usb_device (usb_device_of_bytes bs)) in
          (case interfaces_loop net i d 0 (unat (ub_bNumInterfaces d)) (evs @ [OnDevice i d]) s of
             (ok, evs, s) \<Rightarrow> if ok then devices_loop net (i + 1) left evs s else (False, evs, s)))"

definition enum_exportable_devices :: "'s net \<Rightarrow> 's \<Rightarrow> (bool \<times> remote_event list \<times> 's) option" where
  "enum_exportable_devices net s =
     (case send_op_common net OP_REQ_DEVLIST s of
        None \<Rightarrow> None
      | Some (ok, s) \<Rightarrow>
          if \<not> ok then Some (False, [], s)
          else case client_recv_op_common net OP_REP_DEVLIST s of
            (err, s) \<Rightarrow>
              if \<not> no_error err then Some (False, [], s)
              else (case client_recv net 4 s of
                (None, s) \<Rightarrow> Some (False, [], s)
              | (Some bs, s) \<Rightarrow>
                  let ndev = byteswap_op_devlist_reply (of_le32 bs) in
                  Some (devices_loop net 0 (unat ndev) [OnDeviceCount ndev] s)))"

section \<open>The stream\<close>

text \<open>What the code relies on of a TCP connection: \<open>pending s\<close> are the bytes that the peer has sent and
  that were not received; \<open>recv\<close> with \<open>MSG_WAITALL\<close> gives the next ones in order, fewer only if there are
  no more, and \<open>send\<close> takes at least one byte.\<close>

definition stream_law :: "'s net \<Rightarrow> ('s \<Rightarrow> bytes) \<Rightarrow> bool" where
  "stream_law net pending \<longleftrightarrow>
     (\<forall>s n. \<exists>s'. net_recv net s n = (Some (take n (pending s)), s') \<and> pending s' = drop n (pending s)) \<and>
     (\<forall>s b. b \<noteq> [] \<longrightarrow> (\<exists>k s'. net_send net s b = (Some k, s') \<and> 0 < k \<and> k \<le> length b \<and> pending s' = pending s))"

lemma client_recv_stream:
  assumes "stream_law net pending" "pending s = bs @ rest" "length bs = n"
  shows "\<exists>s'. client_recv net n s = (Some bs, s') \<and> pending s' = rest"
proof -
  obtain s' where "net_recv net s n = (Some (take n (pending s)), s')" "pending s' = drop n (pending s)"
    using assms(1) unfolding stream_law_def by blast
  then show ?thesis using assms(2,3) by (simp add: client_recv_def)
qed

lemma client_recv_short:
  assumes "stream_law net pending" "length (pending s) < n"
  shows "\<exists>s'. client_recv net n s = (None, s')"
proof -
  obtain s' where "net_recv net s n = (Some (take n (pending s)), s')"
    using assms(1) unfolding stream_law_def by blast
  then show ?thesis using assms(2) by (simp add: client_recv_def)
qed

lemma client_send_stream:
  assumes "stream_law net pending"
  shows "\<exists>s'. client_send net buf s = Some (True, s') \<and> pending s' = pending s"
proof (induction "length buf" arbitrary: buf s rule: less_induct)
  case less
  show ?case
  proof (cases "buf = []")
    case False
    then obtain k s1 where k: "net_send net s buf = (Some k, s1)" "0 < k" "k \<le> length buf" "pending s1 = pending s"
      using assms unfolding stream_law_def by blast
    obtain s' where "client_send net (drop k buf) s1 = Some (True, s')" "pending s' = pending s1"
      using less [of "drop k buf" s1] k False by auto
    then show ?thesis using k False by (subst client_send.simps) simp
  qed (simp add: client_send.simps)
qed

section \<open>What a server sends\<close>

type_synonym exported_device = "usbip_usb_device \<times> bytes list"

definition wf_exported :: "exported_device \<Rightarrow> bool" where
  "wf_exported x \<longleftrightarrow> wf_usb_device (fst x) \<and> 0 \<in> set (ud_path (fst x)) \<and> 0 \<in> set (ud_busid (fst x)) \<and>
     length (snd x) = unat (ud_bNumInterfaces (fst x)) \<and> list_all (\<lambda>i. length i = 4) (snd x)"

definition device_reply :: "exported_device \<Rightarrow> bytes" where
  "device_reply x = usb_device_bytes (byteswap_usb_device (fst x)) @ concat (snd x)"

definition devlist_reply :: "exported_device list \<Rightarrow> bytes" where
  "devlist_reply xs =
     op_common_bytes (byteswap_op_common \<lparr>op_version = USBIP_VERSION, op_code = OP_REP_DEVLIST, op_status = 0\<rparr>) @
     le32 (byteswap_op_devlist_reply (of_nat (length xs))) @ concat (map device_reply xs)"

text \<open>The calls that a client should get for a device.\<close>

definition client_usb_device :: "usbip_usb_device \<Rightarrow> usb_device" where
  "client_usb_device d = (as_usb_device d)\<lparr>ub_path := cstr (ud_path d), ub_busid := cstr (ud_busid d)\<rparr>"

definition device_events :: "nat \<Rightarrow> exported_device \<Rightarrow> remote_event list" where
  "device_events i x =
     OnDevice i (client_usb_device (fst x)) #
     map (\<lambda>(j, intf). OnInterface i (client_usb_device (fst x)) j intf) (enumerate 0 (snd x))"

lemma cstr_append: "0 \<in> set s \<Longrightarrow> cstr (s @ t) = cstr s"
  by (induction s) (auto simp: cstr_def)

lemma cstr_append_plain: "0 \<notin> set s \<Longrightarrow> cstr (s @ t) = s @ cstr t"
  by (induction s) (auto simp: cstr_def)

lemma as_usb_device_terminated:
  assumes "wf_usb_device d" "0 \<in> set (ud_path d)" "0 \<in> set (ud_busid d)"
  shows "as_usb_device d = client_usb_device d"
  using assms by (simp add: client_usb_device_def as_usb_device_def usb_device_bytes_def cstr_append wf_usb_device_def)

lemma interfaces_loop_stream:
  assumes "stream_law net pending"
  shows "list_all (\<lambda>i. length i = 4) ifs \<Longrightarrow> pending s = concat ifs @ rest \<Longrightarrow>
    \<exists>s'. interfaces_loop net i d j (length ifs) evs s =
        (True, evs @ map (\<lambda>(k, intf). OnInterface i d k intf) (enumerate j ifs), s') \<and> pending s' = rest"
proof (induction ifs arbitrary: j evs s)
  case (Cons a ifs)
  then obtain s1 where "client_recv net 4 s = (Some a, s1)" "pending s1 = concat ifs @ rest"
    using client_recv_stream [OF assms, of s a "concat ifs @ rest" 4] by auto
  then show ?case using Cons.IH [of s1 "Suc j" "evs @ [OnInterface i d j a]"] Cons.prems by simp
qed simp

lemma devices_loop_stream:
  assumes "stream_law net pending"
  shows "list_all wf_exported xs \<Longrightarrow> pending s = concat (map device_reply xs) @ rest \<Longrightarrow>
    \<exists>s'. devices_loop net i (length xs) evs s =
        (True, evs @ concat (map (\<lambda>(k, x). device_events k x) (enumerate i xs)), s') \<and> pending s' = rest"
proof (induction xs arbitrary: i evs s)
  case (Cons x xs)
  obtain d ifs where x: "x = (d, ifs)" by force
  have wf: "wf_usb_device d" "0 \<in> set (ud_path d)" "0 \<in> set (ud_busid d)"
      "length ifs = unat (ud_bNumInterfaces d)" "list_all (\<lambda>i. length i = 4) ifs"
    using Cons.prems(1) by (simp_all add: x wf_exported_def)
  have len: "length (usb_device_bytes (byteswap_usb_device d)) = sizeof_usbip_usb_device"
    by (rule usb_device_codec.length_enc [OF usb_device_codec.wf_to_net [OF wf(1)]])
  have "pending s = usb_device_bytes (byteswap_usb_device d) @ concat ifs @ concat (map device_reply xs) @ rest"
    using Cons.prems(2) by (simp add: x device_reply_def [of "(d, ifs)"])
  then obtain s1 where s1: "client_recv net sizeof_usbip_usb_device s = (Some (usb_device_bytes (byteswap_usb_device d)), s1)"
      "pending s1 = concat ifs @ concat (map device_reply xs) @ rest"
    using client_recv_stream [OF assms _ len] by blast
  have b: "ub_bNumInterfaces (client_usb_device d) = ud_bNumInterfaces d"
    by (simp add: client_usb_device_def as_usb_device_def)
  have dec: "as_usb_device (byteswap_usb_device (usb_device_of_bytes (usb_device_bytes (byteswap_usb_device d)))) = client_usb_device d"
    using usb_device_codec.sent_is_received [OF wf(1)] as_usb_device_terminated [OF wf(1-3)] by simp
  obtain s2 where "interfaces_loop net i (client_usb_device d) 0 (length ifs) (evs @ [OnDevice i (client_usb_device d)]) s1 =
      (True, (evs @ [OnDevice i (client_usb_device d)]) @
        map (\<lambda>(k, intf). OnInterface i (client_usb_device d) k intf) (enumerate 0 ifs), s2)"
      "pending s2 = concat (map device_reply xs) @ rest"
    using interfaces_loop_stream [OF assms wf(5) s1(2)] by blast
  then have step: "devices_loop net i (length (x # xs)) evs s =
      devices_loop net (i + 1) (length xs) (evs @ device_events i x) s2"
    using s1(1) dec b wf(4) by (simp add: x device_events_def Let_def)
  obtain s3 where "devices_loop net (i + 1) (length xs) (evs @ device_events i x) s2 =
      (True, (evs @ device_events i x) @ concat (map (\<lambda>(k, x). device_events k x) (enumerate (i + 1) xs)), s3)"
      "pending s3 = rest"
    using Cons.IH [of s2 "i + 1" "evs @ device_events i x"] Cons.prems(1) \<open>pending s2 = _\<close> by auto
  then show ?case unfolding step by simp
qed simp

section \<open>Properties\<close>


text \<open>A server that does not terminate the path of a device makes the client take the bus id, and
  what follows it, for a part of the path: the string is read beyond its array.\<close>

lemma as_usb_device_overreads:
  assumes "wf_usb_device d" "0 \<notin> set (ud_path d)" "0 \<in> set (ud_busid d)"
  shows "ub_path (as_usb_device d) = ud_path d @ cstr (ud_busid d) \<and>
    DEV_PATH_MAX \<le> length (ub_path (as_usb_device d))"
  using assms
  by (simp add: as_usb_device_def usb_device_bytes_def cstr_append_plain cstr_append wf_usb_device_def)

section \<open>Instances\<close>

text \<open>A connection on which every \<open>send\<close> takes one byte.\<close>

definition byte_net :: "bytes net" where
  "byte_net = \<lparr>net_recv = (\<lambda>s n. (Some (take n s), drop n s)), net_send = (\<lambda>s b. (Some 1, s)),
     net_error = (\<lambda>_. ERROR_SUCCESS)\<rparr>"

lemma stream_law_byte: "stream_law byte_net (\<lambda>s. s)"
  by (auto simp: stream_law_def byte_net_def Suc_le_eq)

definition sample_exported :: exported_device where
  "sample_exported = (sample_import\<lparr>ud_bNumInterfaces := 1\<rparr>, [[3, 1, 1, 0]])"

lemma sample_exported_ok: "wf_exported sample_exported"
  using wf_sample_import
  by (simp add: wf_exported_def sample_exported_def sample_import_def sample_udev_def wf_usb_device_def)


end
