(* ===== verification/Usb_Ids.thy ===== *)
theory Usb_Ids
  imports Prelude "HOL-Library.Monad_Syntax"
begin

text \<open>
  The database of vendors, products and classes (\<open>userspace/libusbip/src/usb_ids.cpp\<close>): the parser of the
  file \<open>usb.ids\<close> and the two lookups.

  A \<open>std::string_view\<close> is the memory from its first character to the end of the file, and its size. An
  operation yields \<open>None\<close> when it reads behind the end of the file or removes more than a view has. The
  assertions of the code are not evaluated in a release build. An \<open>unordered_map\<close> is a map; its values
  are views of the file, kept here as the strings they show. The texts for the user are those of
  \<open>userspace/usbip/strings.cpp\<close>.
\<close>

type_synonym string_view = "string \<times> nat"

definition sv_str :: "string_view \<Rightarrow> string" where
  "sv_str s = take (snd s) (fst s)"

definition starts_with :: "string \<Rightarrow> string_view \<Rightarrow> bool" where
  "starts_with p s \<longleftrightarrow> length p \<le> snd s \<and> take (length p) (fst s) = p"

definition remove_prefix :: "nat \<Rightarrow> string_view \<Rightarrow> string_view option" where
  "remove_prefix n s = (if n \<le> snd s then Some (drop n (fst s), snd s - n) else None)"

section \<open>Numbers\<close>

definition hex_val :: "char \<Rightarrow> nat option" where
  "hex_val c =
     (let n = of_char c :: nat in
      if 48 \<le> n \<and> n \<le> 57 then Some (n - 48)
      else if 97 \<le> n \<and> n \<le> 102 then Some (n - 87)
      else if 65 \<le> n \<and> n \<le> 70 then Some (n - 55)
      else None)"

text \<open>\<open>std::from_chars\<close> with base 16: an optional minus and the longest run of digits in the range; the
  inner \<open>None\<close> is \<open>errc::invalid_argument\<close>. Four digits do not overflow.\<close>

fun hex_digits :: "nat \<Rightarrow> string \<Rightarrow> nat \<Rightarrow> nat \<Rightarrow> (nat \<times> nat) option" where
  "hex_digits 0 m cnt val = Some (cnt, val)"
| "hex_digits (Suc n) [] cnt val = None"
| "hex_digits (Suc n) (c # m) cnt val =
     (case hex_val c of
        None \<Rightarrow> Some (cnt, val)
      | Some d \<Rightarrow> hex_digits n m (Suc cnt) (16 * val + d))"

definition from_chars :: "string \<Rightarrow> nat \<Rightarrow> int option option" where
  "from_chars m n =
     (let minus = n \<noteq> 0 \<and> take 1 m = ''-'';
          digits = (if minus then hex_digits (n - 1) (drop 1 m) 0 0 else hex_digits n m 0 0) in
      map_option (\<lambda>(cnt, val). if cnt = 0 then None
                               else Some (if minus then - int val else int val)) digits)"

definition remove_prefix_hex :: "string_view \<Rightarrow> nat \<Rightarrow> (u16 \<times> string_view) option" where
  "remove_prefix_hex s cnt =
     (case from_chars (fst s) cnt of
        None \<Rightarrow> None
      | Some None \<Rightarrow> Some (0, s)
      | Some (Some val) \<Rightarrow> map_option (Pair (word_of_int val)) (remove_prefix cnt s))"

section \<open>Lines\<close>

definition newline :: char where "newline = CHR 0x0A"

definition find_newline :: "string_view \<Rightarrow> nat option" where
  "find_newline s =
     (let pos = length (takeWhile (\<lambda>c. c \<noteq> newline) (sv_str s)) in
      if pos < length (sv_str s) then Some pos else None)"

function for_each_line ::
  "(string_view \<Rightarrow> string_view \<Rightarrow> 's \<Rightarrow> (bool \<times> 's) option) \<Rightarrow> string_view \<Rightarrow> 's \<Rightarrow> 's option"
where
  "for_each_line f txt s =
     (if snd txt = 0 then Some s
      else case find_newline txt of
          None \<Rightarrow> map_option snd (f txt ([], 0) s)
        | Some pos \<Rightarrow>
            let line = (fst txt, pos);
                txt = (drop (pos + 1) (fst txt), snd txt - (pos + 1)) in
            if pos = 0 then for_each_line f txt s
            else case f line txt s of
                None \<Rightarrow> None
              | Some (stop, s) \<Rightarrow> if stop then Some s else for_each_line f txt s)"
  by pat_completeness auto
termination
  by (relation "measure (\<lambda>(f, txt, s). snd txt)") auto

declare for_each_line.simps [simp del]

section \<open>The database\<close>

type_synonym products_t = "u16 \<rightharpoonup> string"
type_synonym proto_t = "u8 \<rightharpoonup> string"
type_synonym subclass_t = "u8 \<rightharpoonup> string \<times> proto_t"

record usb_ids =
  m_vendor :: "u16 \<rightharpoonup> string \<times> products_t"
  m_class :: "u8 \<rightharpoonup> string \<times> subclass_t"

definition emplace :: "'k \<Rightarrow> 'v \<Rightarrow> ('k \<rightharpoonup> 'v) \<Rightarrow> ('k \<rightharpoonup> 'v)" where
  "emplace k v m = (if m k = None then m(k \<mapsto> v) else m)"

text \<open>\<open>m[k].second\<close> is replaced by \<open>g\<close> of it; a missing entry is created with an empty name.\<close>

definition at_second :: "'k \<Rightarrow> (('a \<rightharpoonup> 'b) \<Rightarrow> ('a \<rightharpoonup> 'b)) \<Rightarrow> ('k \<rightharpoonup> string \<times> ('a \<rightharpoonup> 'b)) \<Rightarrow> ('k \<rightharpoonup> string \<times> ('a \<rightharpoonup> 'b))"
where
  "at_second k g m =
     (case m k of
        None \<Rightarrow> m(k \<mapsto> ([], g Map.empty))
      | Some (name, sub) \<Rightarrow> m(k \<mapsto> (name, g sub)))"

definition classes_title :: string where
  "classes_title = ''# List of known device classes, subclasses and protocols''"

definition audio_title :: string where
  "audio_title = ''# List of Audio Class Terminal Types''"

definition tab :: string where "tab = [CHR 0x09]"

definition parse_class_sub_proto ::
  "string_view \<Rightarrow> string_view \<Rightarrow> usb_ids \<times> u8 \<times> u8 \<Rightarrow> (bool \<times> usb_ids \<times> u8 \<times> u8) option"
where
  "parse_class_sub_proto line tail st =
     (case st of (ids, cls, subcls) \<Rightarrow>
      if starts_with audio_title line then Some (True, st)
      else if starts_with ''#'' line then Some (False, st)
      else if starts_with (tab @ tab) line then do {
        line \<leftarrow> remove_prefix 2 line;
        (n, line) \<leftarrow> remove_prefix_hex line 2;
        let prot = (ucast n :: u8);
        if prot \<noteq> 0 then do {
          line \<leftarrow> remove_prefix 2 line;
          Some (False, ids\<lparr>m_class := at_second cls
            (at_second subcls (emplace prot (sv_str line))) (m_class ids)\<rparr>, cls, subcls)
        } else Some (False, st)
      }
      else if starts_with tab line then do {
        line \<leftarrow> remove_prefix 1 line;
        (n, line) \<leftarrow> remove_prefix_hex line 2;
        let subcls = (ucast n :: u8);
        if subcls \<noteq> 0 then do {
          line \<leftarrow> remove_prefix 2 line;
          Some (False, ids\<lparr>m_class := at_second cls
            (emplace subcls (sv_str line, Map.empty)) (m_class ids)\<rparr>, cls, subcls)
        } else Some (False, ids, cls, subcls)
      }
      else if starts_with ''C '' line then do {
        line \<leftarrow> remove_prefix 2 line;
        (n, line) \<leftarrow> remove_prefix_hex line 2;
        let cls = (ucast n :: u8);
        line \<leftarrow> remove_prefix 2 line;
        Some (False, ids\<lparr>m_class := emplace cls (sv_str line, Map.empty) (m_class ids)\<rparr>, cls, subcls)
      }
      else Some (False, st))"

definition parse_vid_pid ::
  "string_view \<Rightarrow> string_view \<Rightarrow> usb_ids \<times> u16 \<times> u16 \<Rightarrow> (bool \<times> usb_ids \<times> u16 \<times> u16) option"
where
  "parse_vid_pid line tail st =
     (case st of (ids, vid, pid) \<Rightarrow>
      if starts_with classes_title line then do {
        (ids, cls, subcls) \<leftarrow> for_each_line parse_class_sub_proto tail (ids, 0, 0);
        Some (True, ids, vid, pid)
      }
      else if starts_with ''#'' line then Some (False, st)
      else if starts_with (tab @ tab) line then Some (False, st)
      else if starts_with tab line then do {
        line \<leftarrow> remove_prefix 1 line;
        (pid, line) \<leftarrow> remove_prefix_hex line 4;
        if pid \<noteq> 0 then do {
          line \<leftarrow> remove_prefix 2 line;
          Some (False, ids\<lparr>m_vendor := at_second vid (emplace pid (sv_str line)) (m_vendor ids)\<rparr>, vid, pid)
        } else Some (False, ids, vid, pid)
      }
      else do {
        (vid, line) \<leftarrow> remove_prefix_hex line 4;
        if vid \<noteq> 0 then do {
          line \<leftarrow> remove_prefix 2 line;
          Some (False, ids\<lparr>m_vendor := emplace vid (sv_str line, Map.empty) (m_vendor ids)\<rparr>, vid, pid)
        } else Some (False, ids, vid, pid)
      })"

definition load_ids :: "string \<Rightarrow> usb_ids \<Rightarrow> usb_ids option" where
  "load_ids content ids =
     map_option fst (for_each_line parse_vid_pid (content, length content) (ids, 0, 0))"

definition new_usb_ids :: "string \<Rightarrow> usb_ids option" where
  "new_usb_ids content = load_ids content \<lparr>m_vendor = Map.empty, m_class = Map.empty\<rparr>"

definition find_product :: "usb_ids \<Rightarrow> u16 \<Rightarrow> u16 \<Rightarrow> string \<times> string" where
  "find_product ids vid pid =
     (case m_vendor ids vid of
        None \<Rightarrow> ([], [])
      | Some (name, products) \<Rightarrow> (name, case products pid of None \<Rightarrow> [] | Some p \<Rightarrow> p))"

definition find_class_subclass_proto :: "usb_ids \<Rightarrow> u8 \<Rightarrow> u8 \<Rightarrow> u8 \<Rightarrow> string \<times> string \<times> string" where
  "find_class_subclass_proto ids class_id subclass_id prot_id =
     (case m_class ids class_id of
        None \<Rightarrow> ([], [], [])
      | Some (name, subcls) \<Rightarrow>
          (case subcls subclass_id of
             None \<Rightarrow> (name, [], [])
           | Some (sub_name, prot) \<Rightarrow> (name, sub_name, case prot prot_id of None \<Rightarrow> [] | Some p \<Rightarrow> p)))"

section \<open>The format of the file\<close>

text \<open>A file in the format that its own comments describe: lines of the part with vendors, the title of
  the part with classes, its lines, the title of the next part, and anything after it.\<close>

datatype vendor_line = VBlank | VComment string | Vendor u16 string | Product u16 string

datatype class_line = CBlank | CComment string | Class u8 string | Subclass u8 string | Protocol u8 string

definition hex_char :: "nat \<Rightarrow> char" where
  "hex_char d = char_of (if d < 10 then 48 + d else 87 + d)"

definition hex2 :: "u8 \<Rightarrow> string" where
  "hex2 w = [hex_char (unat w div 16), hex_char (unat w mod 16)]"

definition hex4 :: "u16 \<Rightarrow> string" where
  "hex4 w = [hex_char (unat w div 4096), hex_char (unat w div 256 mod 16),
     hex_char (unat w div 16 mod 16), hex_char (unat w mod 16)]"

fun vendor_text :: "vendor_line \<Rightarrow> string" where
  "vendor_text VBlank = []"
| "vendor_text (VComment c) = ''#'' @ c"
| "vendor_text (Vendor v name) = hex4 v @ ''  '' @ name"
| "vendor_text (Product p name) = tab @ hex4 p @ ''  '' @ name"

fun class_text :: "class_line \<Rightarrow> string" where
  "class_text CBlank = []"
| "class_text (CComment c) = ''#'' @ c"
| "class_text (Class c name) = ''C '' @ hex2 c @ ''  '' @ name"
| "class_text (Subclass s name) = tab @ hex2 s @ ''  '' @ name"
| "class_text (Protocol p name) = tab @ tab @ hex2 p @ ''  '' @ name"

definition lines_text :: "('l \<Rightarrow> string) \<Rightarrow> 'l list \<Rightarrow> string" where
  "lines_text txt ls = concat (map (\<lambda>l. txt l @ [newline]) ls)"

definition ids_text :: "vendor_line list \<Rightarrow> class_line list \<Rightarrow> string \<Rightarrow> string" where
  "ids_text vs cs rest =
     lines_text vendor_text vs @ classes_title @ [newline] @
     lines_text class_text cs @ audio_title @ [newline] @ rest"

fun vendor_line_ok :: "vendor_line \<Rightarrow> bool" where
  "vendor_line_ok VBlank = True"
| "vendor_line_ok (VComment c) = (newline \<notin> set c \<and> take (length classes_title - 1) c \<noteq> drop 1 classes_title)"
| "vendor_line_ok (Vendor v name) = (newline \<notin> set name)"
| "vendor_line_ok (Product p name) = (newline \<notin> set name)"

fun class_line_ok :: "class_line \<Rightarrow> bool" where
  "class_line_ok CBlank = True"
| "class_line_ok (CComment c) = (newline \<notin> set c \<and> take (length audio_title - 1) c \<noteq> drop 1 audio_title)"
| "class_line_ok (Class c name) = (newline \<notin> set name)"
| "class_line_ok (Subclass s name) = (newline \<notin> set name)"
| "class_line_ok (Protocol p name) = (newline \<notin> set name)"

text \<open>Subclasses follow a class, and protocols follow a subclass of the same class.\<close>

fun classes_nested :: "bool \<Rightarrow> bool \<Rightarrow> class_line list \<Rightarrow> bool" where
  "classes_nested c s [] = True"
| "classes_nested c s (CBlank # ls) = classes_nested c s ls"
| "classes_nested c s (CComment x # ls) = classes_nested c s ls"
| "classes_nested c s (Class k n # ls) = classes_nested True False ls"
| "classes_nested c s (Subclass k n # ls) = (c \<and> classes_nested c True ls)"
| "classes_nested c s (Protocol k n # ls) = (s \<and> classes_nested c s ls)"

text \<open>What the lines declare, in order. A product belongs to the last vendor before it.\<close>

fun vendors_of :: "vendor_line list \<Rightarrow> (u16 \<times> string) list" where
  "vendors_of [] = []"
| "vendors_of (Vendor v name # ls) = (v, name) # vendors_of ls"
| "vendors_of (_ # ls) = vendors_of ls"

fun products_of :: "u16 \<Rightarrow> vendor_line list \<Rightarrow> ((u16 \<times> u16) \<times> string) list" where
  "products_of v [] = []"
| "products_of v (Vendor w name # ls) = products_of w ls"
| "products_of v (Product p name # ls) = ((v, p), name) # products_of v ls"
| "products_of v (_ # ls) = products_of v ls"

fun classes_of :: "class_line list \<Rightarrow> (u8 \<times> string) list" where
  "classes_of [] = []"
| "classes_of (Class c name # ls) = (c, name) # classes_of ls"
| "classes_of (_ # ls) = classes_of ls"

fun subclasses_of :: "u8 \<Rightarrow> class_line list \<Rightarrow> ((u8 \<times> u8) \<times> string) list" where
  "subclasses_of c [] = []"
| "subclasses_of c (Class d name # ls) = subclasses_of d ls"
| "subclasses_of c (Subclass s name # ls) = ((c, s), name) # subclasses_of c ls"
| "subclasses_of c (_ # ls) = subclasses_of c ls"

fun protocols_of :: "u8 \<Rightarrow> u8 \<Rightarrow> class_line list \<Rightarrow> ((u8 \<times> u8 \<times> u8) \<times> string) list" where
  "protocols_of c s [] = []"
| "protocols_of c s (Class d name # ls) = protocols_of d s ls"
| "protocols_of c s (Subclass t name # ls) = protocols_of c t ls"
| "protocols_of c s (Protocol p name # ls) = ((c, s, p), name) # protocols_of c s ls"
| "protocols_of c s (_ # ls) = protocols_of c s ls"

definition name_of :: "('k \<times> string) list \<Rightarrow> 'k \<Rightarrow> string" where
  "name_of ds k = (case map_of ds k of None \<Rightarrow> [] | Some n \<Rightarrow> n)"

section \<open>Texts for the user\<close>

text \<open>\<open>userspace/usbip/strings.cpp\<close>. The formats \<open>{:02x}\<close> and \<open>{:04x}\<close> of numbers of 8 and 16 bits are
  \<^const>\<open>hex2\<close> and \<^const>\<open>hex4\<close>.\<close>

definition or_default :: "string \<Rightarrow> string \<Rightarrow> string" where
  "or_default name dflt = (if name = [] then dflt else name)"

definition get_product :: "usb_ids \<Rightarrow> u16 \<Rightarrow> u16 \<Rightarrow> string" where
  "get_product ids vendor product =
     (case find_product ids vendor product of (vend, name) \<Rightarrow>
        or_default vend ''unknown vendor'' @ '' : '' @ or_default name ''unknown product'' @
        '' ('' @ hex4 vendor @ '':'' @ hex4 product @ '')'')"

definition get_class :: "usb_ids \<Rightarrow> u8 \<Rightarrow> u8 \<Rightarrow> u8 \<Rightarrow> string" where
  "get_class ids cls subcls prot =
     (if \<not> (cls \<noteq> 0 \<and> subcls \<noteq> 0 \<and> prot \<noteq> 0) then ''(Defined at Interface level) (00/00/00)''
      else case find_class_subclass_proto ids cls subcls prot of (c, s, p) \<Rightarrow>
        or_default c ''?'' @ ''/'' @ or_default s ''?'' @ ''/'' @ or_default p ''?'' @
        '' ('' @ hex2 cls @ ''/'' @ hex2 subcls @ ''/'' @ hex2 prot @ '')'')"

definition get_speed_str :: "int \<Rightarrow> string" where
  "get_speed_str speed =
     (let names = [''Low Speed(1.5Mbps)'', ''Full Speed(12Mbps)'', ''High Speed(480Mbps)'', ''Super Speed(5000Mbps)''] in
      if 0 \<le> speed \<and> speed < int (length names) then names ! nat speed else ''Unknown Speed'')"

section \<open>Reading of lines\<close>

lemma hex_char_bounds:
  assumes "d < 16"
  shows "of_char (hex_char d) = (if d < 10 then 48 + d else 87 + d)"
  using assms by (simp add: hex_char_def)

lemma hex_val_hex_char [simp]: "d < 16 \<Longrightarrow> hex_val (hex_char d) = Some d"
  by (simp add: hex_val_def hex_char_bounds Let_def)

lemma hex_char_other:
  assumes "d < 16" "of_char c < (48 :: nat) \<or> of_char c = (67 :: nat)"
  shows "hex_char d \<noteq> c"
  using assms hex_char_bounds [of d] by (auto split: if_splits)

lemma hex_char_no_newline [simp]: "d < 16 \<Longrightarrow> hex_char d \<noteq> newline" "d < 16 \<Longrightarrow> newline \<noteq> hex_char d"
  using hex_char_other [of d newline] by (auto simp: newline_def)

lemma hex_char_no_mark [simp]:
  "d < 16 \<Longrightarrow> hex_char d \<noteq> CHR ''#''" "d < 16 \<Longrightarrow> hex_char d \<noteq> CHR ''-''" "d < 16 \<Longrightarrow> hex_char d \<noteq> CHR 0x09"
  by (simp_all add: hex_char_other)

lemma nibbles:
  "unat (w :: u16) div 4096 < 16" "unat (v :: u8) div 16 < 16"
  by (rule less_mult_imp_div_less, use unsigned_less [of w, where 'a = nat] unsigned_less [of v, where 'a = nat] in simp)+

lemma hex4_value: "(((unat w div 4096) * 16 + unat w div 256 mod 16) * 16 + unat w div 16 mod 16) * 16 + unat w mod 16 = unat (w :: u16)"
proof -
  have "x = (((x div 4096) * 16 + x div 256 mod 16) * 16 + x div 16 mod 16) * 16 + x mod 16" for x :: nat
  proof -
    have "x div 4096 = x div 16 div 16 div 16" "x div 256 = x div 16 div 16"
      by (simp_all add: div_mult2_eq [symmetric])
    then show ?thesis by presburger
  qed
  then show ?thesis by simp
qed

lemma hex_digits_map:
  "\<forall>d \<in> set ds. d < 16 \<Longrightarrow>
     hex_digits (length ds) (map hex_char ds @ m) cnt val = Some (cnt + length ds, foldl (\<lambda>v d. 16 * v + d) val ds)"
  by (induction ds arbitrary: cnt val) simp_all

lemma from_chars_map:
  assumes "\<forall>d \<in> set ds. d < 16" "ds \<noteq> []"
  shows "from_chars (map hex_char ds @ m) (length ds) = Some (Some (int (foldl (\<lambda>v d. 16 * v + d) 0 ds)))"
  using assms hex_digits_map [OF assms(1), of m 0 0]
  by (cases ds) (simp_all add: from_chars_def Let_def)

lemma from_chars_hex4 [simp]: "from_chars (hex4 w @ m) 4 = Some (Some (uint w))"
proof -
  let ?ds = "[unat w div 4096, unat w div 256 mod 16, unat w div 16 mod 16, unat w mod 16]"
  have "foldl (\<lambda>v d. 16 * v + d) 0 ?ds = unat w"
    using hex4_value [of w] by (simp add: algebra_simps)
  then have "from_chars (map hex_char ?ds @ m) (length ?ds) = Some (Some (int (unat w)))"
    using from_chars_map [of ?ds m] nibbles(1) [of w] by (simp del: length_Cons list.map append_Cons foldl_Cons)
  moreover have four: "(4 :: nat) = Suc (Suc (Suc (Suc 0)))" by simp
  ultimately show ?thesis unfolding hex4_def four by simp
qed

lemma from_chars_hex2 [simp]: "from_chars (hex2 w @ m) 2 = Some (Some (uint w))"
proof -
  let ?ds = "[unat w div 16, unat w mod 16]"
  have "foldl (\<lambda>v d. 16 * v + d) 0 ?ds = unat w" by simp
  then have "from_chars (map hex_char ?ds @ m) (length ?ds) = Some (Some (int (unat w)))"
    using from_chars_map [of ?ds m] nibbles(2) [of w] by (simp del: length_Cons list.map append_Cons foldl_Cons)
  then show ?thesis by (simp add: hex2_def numeral_2_eq_2)
qed

lemma length_hex [simp]: "length (hex2 v) = 2" "length (hex4 w) = 4"
  by (simp_all add: hex2_def hex4_def)

lemma remove_prefix_app [simp]:
  "remove_prefix n (m, k) = (if n \<le> k then Some (drop n m, k - n) else None)"
  by (simp add: remove_prefix_def)

lemma remove_hex4 [simp]: "4 \<le> k \<Longrightarrow> remove_prefix_hex (hex4 w @ m, k) 4 = Some (w, m, k - 4)"
  by (simp add: remove_prefix_hex_def)

lemma remove_hex2 [simp]: "2 \<le> k \<Longrightarrow> remove_prefix_hex (hex2 w @ m, k) 2 = Some (ucast w, m, k - 2)"
  by (simp add: remove_prefix_hex_def word_uint_eq_iff uint_word_of_int unsigned_ucast_eq take_bit_eq_mod)

lemma no_newline_in_hex [simp]: "newline \<notin> set (hex2 v)" "newline \<notin> set (hex4 w)"
  using nibbles by (auto simp: hex2_def hex4_def)

lemma find_newline_line:
  assumes "newline \<notin> set l"
  shows "find_newline (l @ newline # m, Suc (length l + k)) = Some (length l)"
proof -
  have "takeWhile (\<lambda>c. c \<noteq> newline) (l @ newline # take k m) = l"
    using assms by (subst takeWhile_append2) auto
  then show ?thesis by (simp add: find_newline_def sv_str_def Let_def)
qed

lemma for_each_line_line:
  assumes "newline \<notin> set l"
  shows "for_each_line f (l @ newline # m, Suc (length l + k)) s =
     (if l = [] then for_each_line f (m, k) s
      else case f (l @ newline # m, length l) (m, k) s of
          None \<Rightarrow> None
        | Some (stop, s) \<Rightarrow> if stop then Some s else for_each_line f (m, k) s)"
  by (subst for_each_line.simps) (simp add: find_newline_line [OF assms] Let_def)


section \<open>What the parser makes of a line\<close>

type_synonym vendor_state = "usb_ids \<times> u16 \<times> u16"
type_synonym class_state = "usb_ids \<times> u8 \<times> u8"

fun vendor_step :: "vendor_line \<Rightarrow> vendor_state \<Rightarrow> vendor_state" where
  "vendor_step (Vendor v name) (ids, vid, pid) =
     (if v = 0 then ids else ids\<lparr>m_vendor := emplace v (name, Map.empty) (m_vendor ids)\<rparr>, v, pid)"
| "vendor_step (Product p name) (ids, vid, pid) =
     (if p = 0 then ids else ids\<lparr>m_vendor := at_second vid (emplace p name) (m_vendor ids)\<rparr>, vid, p)"
| "vendor_step _ st = st"

fun class_step :: "class_line \<Rightarrow> class_state \<Rightarrow> class_state" where
  "class_step (Class c name) (ids, cls, subcls) =
     (ids\<lparr>m_class := emplace c (name, Map.empty) (m_class ids)\<rparr>, c, subcls)"
| "class_step (Subclass s name) (ids, cls, subcls) =
     (if s = 0 then ids else ids\<lparr>m_class := at_second cls (emplace s (name, Map.empty)) (m_class ids)\<rparr>, cls, s)"
| "class_step (Protocol p name) (ids, cls, subcls) =
     (if p = 0 then ids
      else ids\<lparr>m_class := at_second cls (at_second subcls (emplace p name)) (m_class ids)\<rparr>, cls, subcls)"
| "class_step _ st = st"

lemma starts_with_app:
  "starts_with p (l @ m, length l) \<longleftrightarrow> take (length p) l = p"
proof
  assume "take (length p) l = p"
  moreover from this have "length p \<le> length l" by (metis length_take min.cobounded1)
  ultimately show "starts_with p (l @ m, length l)" by (simp add: starts_with_def)
qed (auto simp: starts_with_def)

lemma starts_with_comment:
  "starts_with (CHR ''#'' # t) (CHR ''#'' # c @ m, Suc (length c)) \<longleftrightarrow> take (length t) c = t"
  using starts_with_app [of "CHR ''#'' # t" "CHR ''#'' # c" m] by simp

lemma first_char:
  "starts_with (c # p) s \<Longrightarrow> snd s \<noteq> 0 \<and> fst s \<noteq> [] \<and> hd (fst s) = c"
  by (cases "fst s") (auto simp: starts_with_def)

lemma hex_not_mark:
  assumes "of_char c < (48 :: nat) \<or> of_char c = (67 :: nat)"
  shows "\<not> starts_with (c # p) (hex4 w @ m, k)" "\<not> starts_with (c # p) (hex2 v @ m, k)"
  using first_char [of c p] hex_char_other [OF nibbles(1) assms] hex_char_other [OF nibbles(2) assms]
  by (fastforce simp: hex4_def hex2_def)+

lemma hex_not_tab [simp]: "take (Suc 0) (hex4 w) \<noteq> [CHR 0x09]" "take (Suc 0) (hex2 v) \<noteq> [CHR 0x09]"
  using nibbles by (simp_all add: hex4_def hex2_def)

lemma ucast_back [simp]: "ucast (ucast (v :: u8) :: u16) = v"
  by (rule bit_word_eqI) (simp add: bit_simps)

lemma titles:
  obtains t u where "classes_title = CHR ''#'' # t" "audio_title = CHR ''#'' # u"
  by (simp add: classes_title_def audio_title_def)

lemma parse_vendor_line:
  assumes "vendor_line_ok l" "vendor_text l \<noteq> []"
  shows "parse_vid_pid (vendor_text l @ m, length (vendor_text l)) tail st = Some (False, vendor_step l st)"
proof (cases st)
  case (fields ids vid pid)
  obtain t where t: "classes_title = CHR ''#'' # t" by (rule titles)
  show ?thesis
  proof (cases l)
    case (VComment c)
    then show ?thesis
      using assms starts_with_comment [of t c m] starts_with_comment [of "[]" c m]
      by (simp add: parse_vid_pid_def fields t)
  next
    case (Vendor v name)
    then show ?thesis
      using hex_not_mark(1) [of "CHR ''#''" _ v] hex_not_mark(1) [of "CHR 0x09" _ v]
      by (simp add: parse_vid_pid_def fields tab_def sv_str_def t)
  next
    case (Product p name)
    then show ?thesis
      by (simp add: parse_vid_pid_def fields tab_def sv_str_def t starts_with_def)
  qed (use assms in simp)
qed

lemma parse_class_line:
  assumes "class_line_ok l" "class_text l \<noteq> []"
  shows "parse_class_sub_proto (class_text l @ m, length (class_text l)) tail st = Some (False, class_step l st)"
proof (cases st)
  case (fields ids cls subcls)
  obtain t where t: "audio_title = CHR ''#'' # t" by (rule titles)
  show ?thesis
  proof (cases l)
    case (CComment c)
    then show ?thesis
      using assms starts_with_comment [of t c m] starts_with_comment [of "[]" c m]
      by (simp add: parse_class_sub_proto_def fields t)
  next
    case (Class c name)
    then show ?thesis
      by (simp add: parse_class_sub_proto_def fields tab_def sv_str_def t starts_with_def Let_def)
  next
    case (Subclass s name)
    then show ?thesis
      by (simp add: parse_class_sub_proto_def fields tab_def sv_str_def t starts_with_def Let_def)
  next
    case (Protocol p name)
    then show ?thesis
      by (simp add: parse_class_sub_proto_def fields tab_def sv_str_def t starts_with_def Let_def)
  qed (use assms in simp)
qed

lemma for_each_line_lines:
  assumes "\<And>l m tail st. l \<in> set ls \<Longrightarrow> txt l \<noteq> [] \<Longrightarrow>
      f (txt l @ m, length (txt l)) tail st = Some (False, step l st)"
    "\<And>l st. l \<in> set ls \<Longrightarrow> txt l = [] \<Longrightarrow> step l st = st"
    "\<And>l. l \<in> set ls \<Longrightarrow> newline \<notin> set (txt l)"
  shows "for_each_line f (lines_text txt ls @ m, length (lines_text txt ls @ m)) st =
     for_each_line f (m, length m) (fold step ls st)"
  using assms
proof (induction ls arbitrary: st)
  case (Cons l ls)
  let ?rest = "lines_text txt ls @ m"
  have "lines_text txt (l # ls) @ m = txt l @ newline # ?rest" by (simp add: lines_text_def)
  then show ?case
    using Cons for_each_line_line [of "txt l" f ?rest "length ?rest" st] by simp
qed (simp add: lines_text_def)

section \<open>Names in the maps\<close>

definition entry_name :: "('k \<rightharpoonup> string \<times> 'm) \<Rightarrow> 'k \<rightharpoonup> string" where
  "entry_name m k = map_option fst (m k)"

definition sub_entry :: "('k \<rightharpoonup> string \<times> ('a \<rightharpoonup> 'b)) \<Rightarrow> 'k \<Rightarrow> 'a \<rightharpoonup> 'b" where
  "sub_entry m k = (case m k of None \<Rightarrow> Map.empty | Some (_, sub) \<Rightarrow> sub)"

definition or_empty :: "string option \<Rightarrow> string" where
  "or_empty x = (case x of None \<Rightarrow> [] | Some n \<Rightarrow> n)"

lemma entry_name_simps [simp]:
  "entry_name (emplace k (n, sub) m) j = (if j = k \<and> entry_name m k = None then Some n else entry_name m j)"
  "entry_name (at_second k g m') j = (if j = k \<and> entry_name m' k = None then Some [] else entry_name m' j)"
  by (auto simp: entry_name_def emplace_def at_second_def split: option.splits)

lemma sub_entry_simps [simp]:
  "sub_entry (emplace k (n, Map.empty) m) = sub_entry m"
  "sub_entry (at_second k g m) j = (if j = k then g (sub_entry m k) else sub_entry m j)"
  by (auto simp: sub_entry_def emplace_def at_second_def fun_eq_iff split: option.splits)

lemma emplace_apply [simp]:
  "emplace k v m k = Some (case m k of None \<Rightarrow> v | Some w \<Rightarrow> w)"
  "j \<noteq> k \<Longrightarrow> emplace k v m j = m j"
  by (simp_all add: emplace_def split: option.splits)

lemma find_product_names:
  "find_product ids v p = (or_empty (entry_name (m_vendor ids) v), or_empty (sub_entry (m_vendor ids) v p))"
  by (auto simp: find_product_def entry_name_def sub_entry_def or_empty_def split: option.splits)

lemma find_class_names:
  "find_class_subclass_proto ids c s p =
     (or_empty (entry_name (m_class ids) c), or_empty (entry_name (sub_entry (m_class ids) c) s),
      or_empty (sub_entry (sub_entry (m_class ids) c) s p))"
  by (auto simp: find_class_subclass_proto_def entry_name_def sub_entry_def or_empty_def split: option.splits)

text \<open>The vendor that products are added to exists, unless its number is zero.\<close>

definition vendor_open :: "vendor_state \<Rightarrow> bool" where
  "vendor_open st = (case st of (ids, vid, pid) \<Rightarrow>
     (vid \<noteq> 0 \<longrightarrow> entry_name (m_vendor ids) vid \<noteq> None) \<and> entry_name (m_vendor ids) 0 \<in> {None, Some []})"

lemma vendor_open_step: "vendor_open st \<Longrightarrow> vendor_open (vendor_step l st)"
  by (cases "(l, st)" rule: vendor_step.cases) (auto simp: vendor_open_def)

lemma vendor_step_name:
  assumes "vendor_open st" "v \<noteq> 0"
  shows "entry_name (m_vendor (fst (vendor_step l st))) v =
    (case entry_name (m_vendor (fst st)) v of None \<Rightarrow> map_of (vendors_of [l]) v | Some n \<Rightarrow> Some n)"
  using assms
  by (cases "(l, st)" rule: vendor_step.cases) (auto simp: vendor_open_def split: option.splits)

lemma vendors_of_Cons: "vendors_of (l # ls) = vendors_of [l] @ vendors_of ls"
  by (cases l) simp_all

lemma vendor_names:
  assumes "vendor_open st" "v \<noteq> 0"
  shows "entry_name (m_vendor (fst (fold vendor_step ls st))) v =
    (case entry_name (m_vendor (fst st)) v of None \<Rightarrow> map_of (vendors_of ls) v | Some n \<Rightarrow> Some n)"
  using assms
proof (induction ls arbitrary: st)
  case (Cons l ls)
  show ?case
    using Cons.IH [OF vendor_open_step [OF Cons.prems(1)] Cons.prems(2), of l] vendor_step_name [OF Cons.prems, of l]
    by (simp add: vendors_of_Cons [of l ls] map_add_def del: vendors_of.simps split: option.splits)
qed (simp split: option.splits)

lemma product_step_name:
  assumes "p \<noteq> 0"
  shows "sub_entry (m_vendor (fst (vendor_step l st))) v p =
    (case sub_entry (m_vendor (fst st)) v p of
       None \<Rightarrow> map_of (products_of (fst (snd st)) [l]) (v, p) | Some n \<Rightarrow> Some n)"
  using assms
  by (cases "(l, st)" rule: vendor_step.cases) (auto split: option.splits)

lemma products_of_Cons:
  "products_of (fst (snd st)) (l # ls) = products_of (fst (snd st)) [l] @ products_of (fst (snd (vendor_step l st))) ls"
  by (cases "(l, st)" rule: vendor_step.cases) simp_all

lemma product_names:
  assumes "p \<noteq> 0"
  shows "sub_entry (m_vendor (fst (fold vendor_step ls st))) v p =
    (case sub_entry (m_vendor (fst st)) v p of
       None \<Rightarrow> map_of (products_of (fst (snd st)) ls) (v, p) | Some n \<Rightarrow> Some n)"
proof (induction ls arbitrary: st)
  case (Cons l ls)
  show ?case
    using Cons.IH [of "vendor_step l st"] product_step_name [OF assms, of l st v]
    by (simp add: products_of_Cons [of st l ls] map_add_def del: products_of.simps split: option.splits)
qed (simp split: option.splits)

lemma product_zero_step: "sub_entry (m_vendor (fst (vendor_step l st))) v 0 = sub_entry (m_vendor (fst st)) v 0"
  by (cases "(l, st)" rule: vendor_step.cases) auto

lemma product_zero: "sub_entry (m_vendor (fst (fold vendor_step ls st))) v 0 = sub_entry (m_vendor (fst st)) v 0"
  by (induction ls arbitrary: st) (simp_all add: product_zero_step)

lemma vendor_steps_open: "vendor_open st \<Longrightarrow> vendor_open (fold vendor_step ls st)"
  by (induction ls arbitrary: st) (simp_all add: vendor_open_step)

lemma vendor_step_class: "m_class (fst (vendor_step l st)) = m_class (fst st)"
  by (cases "(l, st)" rule: vendor_step.cases) auto

lemma vendor_steps_class: "m_class (fst (fold vendor_step ls st)) = m_class (fst st)"
  by (induction ls arbitrary: st) (simp_all add: vendor_step_class)


text \<open>The class that subclasses are added to exists, and so does the subclass that protocols are added
  to, unless its number is zero. The flags are those of \<^const>\<open>classes_nested\<close>.\<close>

abbreviation class_subs :: "usb_ids \<Rightarrow> u8 \<Rightarrow> subclass_t" where
  "class_subs ids \<equiv> sub_entry (m_class ids)"

definition class_open :: "bool \<Rightarrow> bool \<Rightarrow> class_state \<Rightarrow> bool" where
  "class_open c s st = (case st of (ids, cls, subcls) \<Rightarrow>
     (c \<longrightarrow> entry_name (m_class ids) cls \<noteq> None) \<and> (s \<longrightarrow> c) \<and>
     (s \<and> subcls \<noteq> 0 \<longrightarrow> entry_name (class_subs ids cls) subcls \<noteq> None) \<and>
     (\<forall>k. entry_name (class_subs ids k) 0 \<in> {None, Some []}))"

fun nest_flags :: "class_line \<Rightarrow> bool \<times> bool \<Rightarrow> bool \<times> bool" where
  "nest_flags (Class k n) (c, s) = (True, False)"
| "nest_flags (Subclass k n) (c, s) = (c, True)"
| "nest_flags _ (c, s) = (c, s)"

lemma classes_nested_Cons:
  "classes_nested c s (l # ls) \<longleftrightarrow> classes_nested c s [l] \<and> case_prod classes_nested (nest_flags l (c, s)) ls"
  by (cases l) auto

lemma class_open_step:
  assumes "class_open c s st" "classes_nested c s [l]"
  shows "case_prod class_open (nest_flags l (c, s)) (class_step l st)"
  using assms by (cases "(l, st)" rule: class_step.cases) (auto simp: class_open_def)

lemma class_step_names:
  assumes "class_open c s st" "classes_nested c s [l]"
  shows "entry_name (m_class (fst (class_step l st))) k =
      (case entry_name (m_class (fst st)) k of None \<Rightarrow> map_of (classes_of [l]) k | Some n \<Rightarrow> Some n)"
    "j \<noteq> 0 \<Longrightarrow> entry_name (class_subs (fst (class_step l st)) k) j =
      (case entry_name (class_subs (fst st) k) j of
         None \<Rightarrow> map_of (subclasses_of (fst (snd st)) [l]) (k, j) | Some n \<Rightarrow> Some n)"
    "p \<noteq> 0 \<Longrightarrow> sub_entry (class_subs (fst (class_step l st)) k) j p =
      (case sub_entry (class_subs (fst st) k) j p of
         None \<Rightarrow> map_of (protocols_of (fst (snd st)) (snd (snd st)) [l]) (k, j, p) | Some n \<Rightarrow> Some n)"
    "sub_entry (class_subs (fst (class_step l st)) k) j 0 = sub_entry (class_subs (fst st) k) j 0"
  using assms
  by (cases "(l, st)" rule: class_step.cases; auto simp: class_open_def split: option.splits)+

lemma classes_of_Cons:
  "classes_of (l # ls) = classes_of [l] @ classes_of ls"
  "subclasses_of (fst (snd st)) (l # ls) = subclasses_of (fst (snd st)) [l] @ subclasses_of (fst (snd (class_step l st))) ls"
  "protocols_of (fst (snd st)) (snd (snd st)) (l # ls) = protocols_of (fst (snd st)) (snd (snd st)) [l] @
     protocols_of (fst (snd (class_step l st))) (snd (snd (class_step l st))) ls"
  by (cases "(l, st)" rule: class_step.cases; simp)+

lemma class_names:
  assumes "class_open c s st" "classes_nested c s ls"
  shows "(\<exists>c' s'. class_open c' s' (fold class_step ls st)) \<and>
    (\<forall>k. entry_name (m_class (fst (fold class_step ls st))) k =
      (case entry_name (m_class (fst st)) k of None \<Rightarrow> map_of (classes_of ls) k | Some n \<Rightarrow> Some n)) \<and>
    (\<forall>k j. j \<noteq> 0 \<longrightarrow> entry_name (class_subs (fst (fold class_step ls st)) k) j =
      (case entry_name (class_subs (fst st) k) j of
         None \<Rightarrow> map_of (subclasses_of (fst (snd st)) ls) (k, j) | Some n \<Rightarrow> Some n)) \<and>
    (\<forall>k j p. p \<noteq> 0 \<longrightarrow> sub_entry (class_subs (fst (fold class_step ls st)) k) j p =
      (case sub_entry (class_subs (fst st) k) j p of
         None \<Rightarrow> map_of (protocols_of (fst (snd st)) (snd (snd st)) ls) (k, j, p) | Some n \<Rightarrow> Some n)) \<and>
    (\<forall>k j. sub_entry (class_subs (fst (fold class_step ls st)) k) j 0 = sub_entry (class_subs (fst st) k) j 0)"
  (is "?opn ls st \<and> ?cls ls st \<and> ?sub ls st \<and> ?prot ls st \<and> ?zero ls st")
  using assms
proof (induction ls arbitrary: c s st)
  case (Cons l ls)
  obtain c' s' where f: "nest_flags l (c, s) = (c', s')" by fastforce
  have n: "classes_nested c s [l]" "classes_nested c' s' ls"
    using Cons.prems(2) f by (simp_all add: classes_nested_Cons [of c s l ls])
  have o: "class_open c' s' (class_step l st)" using class_open_step [OF Cons.prems(1) n(1)] f by simp
  note IH = Cons.IH [OF o n(2)]
  note step = class_step_names [OF Cons.prems(1) n(1)]
  note simps = classes_of_Cons(1) [of l ls] classes_of_Cons(2,3) [of st l ls] map_add_def
  show ?case
  proof (intro conjI)
    show "?opn (l # ls) st" "?zero (l # ls) st" using IH step(4) by auto
    show "?cls (l # ls) st"
      using IH step(1) by (simp add: simps del: classes_of.simps split: option.splits)
    show "?sub (l # ls) st"
      using IH step(2) by (simp add: simps del: subclasses_of.simps split: option.splits)
    show "?prot (l # ls) st"
      using IH step(3) by (simp add: simps del: protocols_of.simps split: option.splits)
  qed
qed (auto split: option.splits)

lemma class_steps_vendor: "m_vendor (fst (fold class_step ls st)) = m_vendor (fst st)"
proof (induction ls arbitrary: st)
  case (Cons l ls)
  have "m_vendor (fst (class_step l st)) = m_vendor (fst st)"
    by (cases "(l, st)" rule: class_step.cases) auto
  with Cons show ?case by simp
qed simp

section \<open>The database is the file\<close>

lemma line_no_newline:
  "vendor_line_ok l \<Longrightarrow> newline \<notin> set (vendor_text l)"
  "class_line_ok k \<Longrightarrow> newline \<notin> set (class_text k)"
  by (cases l; simp; simp add: newline_def tab_def) (cases k; simp; simp add: newline_def tab_def)

definition empty_ids :: usb_ids where
  "empty_ids = \<lparr>m_vendor = Map.empty, m_class = Map.empty\<rparr>"

lemma parse_classes:
  assumes "\<forall>l \<in> set cs. class_line_ok l"
  shows "for_each_line parse_class_sub_proto
      (lines_text class_text cs @ audio_title @ newline # m, length (lines_text class_text cs @ audio_title @ newline # m)) st =
    Some (fold class_step cs st)"
proof -
  have blank: "class_text l = [] \<Longrightarrow> class_step l st = st" for l st by (cases l) (simp_all add: tab_def hex2_def)
  have "parse_class_sub_proto (audio_title @ x, length audio_title) tail s = Some (True, s)" for x tail s
    using starts_with_app [of audio_title audio_title x] by (simp add: parse_class_sub_proto_def split: prod.splits)
  moreover have "newline \<notin> set audio_title" "audio_title \<noteq> []" by (simp_all add: audio_title_def newline_def)
  ultimately have "for_each_line parse_class_sub_proto (audio_title @ newline # m, length (audio_title @ newline # m)) s = Some s" for s
    using for_each_line_line [of audio_title parse_class_sub_proto m "length m" s] by simp
  then show ?thesis
    using assms by (subst for_each_line_lines [where step = class_step])
      (auto simp: parse_class_line line_no_newline blank)
qed

lemma parse_ids:
  assumes "\<forall>l \<in> set vs. vendor_line_ok l" "\<forall>l \<in> set cs. class_line_ok l"
  shows "new_usb_ids (ids_text vs cs m) =
    Some (fst (fold class_step cs (fst (fold vendor_step vs (empty_ids, 0, 0)), 0, 0)))"
proof -
  let ?tail = "lines_text class_text cs @ audio_title @ newline # m"
  have blank: "vendor_text l = [] \<Longrightarrow> vendor_step l st = st" for l st by (cases l) (simp_all add: tab_def hex4_def)
  have "parse_vid_pid (classes_title @ x, length classes_title) (?tail, length ?tail) s =
      Some (True, fst (fold class_step cs (fst s, 0, 0)), snd s)" for x s
    using starts_with_app [of classes_title classes_title x] parse_classes [OF assms(2), of m "(fst s, 0, 0)"]
    by (cases s) (simp add: parse_vid_pid_def case_prod_beta)
  moreover have "newline \<notin> set classes_title" "classes_title \<noteq> []" by (simp_all add: classes_title_def newline_def)
  ultimately have "for_each_line parse_vid_pid (classes_title @ newline # ?tail, length (classes_title @ newline # ?tail)) s =
      Some (fst (fold class_step cs (fst s, 0, 0)), snd s)" for s
    using for_each_line_line [of classes_title parse_vid_pid ?tail "length ?tail" s] by simp
  moreover have "ids_text vs cs m = lines_text vendor_text vs @ classes_title @ newline # ?tail" by (simp add: ids_text_def)
  ultimately show ?thesis
    using assms(1) for_each_line_lines [of vs vendor_text parse_vid_pid vendor_step "classes_title @ newline # ?tail" "(empty_ids, 0, 0)"]
    by (simp add: new_usb_ids_def load_ids_def parse_vendor_line line_no_newline blank empty_ids_def)
qed

text \<open>C27. The database is what the file says. For a file in its format the parser stays within it and
  succeeds, and the lookups find every vendor, product, class, subclass and protocol that is declared,
  under its numbers, with the name of the first declaration, and nothing else; but what is declared with
  number zero is lost, except for a class.\<close>

theorem usb_ids_lookup:
  assumes "\<forall>l \<in> set vs. vendor_line_ok l" "\<forall>l \<in> set cs. class_line_ok l" "classes_nested False False cs"
  shows "\<exists>ids. new_usb_ids (ids_text vs cs rest) = Some ids \<and>
    (\<forall>v p. find_product ids v p =
      (if v = 0 then [] else name_of (vendors_of vs) v,
       if p = 0 then [] else name_of (products_of 0 vs) (v, p))) \<and>
    (\<forall>c s p. find_class_subclass_proto ids c s p =
      (name_of (classes_of cs) c,
       if s = 0 then [] else name_of (subclasses_of 0 cs) (c, s),
       if p = 0 then [] else name_of (protocols_of 0 0 cs) (c, s, p)))"
proof -
  let ?v = "fold vendor_step vs (empty_ids, 0, 0)"
  let ?c = "fold class_step cs (fst ?v, 0, 0)"
  have e [simp]: "entry_name Map.empty = Map.empty" "sub_entry Map.empty = (\<lambda>k. Map.empty)"
    by (simp_all add: entry_name_def sub_entry_def fun_eq_iff)
  have vo: "vendor_open (empty_ids, 0, 0)" by (simp add: vendor_open_def empty_ids_def)
  have co: "class_open False False (fst ?v, 0, 0)"
    by (simp add: class_open_def vendor_steps_class) (simp add: empty_ids_def)
  have n: "name_of ds k = or_empty (map_of ds k)" for ds :: "('k \<times> string) list" and k
    by (simp add: name_of_def or_empty_def)
  have o: "or_empty None = []" "or_empty (Some []) = []" by (simp_all add: or_empty_def)
  have v0: "or_empty (entry_name (m_vendor (fst ?v)) 0) = []"
    using vendor_steps_open [OF vo, of vs] o by (auto simp: vendor_open_def split: prod.splits)
  have c0: "or_empty (entry_name (class_subs (fst ?c) k) 0) = []" for k
  proof -
    obtain c' s' where "class_open c' s' ?c" using class_names [OF co assms(3)] by blast
    then have "entry_name (class_subs (fst ?c) k) 0 \<in> {None, Some []}"
      by (simp only: class_open_def split: prod.splits) (metis fst_conv prod.collapse)
    with o show ?thesis by auto
  qed
  show ?thesis
    using class_names [OF co assms(3)]
    by (simp add: parse_ids [OF assms(1,2)] find_product_names find_class_names class_steps_vendor n v0 c0
        vendor_names [OF vo] product_names product_zero vendor_steps_class o)
      (simp add: empty_ids_def o)
qed

text \<open>A device of a class such as 03/00/00 is shown as one whose class is defined by its interfaces.\<close>

lemma get_class_zero_part: "subcls = 0 \<or> prot = 0 \<Longrightarrow> get_class ids cls subcls prot = get_class ids 0 0 0"
  by (auto simp: get_class_def)

definition sample_vendors :: "vendor_line list" where
  "sample_vendors = [VComment '' Vendors'', Vendor 0x056a ''Wacom'', Product 0 ''PenPartner'', Product 0x10 ''ET-0405'', VBlank]"

definition sample_classes :: "class_line list" where
  "sample_classes = [Class 0 ''Interface'', Class 3 ''HID'', Subclass 0 ''No Subclass'', Protocol 1 ''Keyboard'',
     Subclass 1 ''Boot'', Protocol 0 ''None'', Protocol 2 ''Mouse'']"

theorem usb_ids_lookup_witness:
  "\<exists>ids. new_usb_ids (ids_text sample_vendors sample_classes ''AT 0101'') = Some ids \<and>
    find_product ids 0x056a 0x10 = (''Wacom'', ''ET-0405'') \<and>
    find_product ids 0x056a 0 = (''Wacom'', []) \<and>
    find_class_subclass_proto ids 3 1 2 = (''HID'', ''Boot'', ''Mouse'') \<and>
    find_class_subclass_proto ids 3 0 1 = (''HID'', [], ''Keyboard'')"
proof -
  have "\<forall>l \<in> set sample_vendors. vendor_line_ok l" "\<forall>l \<in> set sample_classes. class_line_ok l"
    "classes_nested False False sample_classes"
    by (simp_all add: sample_vendors_def sample_classes_def newline_def classes_title_def)
  from usb_ids_lookup [OF this, of "''AT 0101''"] show ?thesis
    by (auto simp: sample_vendors_def sample_classes_def name_of_def)
qed

end
