(* ===== verification/Filter_Stack.thy ===== *)
theory Filter_Stack
  imports Prelude
begin

text \<open>
  The device objects of the upper filter driver (\<open>drivers/ude_filter/device.cpp\<close>, \<open>pnp.cpp\<close>,
  \<open>query_interface.cpp\<close>). The driver is an upper filter of USB hubs. Above the root hub of the virtual
  controller it attaches a filter device object (FiDO), which watches the list of children that the hub
  reports and attaches a FiDO to each new child.

  Device objects and pool memory have addresses. What the I/O manager knows (which object is attached to
  which), the open handles of USBD and the allocated copies of the list of children are kept beside the
  extensions of the objects, so that an object or a copy that is left behind is visible. The use of
  memory that does not exist, or of an interface that no driver has filled in, is \<open>None\<close>.
\<close>

record devobj_props =
  DeviceType :: u32
  Characteristics :: u32
  Flags :: u32

record filter_ext =
  fe_target :: "nat option"
  fe_pdo :: nat
  fe_is_hub :: bool
  fe_previous :: "nat option"
  fe_usbd_handle :: bool
  fe_props :: devobj_props

record filter_driver =
  fd_objects :: "nat \<rightharpoonup> filter_ext"
  fd_attached :: "nat \<rightharpoonup> nat"
  fd_handles :: "nat set"
  fd_pool :: "nat \<rightharpoonup> nat list"

definition no_devices :: filter_driver where
  "no_devices = \<lparr>fd_objects = Map.empty, fd_attached = Map.empty, fd_handles = {}, fd_pool = Map.empty\<rparr>"

section \<open>Creation and removal\<close>

text \<open>Freeing memory through a pointer, which may be null.\<close>

definition free_pool :: "nat option \<Rightarrow> filter_driver \<Rightarrow> filter_driver option" where
  "free_pool ptr d =
     (case ptr of
        None \<Rightarrow> Some d
      | Some a \<Rightarrow> if fd_pool d a = None then None else Some (d\<lparr>fd_pool := (fd_pool d)(a := None)\<rparr>))"

definition do_destroy :: "filter_ext \<Rightarrow> filter_driver \<Rightarrow> filter_driver option" where
  "do_destroy f d = (if fe_is_hub f then free_pool (fe_previous f) d else Some d)"

definition destroy :: "nat \<Rightarrow> filter_driver \<Rightarrow> filter_driver option" where
  "destroy fido d =
     (case fd_objects d fido of
        None \<Rightarrow> None
      | Some f \<Rightarrow>
          map_option (\<lambda>d. d\<lparr>fd_objects := (fd_objects d)(fido := None)\<rparr>)
            (do_destroy f
              (if fe_target f \<noteq> None then d\<lparr>fd_attached := (fd_attached d)(fido := None)\<rparr> else d)))"

abbreviation (input) DO_BUFFERED_IO :: u32 where "DO_BUFFERED_IO \<equiv> 0x4"
abbreviation (input) DO_DIRECT_IO :: u32 where "DO_DIRECT_IO \<equiv> 0x10"
abbreviation (input) DO_DEVICE_INITIALIZING :: u32 where "DO_DEVICE_INITIALIZING \<equiv> 0x80"
abbreviation (input) DO_POWER_PAGABLE :: u32 where "DO_POWER_PAGABLE \<equiv> 0x2000"
abbreviation (input) DO_POWER_INRUSH :: u32 where "DO_POWER_INRUSH \<equiv> 0x4000"
abbreviation (input) STATUS_NO_SUCH_DEVICE :: ntstatus where "STATUS_NO_SUCH_DEVICE \<equiv> NT_OTHER_ERROR 0xC000000E"

text \<open>The answers of Windows to one \<open>do_add_device\<close>: \<open>IoCreateDevice\<close> with the address of the new object
  and its properties, the object that \<open>IoAttachDeviceToDeviceStack\<close> attaches it to, with its properties,
  and \<open>USBD_CreateHandle\<close>.\<close>

record add_env =
  ae_create :: ntstatus
  ae_fido :: nat
  ae_props :: devobj_props
  ae_target :: "(nat \<times> devobj_props) option"
  ae_handle :: ntstatus

definition propagate :: "devobj_props \<Rightarrow> devobj_props \<Rightarrow> devobj_props" where
  "propagate target fido =
     \<lparr>DeviceType = DeviceType target, Characteristics = Characteristics target,
      Flags = Flags fido OR
        (Flags target AND (DO_BUFFERED_IO OR DO_DIRECT_IO OR DO_POWER_PAGABLE OR DO_POWER_INRUSH))\<rparr>"

definition do_add_device :: "add_env \<Rightarrow> nat \<Rightarrow> bool \<Rightarrow> filter_driver \<Rightarrow> (ntstatus \<times> filter_driver) option" where
  "do_add_device env pdo has_parent d =
     (if ae_create env \<noteq> STATUS_SUCCESS then Some (ae_create env, d)
      else
        let fido = ae_fido env;
            f = \<lparr>fe_target = map_option fst (ae_target env), fe_pdo = pdo, fe_is_hub = \<not> has_parent,
                 fe_previous = None, fe_usbd_handle = False, fe_props = ae_props env\<rparr>;
            d = d\<lparr>fd_objects := (fd_objects d)(fido \<mapsto> f),
                  fd_attached := (fd_attached d)(fido := map_option fst (ae_target env))\<rparr> in
        case ae_target env of
          None \<Rightarrow> map_option (Pair STATUS_NO_SUCH_DEVICE) (destroy fido d)
        | Some (target, props) \<Rightarrow>
            let f = f\<lparr>fe_props := propagate props (fe_props f)\<rparr>;
                d = d\<lparr>fd_objects := (fd_objects d)(fido \<mapsto> f)\<rparr> in
            if \<not> fe_is_hub f \<and> ae_handle env \<noteq> STATUS_SUCCESS
            then map_option (Pair (ae_handle env)) (destroy fido d)
            else
              let f = f\<lparr>fe_usbd_handle := \<not> fe_is_hub f,
                        fe_props := (fe_props f)\<lparr>Flags := Flags (fe_props f) AND NOT DO_DEVICE_INITIALIZING\<rparr>\<rparr> in
              Some (STATUS_SUCCESS,
                d\<lparr>fd_objects := (fd_objects d)(fido \<mapsto> f),
                  fd_handles := (if fe_is_hub f then fd_handles d else insert fido (fd_handles d))\<rparr>))"

text \<open>The name of the driver below is compared with that of the virtual controller. \<open>name\<close> is \<open>None\<close> if
  there is no memory for it or \<open>ObQueryNameString\<close> fails; \<open>equal_ci\<close> is \<open>RtlEqualUnicodeString\<close>.\<close>

definition driver_name_equal :: "(string \<Rightarrow> string \<Rightarrow> bool) \<Rightarrow> string option \<Rightarrow> string \<Rightarrow> bool" where
  "driver_name_equal equal_ci name expected = (case name of None \<Rightarrow> False | Some n \<Rightarrow> equal_ci n expected)"

definition is_abobe_vhci :: "(string \<Rightarrow> string \<Rightarrow> bool) \<Rightarrow> string option \<Rightarrow> bool" where
  "is_abobe_vhci equal_ci name = driver_name_equal equal_ci name
     ([CHR 0x5C] @ ''Driver'' @ [CHR 0x5C] @ ''usbip2_ude'')"

definition add_device ::
  "(string \<Rightarrow> string \<Rightarrow> bool) \<Rightarrow> string option \<Rightarrow> add_env \<Rightarrow> nat \<Rightarrow> filter_driver \<Rightarrow> (ntstatus \<times> filter_driver) option"
where
  "add_device equal_ci name env pdo d =
     (if \<not> is_abobe_vhci equal_ci name then Some (STATUS_SUCCESS, d)
      else map_option (\<lambda>(err, d). (STATUS_SUCCESS, d)) (do_add_device env pdo False d))"

section \<open>The children of the hub\<close>

text \<open>A reported list of children is their device objects, each with the answers of Windows if a FiDO is
  attached to it. \<open>alloc\<close> is the memory for the copy of the list.\<close>

type_synonym device_relations = "(nat \<times> add_env) list"

fun contains :: "nat list \<Rightarrow> nat \<Rightarrow> bool" where
  "contains [] obj = False"
| "contains (p # r) obj = (p = obj \<or> contains r obj)"

fun add_children :: "nat list \<Rightarrow> device_relations \<Rightarrow> filter_driver \<Rightarrow> filter_driver option" where
  "add_children previous [] d = Some d"
| "add_children previous ((pdo, env) # r) d =
     (if contains previous pdo then add_children previous r d
      else case do_add_device env pdo True d of
          None \<Rightarrow> None
        | Some (_, d) \<Rightarrow> add_children previous r d)"

definition upd_previous :: "nat \<Rightarrow> nat option \<Rightarrow> filter_driver \<Rightarrow> filter_driver" where
  "upd_previous fido ptr d =
     d\<lparr>fd_objects := (fd_objects d)(fido := map_option (\<lambda>f. f\<lparr>fe_previous := ptr\<rparr>) (fd_objects d fido))\<rparr>"

definition query_bus_relations :: "nat option \<Rightarrow> nat \<Rightarrow> device_relations \<Rightarrow> filter_driver \<Rightarrow> filter_driver option" where
  "query_bus_relations alloc fido r d =
     (case fd_objects d fido of
        None \<Rightarrow> None
      | Some f \<Rightarrow>
          (case (case fe_previous f of None \<Rightarrow> Some [] | Some a \<Rightarrow> fd_pool d a) of
             None \<Rightarrow> None
           | Some previous \<Rightarrow>
               (case add_children previous r d of
                  None \<Rightarrow> None
                | Some d \<Rightarrow>
                    if r = [] then free_pool (fe_previous f) (upd_previous fido None d)
                    else case alloc of
                        Some a \<Rightarrow> free_pool (fe_previous f)
                          (upd_previous fido (Some a) (d\<lparr>fd_pool := (fd_pool d)(a \<mapsto> map fst r)\<rparr>))
                      | None \<Rightarrow> Some d)))"

section \<open>PnP requests\<close>

text \<open>The interface \<open>USB_BUS_INTERFACE_USBDI\<close>: its version and two functions, each of the driver below,
  with what it returns, or of this driver.\<close>

datatype bus_time = Lower ntstatus | Own

record usbdi_interface =
  Version :: u16
  QueryBusTimeEx :: bus_time
  QueryBusTime :: bus_time

fun bus_time_status :: "bus_time \<Rightarrow> ntstatus" where
  "bus_time_status (Lower st) = st"
| "bus_time_status Own = STATUS_SUCCESS"

definition substitute :: "bus_time \<Rightarrow> bus_time" where
  "substitute f = (if NT_ERROR (bus_time_status f) then Own else f)"

definition substitute_bus_time :: "usbdi_interface \<Rightarrow> usbdi_interface" where
  "substitute_bus_time r =
     (let r = (if Version r = 3 then r\<lparr>QueryBusTimeEx := substitute (QueryBusTimeEx r)\<rparr> else r) in
      if Version r \<le> 3 then r\<lparr>QueryBusTime := substitute (QueryBusTime r)\<rparr> else r)"

datatype pnp_minor =
    IRP_MN_START_DEVICE
  | IRP_MN_REMOVE_DEVICE
  | IRP_MN_QUERY_DEVICE_RELATIONS bool
  | IRP_MN_QUERY_INTERFACE bool
  | IRP_MN_OTHER

text \<open>A PnP request: its minor function (with whether it asks for bus relations or for the interface of
  the bus), whether \<open>IoForwardIrpSynchronously\<close> sends it, the status that the drivers below return, and
  what they have put in it.\<close>

record pnp_irp =
  irp_minor :: pnp_minor
  irp_sent :: bool
  irp_lower :: ntstatus
  irp_relations :: "device_relations option"
  irp_alloc :: "nat option"
  irp_interface :: "usbdi_interface option"

datatype irp_end = Forwarded | CompletedHere

definition ForwardIrpSynchronously :: "pnp_irp \<Rightarrow> ntstatus" where
  "ForwardIrpSynchronously irp = (if irp_sent irp then irp_lower irp else STATUS_NO_MORE_ENTRIES)"

definition remove_device :: "nat \<Rightarrow> filter_ext \<Rightarrow> pnp_irp \<Rightarrow> filter_driver \<Rightarrow> (irp_end \<times> ntstatus \<times> filter_driver) option" where
  "remove_device fido f irp d =
     (let d = (if fe_is_hub f \<or> \<not> fe_usbd_handle f then d
               else d\<lparr>fd_handles := fd_handles d - {fido},
                      fd_objects := (fd_objects d)(fido \<mapsto> f\<lparr>fe_usbd_handle := False\<rparr>)\<rparr>) in
      map_option (\<lambda>d. (Forwarded, irp_lower irp, d)) (destroy fido d))"

definition query_bus_relations_irp :: "nat \<Rightarrow> pnp_irp \<Rightarrow> filter_driver \<Rightarrow> (irp_end \<times> ntstatus \<times> filter_driver) option" where
  "query_bus_relations_irp fido irp d =
     (let st = ForwardIrpSynchronously irp in
      map_option (\<lambda>d. (CompletedHere, st, d))
        (case irp_relations irp of
           Some r \<Rightarrow> if NT_SUCCESS st then query_bus_relations (irp_alloc irp) fido r d else Some d
         | None \<Rightarrow> Some d))"

definition query_interface :: "bool \<Rightarrow> pnp_irp \<Rightarrow> (irp_end \<times> ntstatus \<times> usbdi_interface option) option" where
  "query_interface usbdi irp =
     (let st = ForwardIrpSynchronously irp in
      if NT_ERROR st \<or> \<not> usbdi then Some (CompletedHere, st, irp_interface irp)
      else case irp_interface irp of
          None \<Rightarrow> None
        | Some r \<Rightarrow> Some (CompletedHere, st, Some (substitute_bus_time r)))"

definition pnp :: "nat \<Rightarrow> pnp_irp \<Rightarrow> filter_driver \<Rightarrow> (irp_end \<times> ntstatus \<times> usbdi_interface option \<times> filter_driver) option" where
  "pnp fido irp d =
     (case fd_objects d fido of
        None \<Rightarrow> None
      | Some f \<Rightarrow>
          let keep = map_option (\<lambda>(e, st, d). (e, st, irp_interface irp, d));
              forward = Some (Forwarded, irp_lower irp, irp_interface irp, d) in
          (case irp_minor irp of
             IRP_MN_START_DEVICE \<Rightarrow> Some (CompletedHere, ForwardIrpSynchronously irp, irp_interface irp, d)
           | IRP_MN_REMOVE_DEVICE \<Rightarrow> keep (remove_device fido f irp d)
           | IRP_MN_QUERY_DEVICE_RELATIONS bus \<Rightarrow>
               if fe_is_hub f \<and> bus then keep (query_bus_relations_irp fido irp d) else forward
           | IRP_MN_QUERY_INTERFACE usbdi \<Rightarrow>
               if \<not> fe_is_hub f
               then map_option (\<lambda>(e, st, i). (e, st, i, d)) (query_interface usbdi irp)
               else forward
           | IRP_MN_OTHER \<Rightarrow> forward))"

section \<open>Nothing is left behind\<close>

text \<open>Every device object of the driver is attached to its target; the children, and no others, have an
  open handle of USBD; the allocated memory is what the hubs point at, each hub at its own.\<close>

definition object_ok :: "filter_driver \<Rightarrow> nat \<Rightarrow> filter_ext \<Rightarrow> bool" where
  "object_ok d fido f \<longleftrightarrow>
     fe_target f \<noteq> None \<and> fe_target f = fd_attached d fido \<and>
     (fe_usbd_handle f \<longleftrightarrow> \<not> fe_is_hub f) \<and> (fido \<in> fd_handles d \<longleftrightarrow> \<not> fe_is_hub f) \<and>
     (\<not> fe_is_hub f \<longrightarrow> fe_previous f = None)"

definition points_at :: "filter_driver \<Rightarrow> nat \<Rightarrow> nat \<Rightarrow> bool" where
  "points_at d fido a \<longleftrightarrow> (\<exists>f. fd_objects d fido = Some f \<and> fe_previous f = Some a)"

definition no_leak :: "filter_driver \<Rightarrow> bool" where
  "no_leak d \<longleftrightarrow>
     (\<forall>fido f. fd_objects d fido = Some f \<longrightarrow> object_ok d fido f) \<and>
     dom (fd_attached d) = dom (fd_objects d) \<and> fd_handles d \<subseteq> dom (fd_objects d) \<and>
     (\<forall>a. a \<in> dom (fd_pool d) \<longleftrightarrow> (\<exists>fido. points_at d fido a)) \<and>
     (\<forall>fido fido' a. points_at d fido a \<longrightarrow> points_at d fido' a \<longrightarrow> fido = fido')"

text \<open>What \<open>do_add_device\<close> does: on success there is one more object, otherwise nothing has changed.\<close>

definition new_filter :: "add_env \<Rightarrow> nat \<Rightarrow> bool \<Rightarrow> nat \<times> devobj_props \<Rightarrow> filter_ext" where
  "new_filter env pdo has_parent target =
     \<lparr>fe_target = Some (fst target), fe_pdo = pdo, fe_is_hub = \<not> has_parent, fe_previous = None,
      fe_usbd_handle = has_parent,
      fe_props = (let p = propagate (snd target) (ae_props env) in
        p\<lparr>Flags := Flags p AND NOT DO_DEVICE_INITIALIZING\<rparr>)\<rparr>"

definition add_result :: "add_env \<Rightarrow> bool \<Rightarrow> ntstatus" where
  "add_result env has_parent =
     (if ae_create env \<noteq> STATUS_SUCCESS then ae_create env
      else if ae_target env = None then STATUS_NO_SUCH_DEVICE
      else if has_parent then ae_handle env else STATUS_SUCCESS)"

definition with_filter :: "add_env \<Rightarrow> nat \<Rightarrow> bool \<Rightarrow> filter_driver \<Rightarrow> filter_driver" where
  "with_filter env pdo has_parent d =
     (case ae_target env of
        Some target \<Rightarrow> if add_result env has_parent = STATUS_SUCCESS then
            d\<lparr>fd_objects := (fd_objects d)(ae_fido env \<mapsto> new_filter env pdo has_parent target),
              fd_attached := (fd_attached d)(ae_fido env \<mapsto> fst target),
              fd_handles := (if has_parent then insert (ae_fido env) (fd_handles d) else fd_handles d)\<rparr>
          else d
      | None \<Rightarrow> d)"

lemma do_add_device_effect:
  assumes "no_leak d" "ae_fido env \<notin> dom (fd_objects d)"
  shows "do_add_device env pdo has_parent d = Some (add_result env has_parent, with_filter env pdo has_parent d)"
proof -
  have u: "(fd_attached d)(ae_fido env := None) = fd_attached d" "(fd_objects d)(ae_fido env := None) = fd_objects d"
    using assms by (auto simp: no_leak_def domIff fun_upd_idem)
  have "fd_attached d (ae_fido env) = None" "fd_objects d (ae_fido env) = None"
    using assms by (auto simp: no_leak_def domIff)
  then show ?thesis
    using u by (auto simp: do_add_device_def destroy_def do_destroy_def free_pool_def with_filter_def add_result_def
        new_filter_def Let_def fun_upd_idem split: option.splits)
qed

lemma points_at_with_filter [simp]:
  "ae_fido env \<notin> dom (fd_objects d) \<Longrightarrow> points_at (with_filter env pdo has_parent d) fido a = points_at d fido a"
  by (auto simp: points_at_def with_filter_def new_filter_def domIff split: option.splits)

lemma with_filter_fields [simp]: "fd_pool (with_filter env pdo has_parent d) = fd_pool d"
  by (simp add: with_filter_def split: option.splits)

lemma no_leak_with_filter:
  assumes "no_leak d" "ae_fido env \<notin> dom (fd_objects d)"
  shows "no_leak (with_filter env pdo has_parent d)"
proof (cases "ae_target env \<noteq> None \<and> add_result env has_parent = STATUS_SUCCESS")
  case True
  then obtain target where t: "ae_target env = Some target" by auto
  have h: "ae_fido env \<notin> fd_handles d" using assms by (auto simp: no_leak_def)
  have "object_ok (with_filter env pdo has_parent d) fido f"
    if "fd_objects (with_filter env pdo has_parent d) fido = Some f" for fido f
    using that assms h True t
    by (auto simp: object_ok_def with_filter_def new_filter_def no_leak_def split: if_splits)
  then show ?thesis
    using assms True t unfolding no_leak_def
    by (simp add: points_at_with_filter) (auto simp: with_filter_def)
next
  case False
  then have "with_filter env pdo has_parent d = d" by (auto simp: with_filter_def split: option.splits)
  then show ?thesis using assms by simp
qed

text \<open>The I/O manager gives new objects addresses that are not in use.\<close>

definition fresh_objects :: "device_relations \<Rightarrow> filter_driver \<Rightarrow> bool" where
  "fresh_objects r d \<longleftrightarrow> distinct (map (ae_fido \<circ> snd) r) \<and> (\<forall>x \<in> set r. ae_fido (snd x) \<notin> dom (fd_objects d))"

fun with_children :: "nat list \<Rightarrow> device_relations \<Rightarrow> filter_driver \<Rightarrow> filter_driver" where
  "with_children previous [] d = d"
| "with_children previous ((pdo, env) # r) d =
     with_children previous r (if pdo \<in> set previous then d else with_filter env pdo True d)"

lemma contains_iff [simp]: "contains r obj \<longleftrightarrow> obj \<in> set r"
  by (induction r) auto

lemma with_filter_dom: "fd_objects (with_filter env pdo has_parent d) fido = None \<longleftrightarrow>
    fd_objects d fido = None \<and> \<not> (fido = ae_fido env \<and> ae_target env \<noteq> None \<and> add_result env has_parent = STATUS_SUCCESS)"
  by (auto simp: with_filter_def split: option.splits)

lemma with_filter_old: "fido \<noteq> ae_fido env \<Longrightarrow> fd_objects (with_filter env pdo has_parent d) fido = fd_objects d fido"
  by (auto simp: with_filter_def split: option.splits)

lemma fresh_objects_Cons:
  assumes "fresh_objects ((pdo, env) # r) d"
  shows "fresh_objects r d" "fresh_objects r (with_filter env pdo True d)" "ae_fido env \<notin> dom (fd_objects d)"
proof -
  have "fd_objects (with_filter env pdo True d) (ae_fido (snd x)) = None" if "x \<in> set r" for x
  proof -
    have "ae_fido (snd x) \<noteq> ae_fido env" using assms that by (force simp: fresh_objects_def)
    then show ?thesis using assms that by (auto simp: fresh_objects_def with_filter_old domIff)
  qed
  then show "fresh_objects r d" "fresh_objects r (with_filter env pdo True d)" "ae_fido env \<notin> dom (fd_objects d)"
    using assms by (auto simp: fresh_objects_def)
qed

lemma add_children_effect:
  assumes "no_leak d" "fresh_objects r d"
  shows "add_children previous r d = Some (with_children previous r d)"
    and "no_leak (with_children previous r d)"
    and "fd_pool (with_children previous r d) = fd_pool d"
    and "fd_objects d fido \<noteq> None \<Longrightarrow> fd_objects (with_children previous r d) fido = fd_objects d fido"
    and "points_at (with_children previous r d) fido a = points_at d fido a"
  using assms
proof (induction previous r d rule: with_children.induct)
  case (2 previous pdo env r d)
  {
    case 1
    then show ?case using "2.IH" fresh_objects_Cons [OF 1(2)] by (cases "pdo \<in> set previous") (simp_all add: do_add_device_effect no_leak_with_filter)
  next
    case 2
    then show ?case using "2.IH" fresh_objects_Cons [OF 2(2)] by (cases "pdo \<in> set previous") (simp_all add: no_leak_with_filter)
  next
    case 3
    then show ?case using "2.IH" fresh_objects_Cons [OF 3(2)] by (cases "pdo \<in> set previous") (simp_all add: no_leak_with_filter)
  next
    case 4
    have "fido \<noteq> ae_fido env" using fresh_objects_Cons(3) [OF 4(3)] 4(1) by auto
    then show ?case using 4 "2.IH" fresh_objects_Cons [OF 4(3)] by (cases "pdo \<in> set previous") (simp_all add: no_leak_with_filter with_filter_old)
  next
    case 5
    then show ?case using "2.IH" fresh_objects_Cons [OF 5(2)] by (cases "pdo \<in> set previous") (simp_all add: no_leak_with_filter)
  }
qed simp_all

definition drop_pool :: "nat option \<Rightarrow> (nat \<rightharpoonup> nat list) \<Rightarrow> (nat \<rightharpoonup> nat list)" where
  "drop_pool ptr m = (case ptr of None \<Rightarrow> m | Some a \<Rightarrow> m(a := None))"

definition add_pool :: "nat option \<Rightarrow> nat list \<Rightarrow> (nat \<rightharpoonup> nat list) \<Rightarrow> (nat \<rightharpoonup> nat list)" where
  "add_pool ptr xs m = (case ptr of None \<Rightarrow> m | Some a \<Rightarrow> m(a \<mapsto> xs))"

definition with_relations :: "nat \<Rightarrow> filter_ext \<Rightarrow> nat option \<Rightarrow> nat list \<Rightarrow> filter_driver \<Rightarrow> filter_driver" where
  "with_relations fido f ptr xs d =
     d\<lparr>fd_objects := (fd_objects d)(fido \<mapsto> f\<lparr>fe_previous := ptr\<rparr>),
       fd_pool := drop_pool (fe_previous f) (add_pool ptr xs (fd_pool d))\<rparr>"

definition without :: "nat \<Rightarrow> filter_ext \<Rightarrow> filter_driver \<Rightarrow> filter_driver" where
  "without fido f d =
     d\<lparr>fd_objects := (fd_objects d)(fido := None), fd_attached := (fd_attached d)(fido := None),
       fd_handles := fd_handles d - {fido}, fd_pool := drop_pool (fe_previous f) (fd_pool d)\<rparr>"

lemma no_leak_object: "no_leak d \<Longrightarrow> fd_objects d g = Some e \<Longrightarrow> object_ok d g e"
  by (simp add: no_leak_def)

lemma no_leak_doms:
  "no_leak d \<Longrightarrow> dom (fd_attached d) = dom (fd_objects d)" "no_leak d \<Longrightarrow> fd_handles d \<subseteq> dom (fd_objects d)"
  by (simp_all add: no_leak_def)

lemma no_leak_pool:
  assumes "no_leak d" "fd_objects d fido = Some f" "fe_previous f = Some a"
  shows "fd_pool d a \<noteq> None"
  using assms by (auto simp: no_leak_def points_at_def domIff)

lemma points_at_with_relations:
  assumes "fd_objects d fido = Some f"
  shows "points_at (with_relations fido f ptr xs d) g a \<longleftrightarrow> (if g = fido then ptr = Some a else points_at d g a)"
  by (auto simp: points_at_def with_relations_def)

lemma no_leak_with_relations:
  assumes "no_leak d" "fd_objects d fido = Some f" "fe_is_hub f" "ptr = None \<or> fd_pool d (the ptr) = None"
  shows "no_leak (with_relations fido f ptr xs d)"
proof -
  have own: "fe_previous f = Some a \<longleftrightarrow> points_at d fido a" for a using assms(2) by (simp add: points_at_def)
  have pool: "a \<in> dom (fd_pool d) \<longleftrightarrow> (\<exists>g. points_at d g a)" "points_at d g a \<Longrightarrow> points_at d h a \<Longrightarrow> g = h" for a g h
    using assms(1) unfolding no_leak_def by blast+
  have new: "ptr = Some a \<Longrightarrow> \<not> points_at d g a" for a g using assms(4) pool(1) [of a] by auto
  have dom: "a \<in> dom (fd_pool (with_relations fido f ptr xs d)) \<longleftrightarrow>
      ptr = Some a \<or> a \<in> dom (fd_pool d) \<and> \<not> points_at d fido a" for a
    using new [of a fido]
    by (auto simp: own [symmetric] with_relations_def drop_pool_def add_pool_def split: option.splits if_splits)
  have "object_ok (with_relations fido f ptr xs d) g e" if "fd_objects (with_relations fido f ptr xs d) g = Some e" for g e
    using that assms(3) no_leak_object [OF assms(1,2)] no_leak_object [OF assms(1), of g e]
    by (cases "g = fido") (auto simp: object_ok_def with_relations_def)
  moreover have "dom (fd_attached (with_relations fido f ptr xs d)) = dom (fd_objects (with_relations fido f ptr xs d))"
    "fd_handles (with_relations fido f ptr xs d) \<subseteq> dom (fd_objects (with_relations fido f ptr xs d))"
    using no_leak_doms [OF assms(1)] assms(2) by (auto simp: with_relations_def)
  moreover have "a \<in> dom (fd_pool (with_relations fido f ptr xs d)) \<longleftrightarrow> (\<exists>g. points_at (with_relations fido f ptr xs d) g a)" for a
    unfolding dom points_at_with_relations [OF assms(2)] using pool by (metis (full_types))
  moreover have "g = h" if "points_at (with_relations fido f ptr xs d) g a" "points_at (with_relations fido f ptr xs d) h a" for g h a
    using that pool(2) new unfolding points_at_with_relations [OF assms(2)] by (auto split: if_splits)
  ultimately show ?thesis unfolding no_leak_def by blast
qed

lemma no_leak_without:
  assumes "no_leak d" "fd_objects d fido = Some f"
  shows "no_leak (without fido f d)"
proof -
  have own: "fe_previous f = Some a \<longleftrightarrow> points_at d fido a" for a using assms(2) by (simp add: points_at_def)
  have pts: "points_at (without fido f d) g a \<longleftrightarrow> g \<noteq> fido \<and> points_at d g a" for g a
    by (auto simp: points_at_def without_def)
  have pool: "a \<in> dom (fd_pool d) \<longleftrightarrow> (\<exists>g. points_at d g a)" "points_at d g a \<Longrightarrow> points_at d h a \<Longrightarrow> g = h" for a g h
    using assms(1) unfolding no_leak_def by blast+
  have dom: "a \<in> dom (fd_pool (without fido f d)) \<longleftrightarrow> a \<in> dom (fd_pool d) \<and> \<not> points_at d fido a" for a
    by (auto simp: own [symmetric] without_def drop_pool_def split: option.splits if_splits)
  have "object_ok (without fido f d) g e" if "fd_objects (without fido f d) g = Some e" for g e
    using that no_leak_object [OF assms(1), of g e]
    by (cases "g = fido") (auto simp: object_ok_def without_def)
  moreover have "dom (fd_attached (without fido f d)) = dom (fd_objects (without fido f d))"
    "fd_handles (without fido f d) \<subseteq> dom (fd_objects (without fido f d))"
    using no_leak_doms [OF assms(1)] by (auto simp: without_def)
  moreover have "a \<in> dom (fd_pool (without fido f d)) \<longleftrightarrow> (\<exists>g. points_at (without fido f d) g a)" for a
    unfolding dom pts using pool by metis
  moreover have "g = h" if "points_at (without fido f d) g a" "points_at (without fido f d) h a" for g h a
    using that pool(2) unfolding pts by blast
  ultimately show ?thesis unfolding no_leak_def by blast
qed

lemma remove_device_effect:
  assumes "no_leak d" "fd_objects d fido = Some f"
  shows "remove_device fido f irp d = Some (Forwarded, irp_lower irp, without fido f d)"
proof -
  have ok: "object_ok d fido f" by (rule no_leak_object [OF assms])
  then show ?thesis
    using assms no_leak_pool [OF assms]
    by (auto simp: remove_device_def destroy_def do_destroy_def free_pool_def without_def drop_pool_def object_ok_def
        Let_def split: option.splits)
qed

text \<open>What a report of children does.\<close>

definition previous_children :: "filter_driver \<Rightarrow> filter_ext \<Rightarrow> nat list" where
  "previous_children d f = (case fe_previous f of None \<Rightarrow> [] | Some a \<Rightarrow> the (fd_pool d a))"

lemma query_bus_relations_effect:
  assumes "no_leak d" "fd_objects d fido = Some f" "fe_is_hub f" "fresh_objects r d"
    "alloc = None \<or> fd_pool d (the alloc) = None"
  defines "d1 \<equiv> with_children (previous_children d f) r d"
  shows "query_bus_relations alloc fido r d =
      Some (if r = [] then with_relations fido f None [] d1
            else if alloc = None then d1 else with_relations fido f alloc (map fst r) d1)" (is "?eq")
    and "no_leak d1" "fd_objects d1 fido = Some f" "fd_pool d1 = fd_pool d"
    and "\<exists>d'. query_bus_relations alloc fido r d = Some d' \<and> no_leak d'"
proof -
  note eff = add_children_effect [OF assms(1,4), where previous = "previous_children d f"]
  show d1: "no_leak d1" "fd_objects d1 fido = Some f" "fd_pool d1 = fd_pool d"
    using eff(2,3) eff(4) [of fido] assms(2) by (auto simp: d1_def)
  have prev: "(case fe_previous f of None \<Rightarrow> Some [] | Some a \<Rightarrow> fd_pool d a) = Some (previous_children d f)"
    using no_leak_pool [OF assms(1,2)] by (auto simp: previous_children_def split: option.splits)
  have old: "fe_previous f = Some a \<Longrightarrow> fd_pool d a \<noteq> None" for a by (rule no_leak_pool [OF assms(1,2)])
  have upd: "free_pool (fe_previous f) (upd_previous fido ptr (d1\<lparr>fd_pool := add_pool ptr xs (fd_pool d1)\<rparr>)) =
      Some (with_relations fido f ptr xs d1)" for ptr xs
    using old d1(2,3)
    by (auto simp: free_pool_def upd_previous_def with_relations_def drop_pool_def add_pool_def split: option.splits)
  have upd_None: "free_pool (fe_previous f) (upd_previous fido None d1) = Some (with_relations fido f None [] d1)"
    using upd [of None "[]"] by (simp add: add_pool_def)
  have upd_Some: "free_pool (fe_previous f) (upd_previous fido (Some a) (d1\<lparr>fd_pool := (fd_pool d1)(a \<mapsto> xs)\<rparr>)) =
      Some (with_relations fido f (Some a) xs d1)" for a xs
    using upd [of "Some a" xs] by (simp add: add_pool_def)
  show eq: ?eq
    using eff(1) assms(2) upd_None upd_Some
    by (cases alloc) (simp_all add: query_bus_relations_def prev flip: d1_def)
  show "\<exists>d'. query_bus_relations alloc fido r d = Some d' \<and> no_leak d'"
    unfolding eq using no_leak_with_relations [OF d1(1,2) assms(3)] assms(5) d1(1,3) by auto
qed

section \<open>Any sequence of requests\<close>

datatype filter_event = AddDevice "string option" add_env nat | Pnp nat pnp_irp

definition handle_event :: "(string \<Rightarrow> string \<Rightarrow> bool) \<Rightarrow> filter_event \<Rightarrow> filter_driver \<Rightarrow> filter_driver option" where
  "handle_event equal_ci ev d =
     (case ev of
        AddDevice name env pdo \<Rightarrow> map_option snd (add_device equal_ci name env pdo d)
      | Pnp fido irp \<Rightarrow> map_option (\<lambda>(e, st, i, d). d) (pnp fido irp d))"

text \<open>What Windows guarantees: requests go to objects that exist, and new objects and new memory are new.\<close>

definition event_ok :: "filter_event \<Rightarrow> filter_driver \<Rightarrow> bool" where
  "event_ok ev d =
     (case ev of
        AddDevice name env pdo \<Rightarrow> ae_fido env \<notin> dom (fd_objects d)
      | Pnp fido irp \<Rightarrow> fido \<in> dom (fd_objects d) \<and>
          (case irp_relations irp of None \<Rightarrow> True | Some r \<Rightarrow> fresh_objects r d) \<and>
          (case irp_alloc irp of None \<Rightarrow> True | Some a \<Rightarrow> fd_pool d a = None))"

text \<open>A request for the interface of the bus that comes back without an error and without the interface.\<close>

definition unfilled :: "filter_event \<Rightarrow> filter_driver \<Rightarrow> bool" where
  "unfilled ev d =
     (case ev of
        AddDevice name env pdo \<Rightarrow> False
      | Pnp fido irp \<Rightarrow> irp_minor irp = IRP_MN_QUERY_INTERFACE True \<and> irp_interface irp = None \<and>
          \<not> NT_ERROR (ForwardIrpSynchronously irp) \<and>
          (case fd_objects d fido of None \<Rightarrow> False | Some f \<Rightarrow> \<not> fe_is_hub f))"

definition filter_step :: "(string \<Rightarrow> string \<Rightarrow> bool) \<Rightarrow> filter_driver \<Rightarrow> filter_event \<Rightarrow> filter_driver \<Rightarrow> bool" where
  "filter_step equal_ci d ev d' \<longleftrightarrow> event_ok ev d \<and> handle_event equal_ci ev d = Some d'"

lemma add_device_no_leak:
  assumes "no_leak d" "ae_fido env \<notin> dom (fd_objects d)"
  shows "\<exists>d'. add_device equal_ci name env pdo d = Some (STATUS_SUCCESS, d') \<and> no_leak d'"
  using assms by (simp add: add_device_def do_add_device_effect no_leak_with_filter)

lemma pnp_no_leak:
  assumes "no_leak d" "event_ok (Pnp fido irp) d" "\<not> unfilled (Pnp fido irp) d"
  shows "\<exists>e st i d'. pnp fido irp d = Some (e, st, i, d') \<and> no_leak d'"
proof -
  obtain f where f: "fd_objects d fido = Some f" using assms(2) by (auto simp: event_ok_def)
  have rel: "\<exists>d'. query_bus_relations_irp fido irp d = Some (CompletedHere, ForwardIrpSynchronously irp, d') \<and> no_leak d'"
    if "fe_is_hub f"
  proof (cases "irp_relations irp")
    case (Some r)
    have "\<exists>d'. query_bus_relations (irp_alloc irp) fido r d = Some d' \<and> no_leak d'"
      using assms(2) Some
      by (intro query_bus_relations_effect(5) [OF assms(1) f that]) (auto simp: event_ok_def split: option.splits)
    then show ?thesis using assms(1) Some by (auto simp: query_bus_relations_irp_def Let_def)
  qed (simp add: query_bus_relations_irp_def assms(1))
  show ?thesis
    using assms rel f remove_device_effect [OF assms(1) f, of irp] no_leak_without [OF assms(1) f]
    by (cases "irp_minor irp")
      (auto simp: pnp_def unfilled_def query_interface_def Let_def split: option.splits)
qed

lemma handle_event_no_leak:
  assumes "no_leak d" "event_ok ev d" "\<not> unfilled ev d"
  shows "\<exists>d'. handle_event equal_ci ev d = Some d' \<and> no_leak d'"
proof (cases ev)
  case (AddDevice name env pdo)
  then show ?thesis
    using add_device_no_leak [OF assms(1), of env equal_ci name pdo] assms(2)
    by (auto simp: handle_event_def event_ok_def)
next
  case (Pnp fido irp)
  then show ?thesis using pnp_no_leak [of d fido irp] assms by (auto simp: handle_event_def)
qed

lemma unfilled_stuck: "unfilled ev d \<Longrightarrow> handle_event equal_ci ev d = None"
  by (auto simp: unfilled_def handle_event_def pnp_def query_interface_def Let_def
      split: filter_event.splits option.splits)

lemma no_leak_no_devices: "no_leak no_devices"
  by (simp add: no_leak_def no_devices_def points_at_def)

text \<open>C25. Whatever requests the upper filter driver gets and however Windows answers its calls, every
  device object it has is attached to its target, the USBD handles that are open are those of its objects
  above devices, and the memory it has allocated is what its objects above hubs remember; nothing is
  left behind by a failed creation, by a removal or by a changed list of children. And every request is
  handled without touching what does not exist, except when the interface of the bus is asked for and
  comes back neither with an error nor filled in.\<close>

theorem filter_driver_no_leak:
  assumes "trace (filter_step equal_ci) no_devices es d"
  shows "no_leak d \<and>
    (\<forall>ev. event_ok ev d \<longrightarrow> (handle_event equal_ci ev d = None \<longleftrightarrow> unfilled ev d))"
proof -
  note no_leak_no_devices
  moreover have "no_leak d'" if "no_leak d" "filter_step equal_ci d ev d'" for d d' ev
    using that handle_event_no_leak [of d ev equal_ci] unfilled_stuck [of ev d equal_ci] by (auto simp: filter_step_def)
  ultimately have "no_leak d" using trace_invariant [OF assms, of no_leak] by blast
  then show ?thesis using handle_event_no_leak unfilled_stuck by (metis option.distinct(1))
qed

definition sample_props :: devobj_props where
  "sample_props = \<lparr>DeviceType = 0x22, Characteristics = 0x100, Flags = 0x2084\<rparr>"

definition sample_add :: "nat \<Rightarrow> add_env" where
  "sample_add fido = \<lparr>ae_create = STATUS_SUCCESS, ae_fido = fido, ae_props = sample_props,
     ae_target = Some (100 + fido, sample_props), ae_handle = STATUS_SUCCESS\<rparr>"

definition sample_report :: "nat option \<Rightarrow> device_relations \<Rightarrow> pnp_irp" where
  "sample_report alloc r = \<lparr>irp_minor = IRP_MN_QUERY_DEVICE_RELATIONS True, irp_sent = True, irp_lower = STATUS_SUCCESS,
     irp_relations = Some r, irp_alloc = alloc, irp_interface = None\<rparr>"

definition vhci_name :: string where
  "vhci_name = [CHR 0x5C] @ ''Driver'' @ [CHR 0x5C] @ ''usbip2_ude''"

definition sample_hub :: filter_driver where
  "sample_hub = with_filter (sample_add 3) 50 False no_devices"

definition sample_stack :: filter_driver where
  "sample_stack = the (query_bus_relations (Some 7) 3 [(60, sample_add 4)] sample_hub)"

lemma sample_hub_objects:
  "fd_objects sample_hub = [3 \<mapsto> new_filter (sample_add 3) 50 False (103, sample_props)]" "fd_pool sample_hub = Map.empty"
  by (simp_all add: sample_hub_def with_filter_def sample_add_def add_result_def no_devices_def)

lemma sample_hub_ok: "no_leak sample_hub" "fresh_objects [(60, sample_add 4)] sample_hub"
proof -
  have "ae_fido (sample_add 3) \<notin> dom (fd_objects no_devices)" by (simp add: no_devices_def)
  then show "no_leak sample_hub" unfolding sample_hub_def by (rule no_leak_with_filter [OF no_leak_no_devices])
  show "fresh_objects [(60, sample_add 4)] sample_hub"
    by (simp add: fresh_objects_def sample_hub_objects) (simp add: sample_add_def)
qed

lemma sample_hub_hub: "fe_is_hub (new_filter env pdo False target)" by (simp add: new_filter_def)

lemma sample_report_effect:
  "query_bus_relations (Some 7) 3 [(60, sample_add 4)] sample_hub = Some sample_stack"
  using query_bus_relations_effect(5) [OF sample_hub_ok(1), of 3 _ "[(60, sample_add 4)]" "Some 7"] sample_hub_ok(2)
  by (auto simp: sample_hub_objects sample_stack_def sample_hub_hub)

lemma sample_trace:
  "trace (filter_step (=)) no_devices
     [AddDevice (Some vhci_name) (sample_add 3) 50, Pnp 3 (sample_report (Some 7) [(60, sample_add 4)])] sample_stack"
proof -
  have above: "is_abobe_vhci (=) (Some vhci_name)" by (simp add: is_abobe_vhci_def driver_name_equal_def vhci_name_def)
  have new: "ae_fido (sample_add 3) \<notin> dom (fd_objects no_devices)" by (simp add: no_devices_def)
  have s1: "filter_step (=) no_devices (AddDevice (Some vhci_name) (sample_add 3) 50) sample_hub"
    using above new do_add_device_effect [OF no_leak_no_devices new, of 50 False]
    by (simp add: filter_step_def event_ok_def handle_event_def add_device_def sample_hub_def)
  have s2: "filter_step (=) sample_hub (Pnp 3 (sample_report (Some 7) [(60, sample_add 4)])) sample_stack"
    using sample_report_effect sample_hub_ok(2)
    by (simp add: filter_step_def event_ok_def handle_event_def pnp_def query_bus_relations_irp_def sample_report_def
        ForwardIrpSynchronously_def sample_hub_objects sample_hub_hub)
  note Cons = trace_Cons [where step = "filter_step (=)"]
  show ?thesis by (rule Cons [OF Cons [OF trace_Nil s2] s1])
qed

theorem filter_driver_no_leak_witness:
  "no_leak sample_stack \<and> handle_event (=) (Pnp 3 (sample_report None [])) sample_stack \<noteq> None"
proof -
  obtain f d where eq: "sample_stack = with_relations 3 f (Some 7) [60] d"
    using sample_report_effect sample_hub_ok(2) sample_hub_hub
      query_bus_relations_effect(1) [OF sample_hub_ok(1), of 3 _ "[(60, sample_add 4)]" "Some 7"]
    by (fastforce simp: sample_hub_objects)
  have "fd_objects sample_stack 3 \<noteq> None" unfolding eq by (simp add: with_relations_def)
  then have "event_ok (Pnp 3 (sample_report None [])) sample_stack"
    by (auto simp: event_ok_def sample_report_def fresh_objects_def)
  then show ?thesis using filter_driver_no_leak [OF sample_trace] by (auto simp: unfilled_def sample_report_def)
qed

section \<open>The children that are filtered\<close>

fun report_all :: "nat \<Rightarrow> (nat option \<times> device_relations) list \<Rightarrow> filter_driver \<Rightarrow> filter_driver option" where
  "report_all fido [] d = Some d"
| "report_all fido ((alloc, r) # rs) d =
     (case query_bus_relations alloc fido r d of None \<Rightarrow> None | Some d \<Rightarrow> report_all fido rs d)"

fun reports_ok :: "nat \<Rightarrow> (nat option \<times> device_relations) list \<Rightarrow> filter_driver \<Rightarrow> bool" where
  "reports_ok fido [] d = True"
| "reports_ok fido ((alloc, r) # rs) d =
     (fresh_objects r d \<and> (alloc = None \<or> fd_pool d (the alloc) = None) \<and>
      (case query_bus_relations alloc fido r d of None \<Rightarrow> True | Some d \<Rightarrow> reports_ok fido rs d))"

text \<open>The filters that should be attached, as pairs of a child and its FiDO: one whenever a child is
  reported that is not in the remembered list, if Windows grants what it needs. A report is remembered
  unless there is no memory for it.\<close>

definition new_children :: "nat list \<Rightarrow> device_relations \<Rightarrow> (nat \<times> nat) list" where
  "new_children previous r =
     [(pdo, ae_fido env). (pdo, env) \<leftarrow> r, pdo \<notin> set previous \<and> add_result env True = STATUS_SUCCESS]"

definition remembered :: "nat option \<Rightarrow> device_relations \<Rightarrow> nat list \<Rightarrow> nat list" where
  "remembered alloc r previous = (if r \<noteq> [] \<and> alloc = None then previous else map fst r)"

fun expected_filters :: "nat list \<Rightarrow> (nat option \<times> device_relations) list \<Rightarrow> (nat \<times> nat) list" where
  "expected_filters previous [] = []"
| "expected_filters previous ((alloc, r) # rs) =
     new_children previous r @ expected_filters (remembered alloc r previous) rs"

definition filters_child :: "filter_driver \<Rightarrow> nat \<Rightarrow> nat \<Rightarrow> bool" where
  "filters_child d fido pdo \<longleftrightarrow> (\<exists>f. fd_objects d fido = Some f \<and> \<not> fe_is_hub f \<and> fe_pdo f = pdo)"

lemma filters_child_with_filter:
  assumes "ae_fido env \<notin> dom (fd_objects d)"
  shows "filters_child (with_filter env p True d) fido pdo \<longleftrightarrow>
     filters_child d fido pdo \<or> (pdo, fido) = (p, ae_fido env) \<and> add_result env True = STATUS_SUCCESS"
  using assms
  by (cases "ae_target env") (auto simp: filters_child_def with_filter_def new_filter_def add_result_def domIff split: if_splits)

lemma filters_child_with_children:
  assumes "no_leak d" "fresh_objects r d"
  shows "filters_child (with_children previous r d) fido pdo \<longleftrightarrow>
     filters_child d fido pdo \<or> (pdo, fido) \<in> set (new_children previous r)"
  using assms
proof (induction previous r d rule: with_children.induct)
  case (2 previous p env r d)
  then show ?case
    using fresh_objects_Cons [OF 2(3)]
    by (cases "p \<in> set previous") (auto simp: filters_child_with_filter no_leak_with_filter new_children_def)
qed (simp add: new_children_def)

lemma filters_child_with_relations [simp]:
  assumes "fd_objects d hub = Some f" "fe_is_hub f"
  shows "filters_child (with_relations hub f ptr xs d) fido pdo = filters_child d fido pdo"
  using assms by (auto simp: filters_child_def with_relations_def)

lemma report_effect:
  assumes "no_leak d" "fd_objects d hub = Some f" "fe_is_hub f" "fresh_objects r d"
    "alloc = None \<or> fd_pool d (the alloc) = None"
  shows "\<exists>d' f'. query_bus_relations alloc hub r d = Some d' \<and> no_leak d' \<and>
    fd_objects d' hub = Some f' \<and> fe_is_hub f' \<and>
    previous_children d' f' = remembered alloc r (previous_children d f) \<and>
    (\<forall>fido pdo. filters_child d' fido pdo \<longleftrightarrow>
      filters_child d fido pdo \<or> (pdo, fido) \<in> set (new_children (previous_children d f) r))"
proof -
  note eff = query_bus_relations_effect [OF assms]
  let ?d1 = "with_children (previous_children d f) r d"
  note child = filters_child_with_children [OF assms(1,4)]
  obtain d' where d': "query_bus_relations alloc hub r d = Some d'" "no_leak d'" using eff(5) by blast
  have other: "alloc = Some a \<Longrightarrow> fe_previous f \<noteq> Some a" for a
    using no_leak_pool [OF assms(1,2)] assms(5) by fastforce
  consider (empty) "r = []" | (lost) "r \<noteq> []" "alloc = None" | (saved) a where "r \<noteq> []" "alloc = Some a" by fastforce
  then show ?thesis
  proof cases
    case empty
    then have "d' = with_relations hub f None [] ?d1" using eff(1) d'(1) by simp
    moreover have "previous_children (with_relations hub f None [] ?d1) (f\<lparr>fe_previous := None\<rparr>) = []"
      by (simp add: previous_children_def)
    ultimately show ?thesis
      using d' eff(3) assms(3) child empty by (auto simp: remembered_def) (auto simp: with_relations_def)
  next
    case lost
    then have "d' = ?d1" using eff(1) d'(1) by simp
    moreover have "previous_children ?d1 f = previous_children d f"
      unfolding previous_children_def [of ?d1 f] eff(4) by (simp only: previous_children_def)
    ultimately show ?thesis using d' eff(3) assms(3) child lost by (auto simp: remembered_def)
  next
    case saved
    then have e: "d' = with_relations hub f (Some a) (map fst r) ?d1" using eff(1) d'(1) by simp
    have "fd_pool d' a = Some (map fst r)"
      using other [OF saved(2)] by (auto simp: e with_relations_def drop_pool_def add_pool_def split: option.splits)
    then have "previous_children d' (f\<lparr>fe_previous := Some a\<rparr>) = map fst r" by (simp add: previous_children_def)
    moreover have "fd_objects d' hub = Some (f\<lparr>fe_previous := Some a\<rparr>)" by (simp add: e with_relations_def)
    moreover have "filters_child d' fido pdo = filters_child ?d1 fido pdo" for fido pdo
      unfolding e by (rule filters_child_with_relations [OF eff(3) assms(3)])
    ultimately show ?thesis using d' assms(3) child saved by (auto simp: remembered_def)
  qed
qed



end
