(* ===== verification/Endpoints.thy ===== *)
theory Endpoints
  imports Submit
begin

text \<open>
  The endpoints of an emulated device (\<open>drivers/ude/device.cpp\<close>): the callbacks by which UdeCx adds, resets
  and configures endpoints, and their cleanup. The context of an endpoint holds a copy of its descriptor
  in nine bytes (\<open>USB_ENDPOINT_DESCRIPTOR_AUDIO\<close>); a copy that does not fit is \<open>None\<close>.

  \<open>de_list\<close> is the list of endpoints whose head is in the context of the default control pipe, \<open>de_queue\<close> the
  queues of the endpoints.
\<close>

datatype dispatch_type = WdfIoQueueDispatchSequential | WdfIoQueueDispatchParallel

record device_endpoints =
  de_unplugged :: bool
  de_ep0 :: "nat option"
  de_ep0_added :: bool
  de_list :: "endpoint_ctx list"
  de_descriptor :: "nat \<rightharpoonup> bytes"
  de_queue :: "nat \<rightharpoonup> dispatch_type"

text \<open>The answers of UdeCx and of the framework: \<open>UdecxUsbEndpointCreate\<close> with the new object, and
  \<open>WdfIoQueueCreate\<close>.\<close>

record endpoint_env =
  ee_create :: ntstatus
  ee_object :: nat
  ee_queue :: ntstatus

definition EP0 :: bytes where "EP0 = [7, 5, 0, 0, 0, 0, 0]"

definition sizeof_endpoint_descriptor_audio :: nat where "sizeof_endpoint_descriptor_audio = 9"

text \<open>A context is zeroed when it is created.\<close>

definition copy_descriptor :: "bytes \<Rightarrow> nat \<Rightarrow> bytes option" where
  "copy_descriptor epd len =
     (if len \<le> length epd \<and> len \<le> sizeof_endpoint_descriptor_audio
      then Some (take len epd @ replicate (sizeof_endpoint_descriptor_audio - len) 0) else None)"

definition create_endpoint_queue ::
  "endpoint_env \<Rightarrow> dispatch_type \<Rightarrow> device_endpoints \<Rightarrow> ntstatus \<times> device_endpoints"
where
  "create_endpoint_queue env dispatch d =
     (if ee_queue env \<noteq> STATUS_SUCCESS then (ee_queue env, d)
      else (STATUS_SUCCESS, d\<lparr>de_queue := (de_queue d)(ee_object env \<mapsto> dispatch)\<rparr>))"

text \<open>\<open>data->EndpointDescriptor\<close>, if it is not null, and \<open>data->EndpointDescriptorBufferLength\<close>.\<close>

definition endpoint_add ::
  "endpoint_env \<Rightarrow> bytes option \<Rightarrow> nat \<Rightarrow> device_endpoints \<Rightarrow> (ntstatus \<times> device_endpoints) option"
where
  "endpoint_add env EndpointDescriptor len d =
     (if de_unplugged d then Some (STATUS_DEVICE_NOT_CONNECTED, d)
      else if ee_create env \<noteq> STATUS_SUCCESS then Some (ee_create env, d)
      else
        let epd = (case EndpointDescriptor of Some e \<Rightarrow> e | None \<Rightarrow> EP0);
            n = (if len \<noteq> 0 then len else 7);
            dispatch = (if usb_endpoint_type (epd ! 3) = UsbdPipeTypeControl
                        then WdfIoQueueDispatchSequential else WdfIoQueueDispatchParallel) in
        case copy_descriptor epd n of
          None \<Rightarrow> None
        | Some descr \<Rightarrow>
            let endp = \<lparr>ep_object = ee_object env, PipeHandle = 0, bEndpointAddress = descr ! 2\<rparr>;
                d = d\<lparr>de_descriptor := (de_descriptor d)(ee_object env \<mapsto> descr)\<rparr> in
            if len \<noteq> 0 then
              if de_ep0 d = None then None
              else Some (create_endpoint_queue env dispatch (d\<lparr>de_list := insert_endpoint_list (de_list d) endp\<rparr>))
            else
              Some (create_endpoint_queue env dispatch
                (d\<lparr>de_ep0 := Some (ee_object env), de_ep0_added := True\<rparr>)))"

definition default_endpoint_add :: "endpoint_env \<Rightarrow> device_endpoints \<Rightarrow> (ntstatus \<times> device_endpoints) option" where
  "default_endpoint_add env = endpoint_add env None 0"

text \<open>The list ends to be reachable with the context that has its head.\<close>

definition endpoint_cleanup :: "nat \<Rightarrow> device_endpoints \<Rightarrow> device_endpoints" where
  "endpoint_cleanup obj d =
     d\<lparr>de_list := (if de_ep0 d = Some obj then []
                  else remove_endpoint_list (de_list d) \<lparr>ep_object = obj, PipeHandle = 0, bEndpointAddress = 0\<rparr>),
       de_descriptor := (de_descriptor d)(obj := None), de_queue := (de_queue d)(obj := None)\<rparr>"

definition endpoint_reset :: "endpoint_ctx \<Rightarrow> nat \<Rightarrow> submitter \<Rightarrow> submitter option" where
  "endpoint_reset endp request \<sigma> =
     (case clear_stall endp request \<sigma> of
        None \<Rightarrow> None
      | Some (st, \<sigma>) \<Rightarrow>
          Some (if st \<noteq> STATUS_PENDING then complete_with request (RequestComplete st) \<sigma> else \<sigma>))"

definition endpoints_configure :: "nat \<Rightarrow> submitter \<Rightarrow> submitter" where
  "endpoints_configure request = complete_with request (RequestComplete STATUS_SUCCESS)"

section \<open>Lookup\<close>

text \<open>An endpoint that has been added is the one that its address finds, also if an outdated one with the
  same address is still in the list; when it is gone, the older one is found again.\<close>

lemma endpoint_add_then_find:
  assumes "endpoint_add env (Some epd) len d = Some (STATUS_SUCCESS, d')" "len \<noteq> 0"
    "\<not> de_unplugged d" "ee_create env = STATUS_SUCCESS" "3 \<le> len"
  shows "\<exists>e. find_endpoint (de_list d') (ADDRESS (epd ! 2)) = Some e \<and> ep_object e = ee_object env"
  using assms
  by (auto simp: endpoint_add_def copy_descriptor_def create_endpoint_queue_def insert_endpoint_list_def Let_def nth_append
      split: if_splits)

lemma endpoint_cleanup_restores:
  assumes "endpoint_add env (Some epd) len d = Some (st, d')" "len \<noteq> 0" "ee_create env = STATUS_SUCCESS"
    "\<not> de_unplugged d" "ee_object env \<notin> ep_object ` set (de_list d)" "de_ep0 d \<noteq> Some (ee_object env)"
  shows "de_list (endpoint_cleanup (ee_object env) d') = de_list d"
proof -
  have "filter (\<lambda>e. ep_object e \<noteq> ee_object env) (de_list d) = de_list d"
    using assms(5) by (force simp: filter_id_conv)
  then show ?thesis
    using assms
    by (auto simp: endpoint_add_def create_endpoint_queue_def insert_endpoint_list_def endpoint_cleanup_def
        remove_endpoint_list_def Let_def split: if_splits option.splits)
qed

section \<open>Descriptors that do not fit\<close>

definition long_endpoint :: "nat \<Rightarrow> bytes" where
  "long_endpoint n = [word_of_nat n, 5, 0x81, 3, 8, 0, 10] @ replicate (n - 7) 0"

definition config_with_endpoint :: "u8 \<Rightarrow> u8 \<Rightarrow> u8 \<Rightarrow> nat \<Rightarrow> bytes list" where
  "config_with_endpoint c s p n =
     [[9, 2, word_of_nat ((18 + n) mod 256), word_of_nat ((18 + n) div 256), 1, 1, 0, 0x80, 50],
      [9, 4, 0, 0, 1, c, s, p, 0], long_endpoint n]"

lemma unat_of_byte: "n < 256 \<Longrightarrow> unat (word_of_nat n :: u8) = n"
  by (simp add: unsigned_of_nat take_bit_nat_eq_self)

text \<open>C39. The filter lets endpoint descriptors pass that are longer than the driver can store: for every
  allowed class and every length from 10 to 255 there is a configuration that the parser accepts and that
  has an endpoint descriptor of that length, and adding that endpoint with its whole descriptor writes
  behind the nine bytes that its context has for it.\<close>

theorem long_endpoint_overflows:
  assumes "10 \<le> n" "n \<le> 255" "allowed \<lparr>intf_number = 0, alternate_setting = 0, cls = c, subcls = s, protocol = p\<rparr>"
    "\<not> de_unplugged d" "ee_create env = STATUS_SUCCESS"
  shows "error (evaluate_configuration (concat (config_with_endpoint c s p n)) allowed) = err_none \<and>
    (\<exists>epd \<in> set (config_with_endpoint c s p n). epd ! 1 = endpoint_descriptor_type \<and>
      endpoint_add env (Some epd) (length epd) d = None)"
proof
  have len: "length (long_endpoint n) = n" using assms(1) by (simp add: long_endpoint_def)
  let ?ds = "config_with_endpoint c s p n"
  have hdr: "valid_header (concat ?ds)"
    using len assms(1,2) by (simp add: valid_header_def config_with_endpoint_def unat_of_byte)
  have size: "\<forall>d \<in> set ?ds. well_sized d"
    using assms(1,2) len
    by (simp add: config_with_endpoint_def well_sized_def) (simp add: long_endpoint_def unat_of_byte)
  have ok: "\<forall>d \<in> set ?ds. descriptor_ok allowed d"
    using assms(1,3) len by (simp add: config_with_endpoint_def descriptor_ok_def interface_at_def) (simp add: long_endpoint_def)
  have "{d \<in> set ?ds. is_interface d} = {[9, 4, 0, 0, 1, c, s, p, 0]}"
    by (auto simp: config_with_endpoint_def is_interface_def long_endpoint_def)
  then have "interface_numbers ?ds = {0}" by (simp add: interface_numbers_def)
  then have "acceptable allowed (concat ?ds) ?ds"
    using hdr size ok by (simp add: acceptable_def) (simp add: config_with_endpoint_def is_interface_def)
  then show "error (evaluate_configuration (concat ?ds) allowed) = err_none"
    using evaluate_configuration_accepts by blast
  have "endpoint_add env (Some (long_endpoint n)) (length (long_endpoint n)) d = None"
    using assms(1,4,5) len by (simp add: endpoint_add_def copy_descriptor_def sizeof_endpoint_descriptor_audio_def)
  then show "\<exists>epd \<in> set ?ds. epd ! 1 = endpoint_descriptor_type \<and> endpoint_add env (Some epd) (length epd) d = None"
    by (intro bexI [of _ "long_endpoint n"]) (simp_all add: long_endpoint_def config_with_endpoint_def)
qed

definition sample_endpoints :: device_endpoints where
  "sample_endpoints = \<lparr>de_unplugged = False, de_ep0 = Some 1, de_ep0_added = True, de_list = [],
     de_descriptor = Map.empty, de_queue = Map.empty\<rparr>"

definition sample_endpoint_env :: endpoint_env where
  "sample_endpoint_env = \<lparr>ee_create = STATUS_SUCCESS, ee_object = 2, ee_queue = STATUS_SUCCESS\<rparr>"

theorem long_endpoint_overflows_witness:
  "error (evaluate_configuration (concat (config_with_endpoint 3 1 1 10)) (\<lambda>i. cls i = 3)) = err_none \<and>
   (\<exists>epd \<in> set (config_with_endpoint 3 1 1 10). epd ! 1 = 5 \<and>
      endpoint_add sample_endpoint_env (Some epd) (length epd) sample_endpoints = None)"
  using long_endpoint_overflows [of 10 "\<lambda>i. cls i = 3" 3 1 1 sample_endpoints sample_endpoint_env]
  by (simp add: sample_endpoints_def sample_endpoint_env_def)

end
