(* ===== verification/Spec2Isabelle.thy ===== *)
theory Spec2Isabelle
  imports Device_Filter Headers Request_List Filter_Request Receive_Safety Vhci_Ports Vhci_Events Wsk_Socket Reattach Attach Attach_Work Submit Strconv Persistent Vhci_Ioctl Client Remote Usb_Ids Filter_Stack Endpoints
begin

text \<open>
  A verification development of the USB/IP client for Windows: the driver of the virtual host
  controller (\<open>src/drivers/ude\<close>), the upper filter driver (\<open>src/drivers/ude_filter\<close>), the code they
  share (\<open>src/drivers/libdrv\<close>, \<open>src/include/usbip\<close>) and the client library (\<open>src/userspace/libusbip\<close>).

  \<^bold>\<open>The program.\<close> A server exports USB devices over TCP. A client program calls \<open>libusbip\<close>, which
  sends IOCTLs to the controller. For \<open>PLUGIN_HARDWARE\<close> the driver starts a work item that resolves
  the name of the server, connects, imports the device, reads its descriptors and asks the device-type
  filter; a device that the filter accepts is created as a UdeCx device and plugged into a free port of
  the root hub. From then on two paths run at the same time for each device. URBs of Windows are turned
  into submit commands, put in the list of waiting requests and sent. A receive thread reads the
  answers, finds the requests they belong to, fills in their URBs and completes them; cancellation,
  the purge of an endpoint and failed sends compete with it for the same requests. When the connection
  breaks, the driver sends itself a request to detach the device, and may try to attach it again later.
  Clients read notifications about all this from the controller.

  \<^bold>\<open>Theories.\<close> Each one opens with a description of its state and its parameters.
  \<^item> \<open>Prelude\<close>: words, statuses, memory images of integers, runs of a step relation, and lemmas on lists.
  \<^item> \<open>Protocol\<close> (\<open>proto.h\<close>, \<open>proto_op.h\<close>, \<open>libdrv/pdu.cpp\<close>, \<open>proto_op.cpp\<close>): headers, byte order, sizes of
    payloads. The locale \<open>wire_codec\<close> is the contract of a structure on the wire; it is interpreted on
    the URB header, the header of operations, the description of a device, the length of the list of
    devices, and the policy of the filter.
  \<^item> \<open>Filter_Policy\<close> (\<open>device_filter_policy.h\<close>, \<open>load\<close>, \<open>store\<close>, two IOCTLs), \<open>Config_Parser\<close>
    (\<open>device_filter_parser.h\<close>), \<open>Descriptor_Patch\<close> (\<open>descriptor_patch.cpp\<close>, \<open>usbdsc.cpp\<close>, \<open>ch9.h\<close>) and
    \<open>Device_Filter\<close> (\<open>device_filter.cpp\<close>): the filter, from its memory image in the registry to its
    decision on a device. The locale \<open>descriptor_search\<close> is what is relied on of the search of
    Windows; it is interpreted on the search that the driver has of its own.
  \<^item> \<open>Network\<close> (\<open>wsk_cpp.cpp\<close>, \<open>network.cpp\<close>): synchronous transfers. \<open>Wsk_Socket\<close> (\<open>wsk_cpp.cpp\<close>): closing of
    a socket that other threads use.
  \<^item> \<open>Usbd_Helper\<close> (\<open>usbd_helper.cpp\<close>), \<open>Headers\<close> (\<open>proto.cpp\<close>, \<open>context.cpp\<close>), \<open>Submit\<close> (\<open>device_ioctl.cpp\<close>,
    \<open>wsk_context.cpp\<close>): the way of a URB to the server.
  \<^item> \<open>Request_List\<close> (\<open>request_list.cpp\<close>, \<open>send_complete\<close>, \<open>cancel_request\<close>): waiting requests, and who
    completes them.
  \<^item> \<open>Isoch\<close>, \<open>Receive\<close>, \<open>Receive_Safety\<close> (\<open>wsk_receive.cpp\<close>, \<open>wsk_context.cpp\<close>): the receive thread.
  \<^item> \<open>Filter_Request\<close> (\<open>ude_filter\<close>, \<open>filter_request.cpp\<close>, \<open>endpoint_list.cpp\<close>): the disguised requests by
    which the upper filter tells the driver what UdeCx hides from it. \<open>Filter_Stack\<close> (\<open>ude_filter/device.cpp\<close>,
    \<open>pnp.cpp\<close>, \<open>query_interface.cpp\<close>): its device objects. \<open>Endpoints\<close> (\<open>device.cpp\<close>): the endpoints of a device.
  \<^item> \<open>Vhci_Ports\<close>, \<open>Vhci_Events\<close> (\<open>vhci.cpp\<close>): the root hub and the notifications. The locale \<open>port_table\<close> is
    what the other components rely on of the root hub; it is interpreted on its operations.
  \<^item> \<open>Attach\<close>, \<open>Attach_Work\<close> (\<open>vhci_ioctl.cpp\<close>, \<open>device.cpp\<close>): attaching and detaching, on top of the filter,
    the network, the root hub and the notifications. \<open>Reattach\<close> (\<open>persistent.cpp\<close>): repeated attempts.
  \<^item> \<open>Strconv\<close> (both \<open>strconv.cpp\<close>), \<open>Persistent\<close> (both \<open>persistent.cpp\<close>, two IOCTLs): devices that are
    attached when the controller starts.
  \<^item> \<open>Vhci_Ioctl\<close> (\<open>vhci_ioctl.cpp\<close>): the requests of clients, and their dispatch.
  \<^item> \<open>Client\<close> (\<open>libusbip/src/vhci.cpp\<close>): the library, composed with the handlers of the driver. \<open>Remote\<close>
    (\<open>libusbip/src/remote.cpp\<close>): the devices of a server. \<open>Usb_Ids\<close> (\<open>libusbip/src/usb_ids.cpp\<close>,
    \<open>usbip/strings.cpp\<close>): the names of devices and classes.

  \<^bold>\<open>How the code is represented.\<close> Structures are records, enumerations datatypes, and integers words of
  their width wherever the code can wrap. A function that changes an object takes and returns its
  record; statuses are values of \<^typ>\<open>ntstatus\<close> and every early return is a branch. Where code is
  careless with memory, the model is not: an access outside of an allocation, or to an object that has
  been deleted, is an outcome of its own (\<open>None\<close>, \<open>Fault\<close>, \<open>UseAfterFree\<close>), and a buffer whose old contents
  matter is an argument. Code that several threads run is a step relation, one step for what is done
  under a lock or by one interlocked operation: \<^const>\<open>race_step\<close>, \<^const>\<open>sock_step\<close>, \<^const>\<open>ev_step\<close>,
  \<^const>\<open>hub_step\<close>, \<^const>\<open>attach_step\<close>.

  The Windows kernel, its driver framework, UdeCx, the registry, the conversions of strings and the
  server are not code of this repository. They are arguments: scripts of answers (\<open>kenv\<close>, \<open>plug_env\<close>,
  \<open>sock_env\<close>), records of functions over a state (\<open>registry_api\<close>, \<open>wide_api\<close>, \<open>net\<close>), or results that are
  passed to the function that gets them. The theorems hold for every such argument; where documented
  behaviour is needed it is a hypothesis, and a witness satisfies it.

  \<^bold>\<open>What is shown.\<close>
  \<^item> The filter. The parser of configurations accepts exactly what a declarative specification accepts. A
    device attaches only with the descriptors that were checked, and they are what UdeCx gets; the
    conversion for UdeCx cannot change a class. A device that the policy allows does attach. Every
    decision is made and reported once. A policy that cannot be read denies everything; one that was
    stored is read back with the same meaning, by the driver and by a client.
  \<^item> The life of a request. A URB is completed at once or is put in the list, and then the message to the
    server is exactly the transfer. Sequence numbers do not repeat. In any interleaving a request is
    completed by one path at most, and none is lost. The receive thread completes only requests that
    were waiting, and each once; it places the data of a transfer where it belongs, and leaves the memory
    it owns only for the malformed answers that the findings describe.
  \<^item> The controller. The table of ports refines a partial map. Attaching succeeds or is undone; a request
    to attach is completed once, after every address has been tried at most once; repeated attempts end.
    Detaching affects exactly the devices it names. Notifications are delivered in order, none twice,
    and none is missed unless the queue overflows. A socket is closed only when no thread is in a call.
    The upper filter driver leaves no device object, handle or memory behind, and has a filter above each
    device of the root hub.
  \<^item> From end to end. What a client asks for is what the driver does, for attaching, persistent devices
    and the policy; what the driver has is what the client is told; what a server exports is what the
    client enumerates; what the file of names declares is what is looked up.
  \<^item> Defects. Theorems of the kind \<open>error\<close> show behaviour that the code does not mean to have, on the inputs
    that cause it.

  \<^bold>\<open>Loops and bounds.\<close> Most loops are \<open>function\<close>s with a measure. \<open>patch_loop\<close> has fuel \<open>wTotalLength\<close>,
  enough since a round passes at least two bytes, which is proved. The loops whose end depends on others
  are partial functions with results in \<open>option\<close>, and that they return is a part of what is proved:
  \<open>attempts_loop\<close> (for delays in the range that \<open>init_constants\<close> enforces), \<open>get_persistent_loop\<close> (two calls),
  \<open>grow_buffer\<close> (seven calls for 255 ports) and \<open>client_send\<close> (a socket that takes at least a byte). \<open>run_workitem\<close>
  has a list with one environment for each completed asynchronous call; it is long enough if there is one
  more than there are addresses. The count of calls into a socket has 61 bits, hence the bound on threads.

  \<^bold>\<open>Not modelled.\<close> The command line client, the graphical client and the installer of the device node
  parse options, draw windows and call the setup API around the library; CLI11 is not code of this
  repository. Tracing and the names of requests and the versions of files are output for people. The entry points
  of the drivers and the power callbacks of a device register functions or return success.
  Within the modelled parts the following is left out: the packet of the event log that reports a
  rejection (its arguments and its whitelist text are modelled), lookaside lists and IRQLs, resolving of
  names and connecting in \<open>remote.cpp\<close>, and in the library the opening of the device interface, the random
  part of generated serial numbers and the table of device categories.
\<close>

end
